(* ===== verification/Gateway_Prelude.thy ===== *)
theory Gateway_Prelude
  imports Main "HOL-Library.Word"
begin

text \<open>
  Shared vocabulary of the development: the machine integer types of the C++ sources
  (\<open>size_t\<close>, \<open>uint64_t\<close> and \<open>uint8_t\<close> as words; \<open>int\<close> as a range-checked integer), the
  collections of simplification rules the component theories extend, and the generic
  facts on words and lists that several components use.
\<close>

unbundle bit_operations_syntax

type_synonym size_t = "64 word"
type_synonym uint64 = "64 word"
type_synonym uint8 = "8 word"

named_theorems queue_simps \<open>unfolding rules of the queue operations\<close>
named_theorems pool_simps \<open>unfolding rules of the pool operations\<close>
named_theorems msg_simps \<open>unfolding rules of the message operations\<close>

section \<open>Decimal numerals\<close>

text \<open>\<open>std::to_string\<close> on unsigned and signed integers.\<close>

definition digit_char :: "nat \<Rightarrow> char" where
  "digit_char d = char_of (48 + d)"

fun to_string_nat :: "nat \<Rightarrow> string" where
  "to_string_nat n = (if n < 10 then [digit_char n] else to_string_nat (n div 10) @ [digit_char (n mod 10)])"

declare to_string_nat.simps [simp del]

definition to_string_int :: "int \<Rightarrow> string" where
  "to_string_int i = (if i < 0 then CHR ''-'' # to_string_nat (nat (- i)) else to_string_nat (nat i))"

definition to_string_word :: "'a::len word \<Rightarrow> string" where
  "to_string_word w = to_string_nat (unat w)"

section \<open>Words\<close>

lemma unat_and_mask:
  fixes w :: "'a::len word"
  shows "unat (w AND mask k) = unat w mod 2 ^ k"
  by (metis take_bit_eq_mask take_bit_eq_mod unsigned_take_bit_eq)

lemma unat_Suc_and_mask:
  fixes w :: "'a::len word"
  assumes "k \<le> LENGTH('a)"
  shows "unat ((w + 1) AND mask k) = Suc (unat w) mod 2 ^ k"
proof -
  have "unat (w + 1) mod 2 ^ k = (unat w + 1) mod 2 ^ LENGTH('a) mod 2 ^ k"
    by (cases "LENGTH('a) = 0") (simp_all add: unat_word_ariths)
  also have "\<dots> = (unat w + 1) mod 2 ^ k"
    using assms by (simp add: mod_mod_cancel le_imp_power_dvd)
  finally show ?thesis
    by (simp add: unat_and_mask)
qed

lemma unat_diff_and_mask:
  fixes a b :: "'a::len word"
  assumes "k \<le> LENGTH('a)" "unat a < 2 ^ k" "unat b < 2 ^ k"
  shows "unat ((a - b) AND mask k) = (unat a + 2 ^ k - unat b) mod 2 ^ k"
proof -
  have dvd: "(2::int) ^ k dvd 2 ^ LENGTH('a)"
    using assms(1) by (simp add: le_imp_power_dvd)
  have "int (unat (a - b) mod 2 ^ k) = uint (a - b) mod 2 ^ k"
    by (simp add: zmod_int)
  also have "\<dots> = (uint a - uint b) mod 2 ^ LENGTH('a) mod 2 ^ k"
    by (simp add: uint_word_ariths)
  also have "\<dots> = (uint a - uint b) mod 2 ^ k"
    using dvd by (simp add: mod_mod_cancel)
  also have "\<dots> = (uint a - uint b + 2 ^ k) mod 2 ^ k"
    by simp
  also have "uint a - uint b + 2 ^ k = int (unat a + 2 ^ k - unat b)"
    using assms(3) by (simp add: of_nat_diff)
  also have "int (unat a + 2 ^ k - unat b) mod 2 ^ k = int ((unat a + 2 ^ k - unat b) mod 2 ^ k)"
    by (simp add: zmod_int)
  finally show ?thesis
    by (simp add: unat_and_mask)
qed

lemma unat_pow2:
  assumes "k < LENGTH('a::len)"
  shows "unat ((2::'a word) ^ k) = 2 ^ k"
proof -
  have "(2::nat) ^ k < 2 ^ LENGTH('a)"
    using assms by simp
  then have "unat (word_of_nat (2 ^ k) :: 'a word) = 2 ^ k"
    by (simp only: unat_of_nat mod_less)
  then show ?thesis by simp
qed

lemma unat_minus_1: "0 < unat n \<Longrightarrow> unat (n - 1) = unat n - 1"
  using unat_sub [of 1 n] by (simp add: word_le_nat_alt)

section \<open>Lists\<close>

lemma map_nth_upd_irrelevant:
  "(\<And>i. i \<in> set is \<Longrightarrow> f i \<noteq> j) \<Longrightarrow> map (\<lambda>i. xs[j := v] ! f i) is = map (\<lambda>i. xs ! f i) is"
  by (intro map_cong refl nth_list_update_neq) auto

lemma map_of_zip_upd:
  "length xs = length ys \<Longrightarrow> a \<notin> set xs \<Longrightarrow> h(a \<mapsto> v) ++ map_of (zip xs ys) = h ++ map_of (zip (a # xs) (v # ys))"
  by (rule ext) (auto simp: map_add_def split: option.split dest!: map_of_SomeD dest: set_zip_leftD)

end
