(* ===== verification/Fifo_Interface.thy ===== *)
theory Fifo_Interface
  imports Gateway_Prelude "HOL-Library.Monad_Syntax"
begin

text \<open>
  The contract of a bounded first-in-first-out queue as the message managers use it:
  an operation that accepts or refuses an element, an operation that delivers the oldest
  element or reports that there is none, and a closed state in which both refuse.
  The two client idioms of the sources, popping until the queue reports empty and pushing
  a batch back, are proved once against the contract.
\<close>

section \<open>Client idioms\<close>

text \<open>\<open>while (queue.tryPop(x)) xs.push_back(x)\<close>; a queue that always delivers gives \<open>None\<close>.\<close>

partial_function (option) drain :: "('q \<Rightarrow> bool \<times> 'a \<times> 'q) \<Rightarrow> 'q \<Rightarrow> ('a list \<times> 'q) option" where
  "drain get q =
    (case get q of (ok, x, q') \<Rightarrow>
       if ok then do { (xs, q'') \<leftarrow> drain get q'; Some (x # xs, q'') }
       else Some ([], q'))"

text \<open>Popping until an element satisfies the condition; the elements in front of it are collected.\<close>

partial_function (option) drain_until :: "('a \<Rightarrow> bool) \<Rightarrow> ('q \<Rightarrow> bool \<times> 'a \<times> 'q) \<Rightarrow> 'q \<Rightarrow> ('a list \<times> 'a option \<times> 'q) option" where
  "drain_until P get q =
    (case get q of (ok, x, q') \<Rightarrow>
       if \<not> ok then Some ([], None, q')
       else if P x then Some ([], Some x, q')
       else do { (xs, y, q'') \<leftarrow> drain_until P get q'; Some (x # xs, y, q'') })"

text \<open>\<open>for (x : xs) queue.push(x)\<close> with the results ignored.\<close>

primrec put_all :: "('a \<Rightarrow> 'q \<Rightarrow> bool \<times> 'q) \<Rightarrow> 'a list \<Rightarrow> 'q \<Rightarrow> 'q" where
  "put_all put [] q = q"
| "put_all put (x # xs) q = put_all put xs (snd (put x q))"

text \<open>A schedule of calls with the accepted and the delivered elements it produces.\<close>

datatype 'a qop = Put 'a | Take

fun run_ops :: "('a \<Rightarrow> 'q \<Rightarrow> bool \<times> 'q) \<Rightarrow> ('q \<Rightarrow> bool \<times> 'a \<times> 'q) \<Rightarrow> 'a qop list \<Rightarrow> 'q \<Rightarrow> 'a list \<times> 'a list \<times> 'q" where
  "run_ops put get [] q = ([], [], q)"
| "run_ops put get (Put x # ops) q =
    (let (ok, q') = put x q; (acc, del, q'') = run_ops put get ops q'
     in (if ok then x # acc else acc, del, q''))"
| "run_ops put get (Take # ops) q =
    (let (ok, x, q') = get q; (acc, del, q'') = run_ops put get ops q'
     in (acc, if ok then x # del else del, q''))"

section \<open>The contract\<close>

locale bounded_fifo =
  fixes inv :: "'q \<Rightarrow> bool"
    and cont :: "'q \<Rightarrow> 'a list"
    and room :: "'q \<Rightarrow> nat"
    and closed :: "'q \<Rightarrow> bool"
    and put :: "'a \<Rightarrow> 'q \<Rightarrow> bool \<times> 'q"
    and get :: "'q \<Rightarrow> bool \<times> 'a \<times> 'q"
  assumes put_inv: "inv q \<Longrightarrow> inv (snd (put x q))"
    and put_frame: "inv q \<Longrightarrow> room (snd (put x q)) = room q"
      "inv q \<Longrightarrow> closed (snd (put x q)) = closed q"
    and put_ok: "inv q \<Longrightarrow> fst (put x q) \<longleftrightarrow> \<not> closed q \<and> length (cont q) < room q"
    and put_cont: "inv q \<Longrightarrow> cont (snd (put x q)) = (if fst (put x q) then cont q @ [x] else cont q)"
    and get_inv: "inv q \<Longrightarrow> inv (snd (snd (get q)))"
    and get_frame: "inv q \<Longrightarrow> room (snd (snd (get q))) = room q"
      "inv q \<Longrightarrow> closed (snd (snd (get q))) = closed q"
    and get_ok: "inv q \<Longrightarrow> fst (get q) \<longleftrightarrow> \<not> closed q \<and> cont q \<noteq> []"
    and get_cont: "inv q \<Longrightarrow> cont q = (if fst (get q) then [fst (snd (get q))] else []) @ cont (snd (snd (get q)))"
    and cont_bound: "inv q \<Longrightarrow> length (cont q) \<le> room q"
begin

lemmas put_laws = put_inv put_frame put_ok put_cont
lemmas get_laws = get_inv get_frame get_ok get_cont
lemmas laws = put_inv put_frame put_ok put_cont get_inv get_frame get_ok

lemma drain_open:
  assumes "inv q" "\<not> closed q"
  shows "\<exists>q'. drain get q = Some (cont q, q') \<and> inv q' \<and> cont q' = [] \<and> room q' = room q \<and> \<not> closed q'"
  using assms
proof (induction "cont q" arbitrary: q)
  case Nil
  obtain ok x q' where t: "get q = (ok, x, q')" by (cases "get q")
  with Nil have "\<not> ok" "cont q' = []" "inv q'" "room q' = room q" "\<not> closed q'"
    using get_laws [of q] by auto
  with Nil t show ?case
    by (subst drain.simps) simp
next
  case (Cons y ys)
  obtain ok x q' where t: "get q = (ok, x, q')" by (cases "get q")
  with Cons.hyps(2) Cons.prems have q': "ok" "x = y" "cont q' = ys" "inv q'" "room q' = room q" "\<not> closed q'"
    using get_laws [of q] by auto
  with Cons.hyps(1) [of q'] obtain q'' where "drain get q' = Some (ys, q'')"
    "inv q''" "cont q'' = []" "room q'' = room q" "\<not> closed q''"
    by auto
  with Cons.hyps(2) [symmetric] t q' show ?case
    by (subst drain.simps) simp
qed

lemma drain_closed:
  assumes "inv q" "closed q"
  shows "\<exists>q'. drain get q = Some ([], q') \<and> inv q' \<and> cont q' = cont q \<and> room q' = room q \<and> closed q'"
proof -
  obtain ok x q' where t: "get q = (ok, x, q')" by (cases "get q")
  with assms have "\<not> ok" "cont q' = cont q" "inv q'" "room q' = room q" "closed q'"
    using get_laws [of q] by auto
  with t show ?thesis
    by (subst drain.simps) simp
qed

lemma drain_until_open:
  assumes "inv q" "\<not> closed q"
  shows "\<exists>q'. inv q' \<and> room q' = room q \<and> \<not> closed q'
    \<and> drain_until P get q = Some (takeWhile (\<lambda>x. \<not> P x) (cont q), List.find P (cont q), q')
    \<and> cont q' = drop (Suc (length (takeWhile (\<lambda>x. \<not> P x) (cont q)))) (cont q)"
  using assms
proof (induction "cont q" arbitrary: q)
  case Nil
  obtain ok x q' where t: "get q = (ok, x, q')" by (cases "get q")
  with Nil have "\<not> ok" "cont q' = []" "inv q'" "room q' = room q" "\<not> closed q'"
    using get_laws [of q] by auto
  with Nil t show ?case
    by (subst drain_until.simps) simp
next
  case (Cons y ys)
  obtain ok x q' where t: "get q = (ok, x, q')" by (cases "get q")
  with Cons.hyps(2) Cons.prems have q': "ok" "x = y" "cont q' = ys" "inv q'" "room q' = room q" "\<not> closed q'"
    using get_laws [of q] by auto
  show ?case
  proof (cases "P y")
    case True
    with Cons.hyps(2) [symmetric] t q' show ?thesis
      by (subst drain_until.simps) simp
  next
    case False
    from Cons.hyps(1) [of q'] q' obtain q'' where
      "drain_until P get q' = Some (takeWhile (\<lambda>x. \<not> P x) ys, List.find P ys, q'')" "inv q''" "room q'' = room q" "\<not> closed q''"
      "cont q'' = drop (Suc (length (takeWhile (\<lambda>x. \<not> P x) ys))) ys"
      by auto
    with Cons.hyps(2) [symmetric] t q' False show ?thesis
      by (subst drain_until.simps) simp
  qed
qed

lemma put_all_frame:
  "inv q \<Longrightarrow> inv (put_all put xs q) \<and> room (put_all put xs q) = room q \<and> closed (put_all put xs q) = closed q"
  by (induction xs arbitrary: q) (simp_all add: laws)

lemma put_all_cont:
  "inv q \<Longrightarrow> \<not> closed q \<Longrightarrow> length (cont q) + length xs \<le> room q \<Longrightarrow> cont (put_all put xs q) = cont q @ xs"
  by (induction xs arbitrary: q) (simp_all add: laws)

lemma put_all_take:
  assumes "inv q" "\<not> closed q"
  shows "cont (put_all put xs q) = cont q @ take (room q - length (cont q)) xs"
  using assms
proof (induction xs arbitrary: q)
  case (Cons x xs)
  have "room q - length (cont q) = 0 \<or> room q - length (cont q) = Suc (room q - Suc (length (cont q)))" by linarith
  with Cons show ?case by (auto simp: laws)
qed simp

lemma put_all_closed:
  "inv q \<Longrightarrow> closed q \<Longrightarrow> cont (put_all put xs q) = cont q"
  by (induction xs arbitrary: q) (simp_all add: laws)

lemma run_ops_fifo:
  assumes "inv q" "run_ops put get ops q = (acc, del, q')"
  shows "inv q' \<and> room q' = room q \<and> closed q' = closed q \<and> cont q @ acc = del @ cont q'"
  using assms
proof (induction ops arbitrary: q acc del)
  case Nil
  then show ?case by simp
next
  case (Cons op ops)
  show ?case
  proof (cases op)
    case (Put x)
    obtain ok q1 where p: "put x q = (ok, q1)" by (cases "put x q")
    obtain acc1 del1 q2 where r: "run_ops put get ops q1 = (acc1, del1, q2)" by (cases "run_ops put get ops q1")
    have "inv q1" "room q1 = room q" "closed q1 = closed q" "cont q1 = (if ok then cont q @ [x] else cont q)"
      using Cons.prems(1) p put_laws [of q x] by auto
    with Cons.IH [of q1 acc1 del1] r p Put Cons.prems(2) show ?thesis
      by (auto split: if_splits)
  next
    case Take
    obtain ok x q1 where p: "get q = (ok, x, q1)" by (cases "get q")
    obtain acc1 del1 q2 where r: "run_ops put get ops q1 = (acc1, del1, q2)" by (cases "run_ops put get ops q1")
    have "inv q1" "room q1 = room q" "closed q1 = closed q" "cont q = (if ok then [x] else []) @ cont q1"
      using Cons.prems(1) p get_laws [of q] by auto
    with Cons.IH [of q1 acc1 del1] r p Take Cons.prems(2) show ?thesis
      by (auto split: if_splits)
  qed
qed

end

end
