(* ===== verification/Lockfree_Queue.thy ===== *)
theory Lockfree_Queue
  imports Gateway_Prelude Fifo_Interface
begin

text \<open>
  \<open>LockFreeQueue<T>\<close> of include/utils/lockfree_queue.h: the ring buffer with its head
  and tail indices kept at the width of \<open>size_t\<close>, the bit-smearing capacity computation,
  and the interface \<open>bounded_fifo\<close> that the message managers rely on.
  \<open>T{}\<close>, the value \<open>tryPop\<close> writes when it fails, is the argument \<open>dflt\<close>.
\<close>

section \<open>The ring buffer\<close>

record 'a lfq =
  q_head :: size_t
  q_tail :: size_t
  q_capacity :: size_t
  q_mask :: size_t
  q_messages :: "'a list"
  q_push_count :: uint64
  q_pop_count :: uint64
  q_drop_count :: uint64
  q_name :: string
  q_shutdown :: bool

definition nextPowerOfTwo :: "size_t \<Rightarrow> size_t" where
  "nextPowerOfTwo n =
    (if n = 0 then 1
     else let n = n - 1;
              n = n OR drop_bit 1 n;
              n = n OR drop_bit 2 n;
              n = n OR drop_bit 4 n;
              n = n OR drop_bit 8 n;
              n = n OR drop_bit 16 n;
              n = n OR drop_bit 32 n
          in n + 1)"

definition newQueue :: "'a \<Rightarrow> size_t \<Rightarrow> string \<Rightarrow> 'a lfq" where
  "newQueue dflt max_size name =
    \<lparr> q_head = 0, q_tail = 0,
      q_capacity = nextPowerOfTwo max_size,
      q_mask = nextPowerOfTwo max_size - 1,
      q_messages = replicate (unat (nextPowerOfTwo max_size)) dflt,
      q_push_count = 0, q_pop_count = 0, q_drop_count = 0,
      q_name = name, q_shutdown = False \<rparr>"

definition push :: "'a \<Rightarrow> 'a lfq \<Rightarrow> bool \<times> 'a lfq" where
  "push message q =
    (if q_shutdown q then (False, q)
     else let current_tail = q_tail q;
              next_tail = (current_tail + 1) AND q_mask q
          in if next_tail = q_head q
             then (False, q\<lparr>q_drop_count := q_drop_count q + 1\<rparr>)
             else (True, q\<lparr>q_messages := (q_messages q)[unat current_tail := message],
                            q_tail := next_tail,
                            q_push_count := q_push_count q + 1\<rparr>))"

definition tryPop :: "'a \<Rightarrow> 'a lfq \<Rightarrow> bool \<times> 'a \<times> 'a lfq" where
  "tryPop dflt q =
    (if q_shutdown q then (False, dflt, q)
     else let current_head = q_head q
          in if current_head = q_tail q then (False, dflt, q)
             else (True, q_messages q ! unat current_head,
                   q\<lparr>q_head := (current_head + 1) AND q_mask q,
                      q_pop_count := q_pop_count q + 1\<rparr>))"

definition shutdown_queue :: "'a lfq \<Rightarrow> 'a lfq" where
  "shutdown_queue q = q\<lparr>q_shutdown := True\<rparr>"

definition isShutdown :: "'a lfq \<Rightarrow> bool" where
  "isShutdown q = q_shutdown q"

definition queue_size :: "'a lfq \<Rightarrow> size_t" where
  "queue_size q = (q_tail q - q_head q) AND q_mask q"

definition queue_empty :: "'a lfq \<Rightarrow> bool" where
  "queue_empty q \<longleftrightarrow> q_head q = q_tail q"

definition queue_capacity :: "'a lfq \<Rightarrow> size_t" where
  "queue_capacity q = q_capacity q"

definition getTotalPushed :: "'a lfq \<Rightarrow> uint64" where
  "getTotalPushed q = q_push_count q"

definition getTotalPopped :: "'a lfq \<Rightarrow> uint64" where
  "getTotalPopped q = q_pop_count q"

definition getTotalDropped :: "'a lfq \<Rightarrow> uint64" where
  "getTotalDropped q = q_drop_count q"

definition queue_toString :: "'a lfq \<Rightarrow> string" where
  "queue_toString q =
     q_name q @ '' [size: '' @ to_string_word (queue_size q)
     @ '', capacity: '' @ to_string_word (q_capacity q)
     @ '', pushed: '' @ to_string_word (getTotalPushed q)
     @ '', popped: '' @ to_string_word (getTotalPopped q)
     @ '', dropped: '' @ to_string_word (getTotalDropped q) @ '']''"

section \<open>Abstraction and invariant\<close>

definition queue_inv :: "'a lfq \<Rightarrow> bool" where
  "queue_inv q \<longleftrightarrow>
    (\<exists>k < 64. q_capacity q = 2 ^ k \<and> q_mask q = mask k
        \<and> length (q_messages q) = 2 ^ k
        \<and> unat (q_head q) < 2 ^ k \<and> unat (q_tail q) < 2 ^ k)"

definition ring_count :: "nat \<Rightarrow> nat \<Rightarrow> nat \<Rightarrow> nat" where
  "ring_count c h t = (t + c - h) mod c"

definition ring_contents :: "'a list \<Rightarrow> nat \<Rightarrow> nat \<Rightarrow> 'a list" where
  "ring_contents xs h t = map (\<lambda>i. xs ! ((h + i) mod length xs)) [0..<ring_count (length xs) h t]"

definition contents :: "'a lfq \<Rightarrow> 'a list" where
  "contents q = ring_contents (q_messages q) (unat (q_head q)) (unat (q_tail q))"

definition usable :: "'a lfq \<Rightarrow> nat" where
  "usable q = length (q_messages q) - 1"

section \<open>Ring arithmetic\<close>

lemma ring_count_less [simp]: "0 < c \<Longrightarrow> ring_count c h t < c"
  by (simp add: ring_count_def)

lemma ring_count_le_cases:
  assumes "h < c" "t < c"
  shows "ring_count c h t = (if h \<le> t then t - h else t + c - h)"
proof (cases "h \<le> t")
  case True
  then have "t + c - h = (t - h) + c" by simp
  then have "ring_count c h t = (t - h) mod c"
    unfolding ring_count_def by (metis mod_add_self2)
  with assms True show ?thesis by simp
next
  case False
  with assms show ?thesis by (simp add: ring_count_def)
qed

lemma ring_count_0_iff:
  assumes "h < c" "t < c"
  shows "ring_count c h t = 0 \<longleftrightarrow> h = t"
  using assms by (auto simp: ring_count_le_cases)

lemma ring_full_iff:
  assumes "h < c" "t < c"
  shows "Suc t mod c = h \<longleftrightarrow> ring_count c h t = c - 1"
  using assms by (cases "Suc t = c") (auto simp: ring_count_le_cases)

lemma ring_count_put:
  assumes "h < c" "t < c" "Suc t mod c \<noteq> h"
  shows "ring_count c h (Suc t mod c) = Suc (ring_count c h t)"
  using assms by (cases "Suc t = c") (auto simp: ring_count_le_cases)

lemma ring_count_take:
  assumes "h < c" "t < c" "h \<noteq> t"
  shows "ring_count c h t = Suc (ring_count c (Suc h mod c) t)"
  using assms by (cases "Suc h = c") (auto simp: ring_count_le_cases)

lemma ring_index_tail:
  assumes "h < c" "t < c"
  shows "(h + ring_count c h t) mod c = t"
  using assms by (auto simp: ring_count_le_cases)

lemma ring_index_neq_tail:
  assumes "h < c" "t < c" "i < ring_count c h t"
  shows "(h + i) mod c \<noteq> t"
proof -
  have "h + i < c + c"
    using assms by (auto simp: ring_count_le_cases split: if_splits)
  then have "(h + i) mod c = (if h + i < c then h + i else h + i - c)"
    by (simp add: le_mod_geq)
  with assms show ?thesis
    by (auto simp: ring_count_le_cases split: if_splits)
qed

lemma ring_contents_put:
  assumes "h < length xs" "t < length xs" "Suc t mod length xs \<noteq> h"
  shows "ring_contents (xs[t := v]) h (Suc t mod length xs) = ring_contents xs h t @ [v]"
proof -
  have "map (\<lambda>i. xs[t := v] ! ((h + i) mod length xs)) [0..<ring_count (length xs) h t]
      = map (\<lambda>i. xs ! ((h + i) mod length xs)) [0..<ring_count (length xs) h t]"
    using assms by (intro map_nth_upd_irrelevant) (simp add: ring_index_neq_tail)
  then show ?thesis
    using assms by (simp add: ring_contents_def ring_count_put ring_index_tail)
qed

lemma ring_contents_take:
  assumes "h < length xs" "t < length xs" "h \<noteq> t"
  shows "ring_contents xs h t = xs ! h # ring_contents xs (Suc h mod length xs) t"
proof -
  let ?c = "length xs" and ?n = "ring_count (length xs) (Suc h mod length xs) t"
  have shift: "(h + Suc i) mod ?c = (Suc h mod ?c + i) mod ?c" for i
    by (metis add_Suc_shift mod_add_left_eq)
  have "ring_contents xs h t = map (\<lambda>i. xs ! ((h + i) mod ?c)) (0 # map Suc [0..<?n])"
    unfolding ring_contents_def ring_count_take [OF assms] map_Suc_upt
    by (subst upt_conv_Cons) simp_all
  also have "\<dots> = xs ! h # map (\<lambda>i. xs ! ((Suc h mod ?c + i) mod ?c)) [0..<?n]"
    using assms by (simp add: shift comp_def del: add_Suc_right)
  finally show ?thesis
    by (simp add: ring_contents_def)
qed

lemma length_ring_contents [simp]: "length (ring_contents xs h t) = ring_count (length xs) h t"
  by (simp add: ring_contents_def)

section \<open>The capacity computation\<close>

lemma smear_step:
  fixes x n :: size_t
  assumes "\<And>i. bit x i \<longleftrightarrow> (\<exists>d<k. bit n (i + d))" "k + k = m"
  shows "bit (x OR drop_bit k x) i \<longleftrightarrow> (\<exists>d<m. bit n (i + d))"
proof -
  have "bit (x OR drop_bit k x) i \<longleftrightarrow> (\<exists>d<k. bit n (i + d)) \<or> (\<exists>d<k. bit n (i + (k + d)))"
    by (simp add: bit_or_iff bit_drop_bit_eq assms(1) ac_simps)
  also have "\<dots> \<longleftrightarrow> (\<exists>d<m. bit n (i + d))" (is "?L \<longleftrightarrow> ?R")
  proof
    assume ?L
    with assms(2) show ?R by (metis add_less_cancel_left trans_less_add1)
  next
    assume ?R
    then obtain d where d: "d < m" "bit n (i + d)" by blast
    show ?L
    proof (cases "d < k")
      case False
      with d assms(2) have "d - k < k \<and> bit n (i + (k + (d - k)))" by simp
      then show ?thesis by blast
    qed (use d in blast)
  qed
  finally show ?thesis .
qed

definition smear :: "size_t \<Rightarrow> size_t" where
  "smear n =
    (let n = n OR drop_bit 1 n; n = n OR drop_bit 2 n; n = n OR drop_bit 4 n;
         n = n OR drop_bit 8 n; n = n OR drop_bit 16 n; n = n OR drop_bit 32 n
     in n)"

lemma bit_smear: "bit (smear n) i \<longleftrightarrow> (\<exists>d<64. bit n (i + d))"
proof -
  define x1 x2 x4 x8 x16 where "x1 = n OR drop_bit 1 n" and "x2 = x1 OR drop_bit 2 x1"
    and "x4 = x2 OR drop_bit 4 x2" and "x8 = x4 OR drop_bit 8 x4" and "x16 = x8 OR drop_bit 16 x8"
  note defs = this
  have s1: "\<And>i. bit n i \<longleftrightarrow> (\<exists>d<1. bit n (i + d))" by simp
  have s2: "\<And>i. bit x1 i \<longleftrightarrow> (\<exists>d<2. bit n (i + d))"
    unfolding defs(1) by (rule smear_step [OF s1]) simp
  have s4: "\<And>i. bit x2 i \<longleftrightarrow> (\<exists>d<4. bit n (i + d))"
    unfolding defs(2) by (rule smear_step [OF s2]) simp
  have s8: "\<And>i. bit x4 i \<longleftrightarrow> (\<exists>d<8. bit n (i + d))"
    unfolding defs(3) by (rule smear_step [OF s4]) simp
  have s16: "\<And>i. bit x8 i \<longleftrightarrow> (\<exists>d<16. bit n (i + d))"
    unfolding defs(4) by (rule smear_step [OF s8]) simp
  have s32: "\<And>i. bit x16 i \<longleftrightarrow> (\<exists>d<32. bit n (i + d))"
    unfolding defs(5) by (rule smear_step [OF s16]) simp
  have "bit (x16 OR drop_bit 32 x16) i \<longleftrightarrow> (\<exists>d<64. bit n (i + d))"
    by (rule smear_step [OF s32]) simp
  then show ?thesis
    by (simp only: smear_def Let_def defs)
qed

lemma smear_mask:
  assumes "2 ^ k \<le> unat n" "unat n < 2 ^ Suc k"
  shows "smear n = mask (Suc k)"
proof (rule bit_word_eqI)
  fix i assume "i < LENGTH(64)"
  have bit_unat: "bit n j \<longleftrightarrow> odd (unat n div 2 ^ j)" for j
    by (metis bit_iff_odd bit_unsigned_iff possible_bit_nat)
  have high: "\<not> bit n j" if "Suc k \<le> j" for j
  proof -
    have "unat n < 2 ^ j"
      using assms(2) that by (meson less_le_trans one_le_numeral power_increasing)
    then show ?thesis by (simp add: bit_unat)
  qed
  have "unat n div 2 ^ k = 1"
    using assms by (simp add: div_nat_eqI)
  then have top: "bit n k" by (simp add: bit_unat)
  show "bit (smear n) i \<longleftrightarrow> bit (mask (Suc k) :: size_t) i"
  proof (cases "i \<le> k")
    case True
    have "k < 64" using top bit_imp_le_length [of n k] by simp
    with True top have "\<exists>d<64. bit n (i + d)" by (intro exI [of _ "k - i"]) simp
    with True \<open>i < LENGTH(64)\<close> show ?thesis by (simp add: bit_smear bit_mask_iff)
  next
    case False
    with high show ?thesis by (simp add: bit_smear bit_mask_iff)
  qed
qed

lemma nextPowerOfTwo_smear: "n \<noteq> 0 \<Longrightarrow> nextPowerOfTwo n = smear (n - 1) + 1"
  by (simp only: nextPowerOfTwo_def smear_def Let_def if_False)

lemma bit_length_exists:
  fixes m :: nat
  assumes "0 < m"
  obtains k where "2 ^ k \<le> m" "m < 2 ^ Suc k"
  using ex_power_ivl1 [of 2 m] assms by auto

lemma nextPowerOfTwo_bracket:
  assumes "1 < unat n" "2 ^ k < unat n" "unat n \<le> 2 ^ Suc k"
  shows "nextPowerOfTwo n = 2 ^ Suc k"
proof -
  have n: "n \<noteq> 0" "unat (n - 1) = unat n - 1"
    using assms(1) by (auto simp: unat_minus_1)
  have "smear (n - 1) = mask (Suc k)"
    using assms by (intro smear_mask) (auto simp: n)
  then show ?thesis
    by (simp add: nextPowerOfTwo_smear n(1) mask_eq_decr_exp)
qed

lemma nextPowerOfTwo_small: "nextPowerOfTwo 0 = 1" "nextPowerOfTwo 1 = 1"
  by (simp_all add: nextPowerOfTwo_def Let_def)

lemma nextPowerOfTwo_cases:
  assumes "unat n \<le> 2 ^ 63"
  obtains k where "k < 64" "nextPowerOfTwo n = 2 ^ k" "unat n \<le> 2 ^ k" "k = 0 \<or> 2 ^ (k - 1) < unat n"
proof (cases "unat n \<le> 1")
  case True
  then have "n = 0 \<or> n = 1"
    by (metis le_less less_one unat_1 unat_eq_zero word_unat_eq_iff)
  then show thesis
    using that [of 0] by (auto simp: nextPowerOfTwo_small)
next
  case False
  then obtain k where k: "2 ^ k \<le> unat n - 1" "unat n - 1 < 2 ^ Suc k"
    using bit_length_exists [of "unat n - 1"] by auto
  with False have b: "2 ^ k < unat n" "unat n \<le> 2 ^ Suc k" by auto
  have "(2::nat) ^ k < 2 ^ 63"
    using b(1) assms by linarith
  then have "k < 63" by (rule power_less_imp_less_exp [rotated]) simp
  then show thesis
    using that [of "Suc k"] nextPowerOfTwo_bracket [of n k] False b by auto
qed

section \<open>Invariant preservation and the interface\<close>

lemma queue_inv_newQueue:
  assumes "unat n \<le> 2 ^ 63"
  shows "queue_inv (newQueue d n name)"
proof -
  obtain k where k: "k < 64" "nextPowerOfTwo n = 2 ^ k"
    using nextPowerOfTwo_cases [OF assms] by metis
  moreover have "unat ((2::size_t) ^ k) = 2 ^ k"
    using k(1) by (simp add: unat_pow2)
  ultimately show ?thesis
    unfolding queue_inv_def newQueue_def
    by (intro exI [of _ k]) (simp add: mask_eq_decr_exp)
qed

lemma contents_newQueue [simp]: "contents (newQueue d n name) = []"
  by (simp add: contents_def newQueue_def ring_contents_def ring_count_def)

lemma queue_invE:
  assumes "queue_inv q"
  obtains k where "k < 64" "q_capacity q = 2 ^ k" "q_mask q = mask k" "length (q_messages q) = 2 ^ k"
    "unat (q_head q) < length (q_messages q)" "unat (q_tail q) < length (q_messages q)"
    "unat ((q_tail q + 1) AND q_mask q) = Suc (unat (q_tail q)) mod length (q_messages q)"
    "unat ((q_head q + 1) AND q_mask q) = Suc (unat (q_head q)) mod length (q_messages q)"
    "unat (queue_size q) = ring_count (length (q_messages q)) (unat (q_head q)) (unat (q_tail q))"
proof -
  obtain k where k: "k < 64" "q_capacity q = 2 ^ k" "q_mask q = mask k" "length (q_messages q) = 2 ^ k"
      "unat (q_head q) < 2 ^ k" "unat (q_tail q) < 2 ^ k"
    using assms by (auto simp: queue_inv_def)
  show thesis
  proof (rule that [of k])
    show "unat (queue_size q) = ring_count (length (q_messages q)) (unat (q_head q)) (unat (q_tail q))"
      using k by (simp add: queue_size_def ring_count_def unat_diff_and_mask)
  qed (use k in \<open>simp_all add: unat_Suc_and_mask\<close>)
qed

lemma length_contents:
  assumes "queue_inv q"
  shows "length (contents q) = unat (queue_size q)" "length (contents q) \<le> usable q"
    "usable q = unat (q_capacity q) - 1"
proof -
  from assms obtain k where k: "k < 64" "q_capacity q = 2 ^ k" "length (q_messages q) = 2 ^ k"
      "unat (queue_size q) = ring_count (length (q_messages q)) (unat (q_head q)) (unat (q_tail q))"
    by (elim queue_invE)
  from k show "length (contents q) = unat (queue_size q)" by (simp add: contents_def)
  have "ring_count (length (q_messages q)) (unat (q_head q)) (unat (q_tail q)) < length (q_messages q)"
    using k(3) by (intro ring_count_less) simp
  then show "length (contents q) \<le> usable q" by (simp add: contents_def usable_def)
  show "usable q = unat (q_capacity q) - 1"
    using k by (simp add: usable_def unat_pow2)
qed

lemma push_laws:
  assumes inv: "queue_inv q"
  shows "queue_inv (snd (push x q))"
    and "usable (snd (push x q)) = usable q"
    and "isShutdown (snd (push x q)) = isShutdown q"
    and "fst (push x q) \<longleftrightarrow> \<not> isShutdown q \<and> length (contents q) < usable q"
    and "contents (snd (push x q)) = (if fst (push x q) then contents q @ [x] else contents q)"
proof -
  from inv obtain k where k: "k < 64" "q_capacity q = 2 ^ k" "q_mask q = mask k" "length (q_messages q) = 2 ^ k"
      "unat (q_head q) < length (q_messages q)" "unat (q_tail q) < length (q_messages q)"
      "unat ((q_tail q + 1) AND q_mask q) = Suc (unat (q_tail q)) mod length (q_messages q)"
    by (elim queue_invE)
  let ?c = "length (q_messages q)" and ?h = "unat (q_head q)" and ?t = "unat (q_tail q)"
  have full: "(q_tail q + 1) AND q_mask q = q_head q \<longleftrightarrow> Suc ?t mod ?c = ?h"
    using k(7) by (metis word_unat_eq_iff)
  have cnt: "Suc ?t mod ?c = ?h \<longleftrightarrow> length (contents q) = usable q"
    using k ring_full_iff [of ?h ?c ?t] by (simp add: contents_def usable_def)
  have "ring_count ?c ?h ?t < ?c" using k(5) by (intro ring_count_less) linarith
  then have le: "length (contents q) \<le> usable q" by (simp add: contents_def usable_def)
  show "queue_inv (snd (push x q))"
    using inv k by (auto simp: push_def Let_def queue_inv_def)
  show "usable (snd (push x q)) = usable q" "isShutdown (snd (push x q)) = isShutdown q"
    by (simp_all add: push_def Let_def usable_def isShutdown_def)
  show "fst (push x q) \<longleftrightarrow> \<not> isShutdown q \<and> length (contents q) < usable q"
    using le cnt full by (auto simp: push_def Let_def isShutdown_def)
  show "contents (snd (push x q)) = (if fst (push x q) then contents q @ [x] else contents q)"
    using k full ring_contents_put [of ?h "q_messages q" ?t x]
    by (auto simp: push_def Let_def contents_def)
qed

lemma tryPop_laws:
  assumes inv: "queue_inv q"
  shows "queue_inv (snd (snd (tryPop d q)))"
    and "usable (snd (snd (tryPop d q))) = usable q"
    and "isShutdown (snd (snd (tryPop d q))) = isShutdown q"
    and "fst (tryPop d q) \<longleftrightarrow> \<not> isShutdown q \<and> contents q \<noteq> []"
    and "contents q = (if fst (tryPop d q) then [fst (snd (tryPop d q))] else []) @ contents (snd (snd (tryPop d q)))"
proof -
  from inv obtain k where k: "k < 64" "q_capacity q = 2 ^ k" "q_mask q = mask k" "length (q_messages q) = 2 ^ k"
      "unat (q_head q) < length (q_messages q)" "unat (q_tail q) < length (q_messages q)"
      "unat ((q_head q + 1) AND q_mask q) = Suc (unat (q_head q)) mod length (q_messages q)"
    by (elim queue_invE)
  let ?c = "length (q_messages q)" and ?h = "unat (q_head q)" and ?t = "unat (q_tail q)"
  have empty: "contents q = [] \<longleftrightarrow> q_head q = q_tail q"
    using k ring_count_0_iff [of ?h ?c ?t]
    by (metis contents_def length_0_conv length_ring_contents word_unat_eq_iff)
  show "queue_inv (snd (snd (tryPop d q)))"
    using inv k by (auto simp: tryPop_def Let_def queue_inv_def)
  show "usable (snd (snd (tryPop d q))) = usable q" "isShutdown (snd (snd (tryPop d q))) = isShutdown q"
    by (simp_all add: tryPop_def Let_def usable_def isShutdown_def)
  show "fst (tryPop d q) \<longleftrightarrow> \<not> isShutdown q \<and> contents q \<noteq> []"
    using empty by (auto simp: tryPop_def Let_def isShutdown_def)
  show "contents q = (if fst (tryPop d q) then [fst (snd (tryPop d q))] else []) @ contents (snd (snd (tryPop d q)))"
    using k ring_contents_take [of ?h "q_messages q" ?t]
    by (auto simp: tryPop_def Let_def contents_def word_unat_eq_iff)
qed

interpretation lq: bounded_fifo queue_inv contents usable isShutdown push "tryPop d" for d
  by unfold_locales (rule push_laws tryPop_laws length_contents(2); assumption)+

section \<open>Properties of the queue\<close>

lemma counters_run_ops:
  assumes "run_ops push (tryPop d) ops q = (acc, del, q')"
  shows "q_push_count q' = q_push_count q + of_nat (length acc)
    \<and> q_pop_count q' = q_pop_count q + of_nat (length del)"
  using assms
proof (induction ops arbitrary: q acc del)
  case (Cons op ops)
  show ?case
  proof (cases op)
    case (Put x)
    with Cons.prems Cons.IH [of "snd (push x q)"] show ?thesis
      by (auto simp: push_def Let_def split: prod.splits if_splits)
  next
    case Take
    with Cons.prems Cons.IH [of "snd (snd (tryPop d q))"] show ?thesis
      by (auto simp: tryPop_def Let_def split: prod.splits if_splits)
  qed
qed simp

text \<open>C3: Whatever interleaving of \<open>push\<close> and \<open>tryPop\<close> calls is made on a freshly constructed
  queue, the delivered messages followed by the messages still stored are exactly the
  accepted messages in the order of acceptance (no loss, no duplication, no reordering),
  never more than capacity - 1 messages are stored, and \<open>size()\<close> and the two counters report it.\<close>

theorem queue_fifo:
  assumes "unat n \<le> 2 ^ 63"
    and "run_ops push (tryPop d) ops (newQueue d n name) = (acc, del, q')"
  shows "acc = del @ contents q'
    \<and> unat (queue_size q') = length acc - length del
    \<and> length acc - length del \<le> unat (nextPowerOfTwo n) - 1
    \<and> getTotalPushed q' = of_nat (length acc)
    \<and> getTotalPopped q' = of_nat (length del)"
proof -
  let ?q = "newQueue d n name"
  have inv: "queue_inv ?q" by (rule queue_inv_newQueue) (rule assms(1))
  have r: "queue_inv q'" "usable q' = usable ?q" "contents ?q @ acc = del @ contents q'"
    using lq.run_ops_fifo [OF inv assms(2)] by auto
  then have fifo: "acc = del @ contents q'" by simp
  moreover have "unat (queue_size q') = length acc - length del"
    using length_contents(1) [OF r(1)] by (simp add: fifo)
  moreover have "length acc - length del \<le> unat (nextPowerOfTwo n) - 1"
    using length_contents(2) [OF r(1)] length_contents(3) [OF inv] r(2) by (simp add: fifo newQueue_def)
  moreover have "getTotalPushed q' = of_nat (length acc) \<and> getTotalPopped q' = of_nat (length del)"
    using counters_run_ops [OF assms(2)] by (simp add: getTotalPushed_def getTotalPopped_def newQueue_def)
  ultimately show ?thesis by blast
qed

lemma queue_fifo_witness:
  "(let (acc, del, q') = run_ops push (tryPop 0) [Put 7, Put 8, Put (9::nat), Put 1, Take, Put 2, Take] (newQueue 0 4 ''q'')
    in acc = del @ contents q' \<and> acc = [7, 8, 9, 2])"
proof -
  let ?ops = "[Put 7, Put 8, Put (9::nat), Put 1, Take, Put 2, Take]"
  obtain acc del q' where r: "run_ops push (tryPop 0) ?ops (newQueue 0 4 ''q'') = (acc, del, q')"
    by (cases "run_ops push (tryPop 0) ?ops (newQueue 0 4 ''q'')")
  have "acc = fst (run_ops push (tryPop 0) ?ops (newQueue 0 4 ''q''))" by (simp only: r fst_conv)
  also have "\<dots> = [7, 8, 9, 2]" by code_simp
  finally show ?thesis
    using queue_fifo [OF _ r] by (simp only: r) simp
qed

text \<open>C28: For every requested size up to 2^63 the capacity computation returns the least power of
  two that is at least the requested size; larger requests wrap around to capacity 0.\<close>

theorem nextPowerOfTwo_least:
  "if unat n \<le> 2 ^ 63
   then \<exists>k. unat (nextPowerOfTwo n) = 2 ^ k \<and> unat n \<le> 2 ^ k \<and> (\<forall>j < k. 2 ^ j < unat n)
   else nextPowerOfTwo n = 0"
proof (cases "unat n \<le> 2 ^ 63")
  case True
  then obtain k where k: "k < 64" "nextPowerOfTwo n = 2 ^ k" "unat n \<le> 2 ^ k" "k = 0 \<or> 2 ^ (k - 1) < unat n"
    by (rule nextPowerOfTwo_cases)
  have "2 ^ j < unat n" if "j < k" for j
  proof -
    have "(2::nat) ^ j \<le> 2 ^ (k - 1)" using that by (intro power_increasing) auto
    with k(4) that show ?thesis by linarith
  qed
  with k True show ?thesis
    by (auto simp: unat_pow2 intro!: exI [of _ k])
next
  case False
  have "unat n \<le> 2 ^ Suc 63" using unsigned_less [of n, where 'a = nat] by simp
  with False have "nextPowerOfTwo n = 2 ^ Suc 63" by (intro nextPowerOfTwo_bracket) auto
  also have "\<dots> = 0" by simp
  finally show ?thesis using False by simp
qed

lemma nextPowerOfTwo_least_witness:
  "\<exists>k. unat (nextPowerOfTwo 2047) = 2 ^ k \<and> unat (2047::size_t) \<le> 2 ^ k \<and> (\<forall>j < k. 2 ^ j < unat (2047::size_t))"
  using nextPowerOfTwo_least [of 2047] by simp

end
