(* ===== verification/Spsc_Interleaving.thy ===== *)
theory Spsc_Interleaving
  imports Lockfree_Queue
begin

text \<open>
  The queue of include/utils/lockfree_queue.h under concurrency: \<open>push\<close> and \<open>tryPop\<close> are split
  into their atomic loads and stores, any number of producer threads and one consumer thread
  interleave, and a third thread may call \<open>shutdown\<close> at any moment. Each step is one access to
  a shared variable; accesses are sequentially consistent. The history variables
  record the messages whose tail store, respectively head store, has taken place.
\<close>

section \<open>Atomic steps of push and tryPop\<close>

datatype 'a producer_pc =
    P_Idle
  | P_LoadTail 'a
  | P_LoadHead 'a size_t
  | P_CountDrop
  | P_Write 'a size_t
  | P_StoreTail 'a size_t
  | P_CountPush

datatype 'a consumer_pc =
    C_Idle
  | C_LoadHead
  | C_LoadTail size_t
  | C_Read size_t
  | C_StoreHead size_t 'a
  | C_CountPop

record 'a conc =
  c_queue :: "'a lfq"
  c_prods :: "'a producer_pc list"
  c_cons :: "'a consumer_pc"
  c_accepted :: "'a list"
  c_delivered :: "'a list"

text \<open>One atomic step of a producer; an idle producer starts \<open>push(v)\<close>.\<close>

fun producer_step :: "'a \<Rightarrow> 'a producer_pc \<Rightarrow> 'a lfq \<Rightarrow> 'a producer_pc \<times> 'a lfq" where
  "producer_step v P_Idle q = ((if q_shutdown q then P_Idle else P_LoadTail v), q)"
| "producer_step _ (P_LoadTail x) q = (P_LoadHead x (q_tail q), q)"
| "producer_step _ (P_LoadHead x t) q =
    ((if (t + 1) AND q_mask q = q_head q then P_CountDrop else P_Write x t), q)"
| "producer_step _ P_CountDrop q = (P_Idle, q\<lparr>q_drop_count := q_drop_count q + 1\<rparr>)"
| "producer_step _ (P_Write x t) q = (P_StoreTail x t, q\<lparr>q_messages := (q_messages q)[unat t := x]\<rparr>)"
| "producer_step _ (P_StoreTail x t) q = (P_CountPush, q\<lparr>q_tail := (t + 1) AND q_mask q\<rparr>)"
| "producer_step _ P_CountPush q = (P_Idle, q\<lparr>q_push_count := q_push_count q + 1\<rparr>)"

fun consumer_step :: "'a consumer_pc \<Rightarrow> 'a lfq \<Rightarrow> 'a consumer_pc \<times> 'a lfq" where
  "consumer_step C_Idle q = ((if q_shutdown q then C_Idle else C_LoadHead), q)"
| "consumer_step C_LoadHead q = (C_LoadTail (q_head q), q)"
| "consumer_step (C_LoadTail h) q = ((if h = q_tail q then C_Idle else C_Read h), q)"
| "consumer_step (C_Read h) q = (C_StoreHead h (q_messages q ! unat h), q)"
| "consumer_step (C_StoreHead h x) q = (C_CountPop, q\<lparr>q_head := (h + 1) AND q_mask q\<rparr>)"
| "consumer_step C_CountPop q = (C_Idle, q\<lparr>q_pop_count := q_pop_count q + 1\<rparr>)"

definition accepts :: "'a producer_pc \<Rightarrow> 'a list" where
  "accepts p = (case p of P_StoreTail x t \<Rightarrow> [x] | _ \<Rightarrow> [])"

definition delivers :: "'a consumer_pc \<Rightarrow> 'a list" where
  "delivers c = (case c of C_StoreHead h x \<Rightarrow> [x] | _ \<Rightarrow> [])"

datatype 'a action = Producer nat 'a | Consumer | Shutdown

text \<open>One scheduled atomic step; an action of a thread that does not exist changes nothing.\<close>

fun conc_step :: "'a action \<Rightarrow> 'a conc \<Rightarrow> 'a conc" where
  "conc_step (Producer i v) s =
    (if i < length (c_prods s) then
       let p = c_prods s ! i; (p', q') = producer_step v p (c_queue s)
       in s\<lparr>c_queue := q', c_prods := (c_prods s)[i := p'], c_accepted := c_accepted s @ accepts p\<rparr>
     else s)"
| "conc_step Consumer s =
    (let c = c_cons s; (c', q') = consumer_step c (c_queue s)
     in s\<lparr>c_queue := q', c_cons := c', c_delivered := c_delivered s @ delivers c\<rparr>)"
| "conc_step Shutdown s = s\<lparr>c_queue := shutdown_queue (c_queue s)\<rparr>"

definition conc_init :: "nat \<Rightarrow> 'a lfq \<Rightarrow> 'a conc" where
  "conc_init producers q =
    \<lparr> c_queue = q, c_prods = replicate producers P_Idle, c_cons = C_Idle, c_accepted = [], c_delivered = [] \<rparr>"

inductive conc_reach :: "'a conc \<Rightarrow> 'a conc \<Rightarrow> bool" for s0 where
  init: "conc_reach s0 s0"
| step: "conc_reach s0 s \<Longrightarrow> conc_reach s0 (conc_step a s)"

section \<open>Single producer, single consumer\<close>

fun producer_inv :: "'a producer_pc \<Rightarrow> 'a lfq \<Rightarrow> bool" where
  "producer_inv (P_LoadHead x t) q \<longleftrightarrow> t = q_tail q"
| "producer_inv (P_Write x t) q \<longleftrightarrow> t = q_tail q \<and> (q_tail q + 1) AND q_mask q \<noteq> q_head q"
| "producer_inv (P_StoreTail x t) q \<longleftrightarrow>
     t = q_tail q \<and> (q_tail q + 1) AND q_mask q \<noteq> q_head q \<and> q_messages q ! unat t = x"
| "producer_inv _ q \<longleftrightarrow> True"

fun consumer_inv :: "'a consumer_pc \<Rightarrow> 'a lfq \<Rightarrow> bool" where
  "consumer_inv (C_LoadTail h) q \<longleftrightarrow> h = q_head q"
| "consumer_inv (C_Read h) q \<longleftrightarrow> h = q_head q \<and> q_head q \<noteq> q_tail q"
| "consumer_inv (C_StoreHead h x) q \<longleftrightarrow>
     h = q_head q \<and> q_head q \<noteq> q_tail q \<and> x = q_messages q ! unat h"
| "consumer_inv _ q \<longleftrightarrow> True"

definition spsc_inv :: "'a conc \<Rightarrow> bool" where
  "spsc_inv s \<longleftrightarrow>
     (\<exists>p. c_prods s = [p] \<and> queue_inv (c_queue s) \<and> producer_inv p (c_queue s)
        \<and> consumer_inv (c_cons s) (c_queue s)
        \<and> c_accepted s = c_delivered s @ contents (c_queue s))"

lemma ring_contents_write_tail:
  assumes "h < length xs" "t < length xs"
  shows "ring_contents (xs[t := v]) h t = ring_contents xs h t"
  unfolding ring_contents_def length_list_update
  by (rule map_nth_upd_irrelevant) (use assms in \<open>simp add: ring_index_neq_tail\<close>)

lemma queue_inv_cong:
  "q_capacity q' = q_capacity q \<Longrightarrow> q_mask q' = q_mask q \<Longrightarrow> length (q_messages q') = length (q_messages q)
    \<Longrightarrow> q_head q' = q_head q \<Longrightarrow> q_tail q' = q_tail q \<Longrightarrow> queue_inv q' = queue_inv q"
  by (simp add: queue_inv_def)

lemma succ_inj:
  assumes "queue_inv q" "(q_tail q + 1) AND q_mask q = (q_head q + 1) AND q_mask q"
  shows "q_tail q = q_head q"
proof -
  from assms(1) obtain k where k: "unat (q_head q) < length (q_messages q)" "unat (q_tail q) < length (q_messages q)"
    "unat ((q_tail q + 1) AND q_mask q) = Suc (unat (q_tail q)) mod length (q_messages q)"
    "unat ((q_head q + 1) AND q_mask q) = Suc (unat (q_head q)) mod length (q_messages q)"
    by (elim queue_invE)
  have "Suc a mod c = Suc b mod c \<Longrightarrow> a < c \<Longrightarrow> b < c \<Longrightarrow> a = b" for a b c :: nat
    by (cases "Suc a = c"; cases "Suc b = c") auto
  with k assms(2) show ?thesis by (metis word_unat_eq_iff)
qed

lemma store_tail_contents:
  assumes "queue_inv q" "(q_tail q + 1) AND q_mask q \<noteq> q_head q"
  shows "queue_inv (q\<lparr>q_tail := (q_tail q + 1) AND q_mask q\<rparr>)"
    and "contents (q\<lparr>q_tail := (q_tail q + 1) AND q_mask q\<rparr>) = contents q @ [q_messages q ! unat (q_tail q)]"
proof -
  from assms(1) obtain k where k: "length (q_messages q) = 2 ^ k" "k < 64" "q_mask q = mask k" "q_capacity q = 2 ^ k"
    "unat (q_head q) < length (q_messages q)" "unat (q_tail q) < length (q_messages q)"
    "unat ((q_tail q + 1) AND q_mask q) = Suc (unat (q_tail q)) mod length (q_messages q)"
    by (elim queue_invE)
  show "queue_inv (q\<lparr>q_tail := (q_tail q + 1) AND q_mask q\<rparr>)"
    using k unfolding queue_inv_def by (intro exI [of _ k]) simp
  have "Suc (unat (q_tail q)) mod length (q_messages q) \<noteq> unat (q_head q)"
    using assms(2) k(7) by (metis word_unat_eq_iff)
  then show "contents (q\<lparr>q_tail := (q_tail q + 1) AND q_mask q\<rparr>) = contents q @ [q_messages q ! unat (q_tail q)]"
    using ring_contents_put [of "unat (q_head q)" "q_messages q" "unat (q_tail q)" "q_messages q ! unat (q_tail q)"] k(5-7)
    by (simp add: contents_def)
qed

lemma store_head_contents:
  assumes "queue_inv q" "q_head q \<noteq> q_tail q"
  shows "queue_inv (q\<lparr>q_head := (q_head q + 1) AND q_mask q\<rparr>)"
    and "contents q = q_messages q ! unat (q_head q) # contents (q\<lparr>q_head := (q_head q + 1) AND q_mask q\<rparr>)"
proof -
  from assms(1) obtain k where k: "length (q_messages q) = 2 ^ k" "k < 64" "q_mask q = mask k" "q_capacity q = 2 ^ k"
    "unat (q_head q) < length (q_messages q)" "unat (q_tail q) < length (q_messages q)"
    "unat ((q_head q + 1) AND q_mask q) = Suc (unat (q_head q)) mod length (q_messages q)"
    by (elim queue_invE)
  show "queue_inv (q\<lparr>q_head := (q_head q + 1) AND q_mask q\<rparr>)"
    using k unfolding queue_inv_def by (intro exI [of _ k]) simp
  show "contents q = q_messages q ! unat (q_head q) # contents (q\<lparr>q_head := (q_head q + 1) AND q_mask q\<rparr>)"
    using ring_contents_take [of "unat (q_head q)" "q_messages q" "unat (q_tail q)"] k(5-7) assms(2)
    by (simp add: contents_def word_unat_eq_iff)
qed

lemma write_tail_contents:
  assumes "queue_inv q"
  shows "queue_inv (q\<lparr>q_messages := (q_messages q)[unat (q_tail q) := x]\<rparr>)"
    and "contents (q\<lparr>q_messages := (q_messages q)[unat (q_tail q) := x]\<rparr>) = contents q"
    and "(q_messages q)[unat (q_tail q) := x] ! unat (q_tail q) = x"
  using assms by (auto simp: contents_def ring_contents_write_tail queue_inv_def elim!: queue_invE)

lemma counter_updates:
  "queue_inv (q\<lparr>q_drop_count := n\<rparr>) = queue_inv q" "contents (q\<lparr>q_drop_count := n\<rparr>) = contents q"
  "queue_inv (q\<lparr>q_push_count := n\<rparr>) = queue_inv q" "contents (q\<lparr>q_push_count := n\<rparr>) = contents q"
  "queue_inv (q\<lparr>q_pop_count := n\<rparr>) = queue_inv q" "contents (q\<lparr>q_pop_count := n\<rparr>) = contents q"
  "queue_inv (shutdown_queue q) = queue_inv q" "contents (shutdown_queue q) = contents q"
  by (simp_all add: queue_inv_def contents_def shutdown_queue_def)

lemma producer_step_spsc:
  assumes "queue_inv q" "producer_inv p q" "consumer_inv c q" "producer_step v p q = (p', q')"
  shows "queue_inv q' \<and> producer_inv p' q' \<and> consumer_inv c q' \<and> contents q' = contents q @ accepts p"
proof (cases p)
  case (P_Write x t)
  with assms show ?thesis
    by (cases c) (auto simp: accepts_def write_tail_contents word_unat_eq_iff)
next
  case (P_StoreTail x t)
  with assms store_tail_contents [of q] show ?thesis
    by (cases c) (auto simp: accepts_def)
qed (use assms in \<open>cases c; auto simp: accepts_def counter_updates\<close>)+

lemma consumer_step_spsc:
  assumes "queue_inv q" "producer_inv p q" "consumer_inv c q" "consumer_step c q = (c', q')"
  shows "queue_inv q' \<and> producer_inv p q' \<and> consumer_inv c' q' \<and> contents q = delivers c @ contents q'"
proof (cases c)
  case (C_StoreHead h x)
  with assms store_head_contents [of q] succ_inj [of q] show ?thesis
    by (cases p) (auto simp: delivers_def)
qed (use assms in \<open>cases p; auto simp: delivers_def counter_updates\<close>)+

lemma spsc_inv_step: "spsc_inv s \<Longrightarrow> spsc_inv (conc_step a s)"
proof (induction a s rule: conc_step.induct)
  case (1 i v s)
  then obtain p where p: "c_prods s = [p]" "queue_inv (c_queue s)" "producer_inv p (c_queue s)"
    "consumer_inv (c_cons s) (c_queue s)" "c_accepted s = c_delivered s @ contents (c_queue s)"
    by (auto simp: spsc_inv_def)
  obtain p' q' where st: "producer_step v p (c_queue s) = (p', q')" by (cases "producer_step v p (c_queue s)")
  from producer_step_spsc [OF p(2-4) st] p st show ?case
    by (auto simp: spsc_inv_def)
next
  case (2 s)
  then obtain p where p: "c_prods s = [p]" "queue_inv (c_queue s)" "producer_inv p (c_queue s)"
    "consumer_inv (c_cons s) (c_queue s)" "c_accepted s = c_delivered s @ contents (c_queue s)"
    by (auto simp: spsc_inv_def)
  obtain c' q' where st: "consumer_step (c_cons s) (c_queue s) = (c', q')" by (cases "consumer_step (c_cons s) (c_queue s)")
  from consumer_step_spsc [OF p(2-4) st] p st show ?case
    by (auto simp: spsc_inv_def)
next
  case (3 s)
  have "producer_inv p (shutdown_queue q) = producer_inv p q" "consumer_inv c (shutdown_queue q) = consumer_inv c q"
    for p c and q :: "'a lfq"
    by (cases p; simp add: shutdown_queue_def; fail) (cases c; simp add: shutdown_queue_def; fail)
  with 3 show ?case by (auto simp: spsc_inv_def counter_updates)
qed

text \<open>C4: With one producer thread and one consumer thread every interleaving of the atomic loads
  and stores of \<open>push\<close> and \<open>tryPop\<close>, with \<open>shutdown\<close> called at any moment, keeps the queue first-in-first-out: the messages whose
  push took effect are the delivered ones followed by the stored ones.\<close>

theorem spsc_linearizable:
  assumes "unat n \<le> 2 ^ 63" "conc_reach (conc_init 1 (newQueue d n name)) s"
  shows "c_accepted s = c_delivered s @ contents (c_queue s)
    \<and> length (contents (c_queue s)) \<le> unat (nextPowerOfTwo n) - 1 \<and> queue_inv (c_queue s)"
proof -
  have cap: "q_capacity (c_queue (conc_step a t)) = q_capacity (c_queue t)" for a and t :: "'a conc"
  proof (induction a t rule: conc_step.induct)
    case (1 i v s)
    then show ?case by (cases "c_prods s ! i") (auto simp: Let_def)
  next
    case (2 s)
    then show ?case by (cases "c_cons s") auto
  qed (simp add: shutdown_queue_def)
  have "spsc_inv s \<and> q_capacity (c_queue s) = nextPowerOfTwo n"
    using assms(2)
  proof (induction rule: conc_reach.induct)
    case init
    then show ?case
      using queue_inv_newQueue [OF assms(1), of d name] by (simp add: spsc_inv_def conc_init_def newQueue_def) (simp add: newQueue_def [symmetric])
  next
    case (step s a)
    then show ?case by (simp add: spsc_inv_step cap)
  qed
  then show ?thesis
    using length_contents(2,3) [of "c_queue s"] by (auto simp: spsc_inv_def)
qed

lemma conc_reach_fold: "conc_reach s0 s \<Longrightarrow> conc_reach s0 (fold conc_step as s)"
  by (induction as arbitrary: s) (auto intro: conc_reach.step)

lemma spsc_linearizable_witness:
  "let s = fold conc_step (replicate 6 (Producer 0 5) @ replicate 4 (Producer 0 (6::nat)) @ replicate 4 Consumer
             @ replicate 2 (Producer 0 0) @ [Shutdown] @ replicate 2 Consumer) (conc_init 1 (newQueue 0 4 ''q''))
   in c_accepted s = c_delivered s @ contents (c_queue s) \<and> c_delivered s = [5] \<and> contents (c_queue s) = [6]"
proof -
  define s where "s = fold conc_step (replicate 6 (Producer 0 5) @ replicate 4 (Producer 0 (6::nat)) @ replicate 4 Consumer
             @ replicate 2 (Producer 0 0) @ [Shutdown] @ replicate 2 Consumer) (conc_init 1 (newQueue 0 4 ''q''))"
  have "conc_reach (conc_init 1 (newQueue 0 4 ''q'')) s"
    unfolding s_def by (intro conc_reach_fold conc_reach.init)
  then have "c_accepted s = c_delivered s @ contents (c_queue s)"
    using spsc_linearizable [of 4 0 "''q''" s] by simp
  moreover have "c_delivered s = [5] \<and> contents (c_queue s) = [6]"
    unfolding s_def by code_simp
  ultimately show ?thesis by (simp only: s_def Let_def)
qed

text \<open>C29: With two producer threads the queue loses messages: two pushes on the 2048-slot queue can
  both report success while only one of the messages is stored and none has been delivered.\<close>

theorem two_producers_lose:
  "\<exists>s. conc_reach (conc_init 2 (newQueue d 2048 name)) s
      \<and> c_prods s = [P_Idle, P_Idle] \<and> c_accepted s = [b, a] \<and> c_delivered s = []
      \<and> q_push_count (c_queue s) = 2 \<and> contents (c_queue s) = [a]"
proof -
  have np: "nextPowerOfTwo 2048 = 2048" by code_simp
  let ?q = "newQueue d 2048 name"
  let ?sched = "replicate 3 (Producer 0 a) @ replicate 6 (Producer 1 b) @ replicate 3 (Producer 0 a)"
  have q: "q_head ?q = 0" "q_tail ?q = 0" "q_mask ?q = 2047" "q_push_count ?q = 0" "\<not> q_shutdown ?q"
    "length (q_messages ?q) = 2048"
    by (simp_all add: newQueue_def np)
  define s where "s = \<lparr>c_queue = ?q\<lparr>q_messages := (q_messages ?q)[0 := b, 0 := a], q_tail := 1, q_push_count := 2\<rparr>,
      c_prods = [P_Idle, P_Idle], c_cons = C_Idle, c_accepted = [b, a], c_delivered = []\<rparr>"
  have "fold conc_step ?sched (conc_init 2 ?q) = s"
    by (simp add: eval_nat_numeral conc_init_def accepts_def q s_def)
  then have "conc_reach (conc_init 2 ?q) s"
    by (metis conc_reach_fold conc_reach.init)
  moreover have "contents (c_queue s) = [a]"
    by (simp add: contents_def ring_contents_def ring_count_def q s_def)
  ultimately show ?thesis
    by (intro exI [of _ s]) (simp add: s_def)
qed

end
