(* ===== verification/Fix_Fields.thy ===== *)
theory Fix_Fields
  imports Gateway_Prelude
begin

text \<open>
  The protocol constants of include/protocol/fix_fields.h and src/protocol/fix_fields.cpp: field tags,
  message type strings, the enumeration \<open>FixMsgType\<close> with its conversions, and the
  helpers that format one field.
\<close>

definition FIX_SOH :: char where
  "FIX_SOH = CHR 0x01"

definition FIX_VERSION_44 :: string where
  "FIX_VERSION_44 = ''FIX.4.4''"

section \<open>Field tags\<close>

definition Tag_BeginString :: int where "Tag_BeginString = 8"
definition Tag_BodyLength :: int where "Tag_BodyLength = 9"
definition Tag_CheckSum :: int where "Tag_CheckSum = 10"
definition Tag_MsgType :: int where "Tag_MsgType = 35"
definition Tag_MsgSeqNum :: int where "Tag_MsgSeqNum = 34"
definition Tag_SenderCompID :: int where "Tag_SenderCompID = 49"
definition Tag_TargetCompID :: int where "Tag_TargetCompID = 56"
definition Tag_SendingTime :: int where "Tag_SendingTime = 52"
definition Tag_PossDupFlag :: int where "Tag_PossDupFlag = 43"
definition Tag_EncryptMethod :: int where "Tag_EncryptMethod = 98"
definition Tag_HeartBtInt :: int where "Tag_HeartBtInt = 108"
definition Tag_TestReqID :: int where "Tag_TestReqID = 112"
definition Tag_ResetSeqNumFlag :: int where "Tag_ResetSeqNumFlag = 141"
definition Tag_ClOrdID :: int where "Tag_ClOrdID = 11"
definition Tag_OrderID :: int where "Tag_OrderID = 37"
definition Tag_OrigClOrdID :: int where "Tag_OrigClOrdID = 41"
definition Tag_ExecID :: int where "Tag_ExecID = 17"
definition Tag_ExecType :: int where "Tag_ExecType = 150"
definition Tag_OrdStatus :: int where "Tag_OrdStatus = 39"
definition Tag_Symbol :: int where "Tag_Symbol = 55"
definition Tag_Side :: int where "Tag_Side = 54"
definition Tag_OrderQty :: int where "Tag_OrderQty = 38"
definition Tag_Price :: int where "Tag_Price = 44"
definition Tag_OrdType :: int where "Tag_OrdType = 40"
definition Tag_TimeInForce :: int where "Tag_TimeInForce = 59"
definition Tag_LastQty :: int where "Tag_LastQty = 32"
definition Tag_LastPx :: int where "Tag_LastPx = 31"
definition Tag_LeavesQty :: int where "Tag_LeavesQty = 151"
definition Tag_CumQty :: int where "Tag_CumQty = 14"
definition Tag_AvgPx :: int where "Tag_AvgPx = 6"
definition Tag_Text :: int where "Tag_Text = 58"
definition Tag_Account :: int where "Tag_Account = 1"
definition Tag_BeginSeqNo :: int where "Tag_BeginSeqNo = 7"
definition Tag_EndSeqNo :: int where "Tag_EndSeqNo = 16"
definition Tag_NewSeqNo :: int where "Tag_NewSeqNo = 36"
definition Tag_GapFillFlag :: int where "Tag_GapFillFlag = 123"
definition Tag_RefSeqNum :: int where "Tag_RefSeqNum = 45"
definition Tag_RefMsgType :: int where "Tag_RefMsgType = 372"

lemmas tag_defs =
  Tag_BeginString_def Tag_BodyLength_def Tag_CheckSum_def Tag_MsgType_def
  Tag_MsgSeqNum_def Tag_SenderCompID_def Tag_TargetCompID_def Tag_SendingTime_def
  Tag_PossDupFlag_def Tag_EncryptMethod_def
  Tag_HeartBtInt_def Tag_TestReqID_def Tag_ResetSeqNumFlag_def Tag_ClOrdID_def
  Tag_OrderID_def Tag_OrigClOrdID_def Tag_ExecID_def Tag_ExecType_def
  Tag_OrdStatus_def Tag_Symbol_def Tag_Side_def Tag_OrderQty_def
  Tag_Price_def Tag_OrdType_def Tag_TimeInForce_def Tag_LastQty_def
  Tag_LastPx_def Tag_LeavesQty_def Tag_CumQty_def Tag_AvgPx_def Tag_Text_def Tag_Account_def Tag_BeginSeqNo_def
  Tag_EndSeqNo_def Tag_NewSeqNo_def Tag_GapFillFlag_def Tag_RefSeqNum_def
  Tag_RefMsgType_def

section \<open>Message types\<close>

definition MsgTypes_Heartbeat :: string where "MsgTypes_Heartbeat = ''0''"
definition MsgTypes_TestRequest :: string where "MsgTypes_TestRequest = ''1''"
definition MsgTypes_ResendRequest :: string where "MsgTypes_ResendRequest = ''2''"
definition MsgTypes_Reject :: string where "MsgTypes_Reject = ''3''"
definition MsgTypes_SequenceReset :: string where "MsgTypes_SequenceReset = ''4''"
definition MsgTypes_Logout :: string where "MsgTypes_Logout = ''5''"
definition MsgTypes_ExecutionReport :: string where "MsgTypes_ExecutionReport = ''8''"
definition MsgTypes_OrderCancelReject :: string where "MsgTypes_OrderCancelReject = ''9''"
definition MsgTypes_Logon :: string where "MsgTypes_Logon = ''A''"
definition MsgTypes_NewOrderSingle :: string where "MsgTypes_NewOrderSingle = ''D''"
definition MsgTypes_OrderCancelRequest :: string where "MsgTypes_OrderCancelRequest = ''F''"
definition MsgTypes_OrderCancelReplaceRequest :: string where "MsgTypes_OrderCancelReplaceRequest = ''G''"
definition MsgTypes_OrderStatusRequest :: string where "MsgTypes_OrderStatusRequest = ''H''"
definition MsgTypes_MarketDataRequest :: string where "MsgTypes_MarketDataRequest = ''V''"
definition MsgTypes_MarketDataSnapshot :: string where "MsgTypes_MarketDataSnapshot = ''W''"
definition MsgTypes_MarketDataIncrementalRefresh :: string where "MsgTypes_MarketDataIncrementalRefresh = ''X''"
definition MsgTypes_MarketDataRequestReject :: string where "MsgTypes_MarketDataRequestReject = ''Y''"

lemmas msgtypes_defs =
  MsgTypes_Heartbeat_def MsgTypes_TestRequest_def MsgTypes_ResendRequest_def
  MsgTypes_Reject_def MsgTypes_SequenceReset_def MsgTypes_Logout_def MsgTypes_ExecutionReport_def
  MsgTypes_OrderCancelReject_def MsgTypes_Logon_def MsgTypes_NewOrderSingle_def
  MsgTypes_OrderCancelRequest_def MsgTypes_OrderCancelReplaceRequest_def MsgTypes_OrderStatusRequest_def
  MsgTypes_MarketDataRequest_def MsgTypes_MarketDataSnapshot_def MsgTypes_MarketDataIncrementalRefresh_def
  MsgTypes_MarketDataRequestReject_def

datatype FixMsgType =
    HEARTBEAT
  | TEST_REQUEST
  | RESEND_REQUEST
  | REJECT
  | SEQUENCE_RESET
  | LOGOUT
  | LOGON
  | EXECUTION_REPORT
  | ORDER_CANCEL_REJECT
  | NEW_ORDER_SINGLE
  | ORDER_CANCEL_REQUEST
  | ORDER_CANCEL_REPLACE_REQUEST
  | ORDER_STATUS_REQUEST
  | MARKET_DATA_REQUEST
  | MARKET_DATA_SNAPSHOT
  | MARKET_DATA_INCREMENTAL_REFRESH
  | MARKET_DATA_REQUEST_REJECT
  | UNKNOWN

fun FixMsgType_toString :: "FixMsgType \<Rightarrow> string" where
  "FixMsgType_toString HEARTBEAT = MsgTypes_Heartbeat"
| "FixMsgType_toString TEST_REQUEST = MsgTypes_TestRequest"
| "FixMsgType_toString RESEND_REQUEST = MsgTypes_ResendRequest"
| "FixMsgType_toString REJECT = MsgTypes_Reject"
| "FixMsgType_toString SEQUENCE_RESET = MsgTypes_SequenceReset"
| "FixMsgType_toString LOGOUT = MsgTypes_Logout"
| "FixMsgType_toString LOGON = MsgTypes_Logon"
| "FixMsgType_toString EXECUTION_REPORT = MsgTypes_ExecutionReport"
| "FixMsgType_toString ORDER_CANCEL_REJECT = MsgTypes_OrderCancelReject"
| "FixMsgType_toString NEW_ORDER_SINGLE = MsgTypes_NewOrderSingle"
| "FixMsgType_toString ORDER_CANCEL_REQUEST = MsgTypes_OrderCancelRequest"
| "FixMsgType_toString ORDER_CANCEL_REPLACE_REQUEST = MsgTypes_OrderCancelReplaceRequest"
| "FixMsgType_toString ORDER_STATUS_REQUEST = MsgTypes_OrderStatusRequest"
| "FixMsgType_toString MARKET_DATA_REQUEST = MsgTypes_MarketDataRequest"
| "FixMsgType_toString MARKET_DATA_SNAPSHOT = MsgTypes_MarketDataSnapshot"
| "FixMsgType_toString MARKET_DATA_INCREMENTAL_REFRESH = MsgTypes_MarketDataIncrementalRefresh"
| "FixMsgType_toString MARKET_DATA_REQUEST_REJECT = MsgTypes_MarketDataRequestReject"
| "FixMsgType_toString UNKNOWN = []"

text \<open>Reading position \<open>i\<close> of the C string of a \<open>std::string\<close>: the terminator follows the last character.\<close>

definition cstr_at :: "string \<Rightarrow> nat \<Rightarrow> char" where
  "cstr_at s i = (if i < length s then s ! i else CHR 0x00)"

definition single_char :: "string \<Rightarrow> char \<Rightarrow> bool" where
  "single_char s c \<longleftrightarrow> cstr_at s 0 = c \<and> cstr_at s 1 = CHR 0x00"

text \<open>\<open>None\<close> is the null pointer.\<close>

definition FixMsgType_fromString :: "string option \<Rightarrow> FixMsgType" where
  "FixMsgType_fromString msgTypeStr =
    (case msgTypeStr of
       None \<Rightarrow> UNKNOWN
     | Some s \<Rightarrow>
        if single_char s (CHR ''0'') then HEARTBEAT
        else if single_char s (CHR ''1'') then TEST_REQUEST
        else if single_char s (CHR ''2'') then RESEND_REQUEST
        else if single_char s (CHR ''3'') then REJECT
        else if single_char s (CHR ''4'') then SEQUENCE_RESET
        else if single_char s (CHR ''5'') then LOGOUT
        else if single_char s (CHR ''A'') then LOGON
        else if single_char s (CHR ''8'') then EXECUTION_REPORT
        else if single_char s (CHR ''9'') then ORDER_CANCEL_REJECT
        else if single_char s (CHR ''D'') then NEW_ORDER_SINGLE
        else if single_char s (CHR ''F'') then ORDER_CANCEL_REQUEST
        else if single_char s (CHR ''G'') then ORDER_CANCEL_REPLACE_REQUEST
        else if single_char s (CHR ''H'') then ORDER_STATUS_REQUEST
        else if single_char s (CHR ''V'') then MARKET_DATA_REQUEST
        else if single_char s (CHR ''W'') then MARKET_DATA_SNAPSHOT
        else if single_char s (CHR ''X'') then MARKET_DATA_INCREMENTAL_REFRESH
        else if single_char s (CHR ''Y'') then MARKET_DATA_REQUEST_REJECT
        else UNKNOWN)"

definition hasOptimizedParser :: "FixMsgType \<Rightarrow> bool" where
  "hasOptimizedParser msgType \<longleftrightarrow> msgType = EXECUTION_REPORT \<or> msgType = HEARTBEAT"

section \<open>Formatting one field\<close>

definition formatFixField :: "int \<Rightarrow> string \<Rightarrow> string" where
  "formatFixField tag value = to_string_int tag @ ''='' @ value @ [FIX_SOH]"

definition formatFixField_int :: "int \<Rightarrow> int \<Rightarrow> string" where
  "formatFixField_int tag value = to_string_int tag @ ''='' @ to_string_int value @ [FIX_SOH]"

section \<open>Properties\<close>

text \<open>The message type enumeration and its wire strings correspond: converting any type to its
  string and back gives the same type, and a string converts to a known type only if its C string is that type's wire string.\<close>

lemma FixMsgType_roundtrip:
  "FixMsgType_fromString (Some (FixMsgType_toString t)) = t
   \<and> (FixMsgType_fromString (Some s) = UNKNOWN
      \<or> takeWhile (\<lambda>c. c \<noteq> CHR 0x00) s = FixMsgType_toString (FixMsgType_fromString (Some s)))"
proof
  show "FixMsgType_fromString (Some (FixMsgType_toString t)) = t"
    by (cases t) (simp_all add: msgtypes_defs FixMsgType_fromString_def single_char_def cstr_at_def)
  have "single_char s c \<Longrightarrow> c \<noteq> CHR 0x00 \<Longrightarrow> takeWhile (\<lambda>c. c \<noteq> CHR 0x00) s = [c]" for c
    by (cases s; cases "tl s") (auto simp: single_char_def cstr_at_def split: if_splits)
  then show "FixMsgType_fromString (Some s) = UNKNOWN
      \<or> takeWhile (\<lambda>c. c \<noteq> CHR 0x00) s = FixMsgType_toString (FixMsgType_fromString (Some s))"
    by (simp add: FixMsgType_fromString_def msgtypes_defs)
qed

end
