(* ===== verification/Std_Text.thy ===== *)
theory Std_Text
  imports Gateway_Prelude
begin

text \<open>
  The parts of the C++ standard library's string handling that the sources use:
  \<open>std::stoi\<close>, searching for a character, and zero-padded decimal output; and
  \<open>FastStringConversion\<close> of src/utils/fast_string_conversion.cpp, the project's replacement for
  \<open>std::to_string\<close>. An \<open>int\<close> is an integer within [INT_MIN, INT_MAX].
\<close>

section \<open>Integers of type int\<close>

definition INT_MAX :: int where "INT_MAX = 2147483647"
definition INT_MIN :: int where "INT_MIN = -2147483648"

definition in_int :: "int \<Rightarrow> bool" where
  "in_int i \<longleftrightarrow> INT_MIN \<le> i \<and> i \<le> INT_MAX"

section \<open>std::stoi\<close>

datatype std_exception = Invalid_argument | Out_of_range

definition is_digit :: "char \<Rightarrow> bool" where
  "is_digit c \<longleftrightarrow> 48 \<le> (of_char c :: nat) \<and> (of_char c :: nat) \<le> 57"

definition is_space :: "char \<Rightarrow> bool" where
  "is_space c \<longleftrightarrow> (of_char c :: nat) = 32 \<or> (9 \<le> (of_char c :: nat) \<and> (of_char c :: nat) \<le> 13)"

definition digit_value :: "char \<Rightarrow> nat" where
  "digit_value c = (of_char c :: nat) - 48"

definition digits_value :: "string \<Rightarrow> nat" where
  "digits_value ds = foldl (\<lambda>v c. v * 10 + digit_value c) 0 ds"

text \<open>Leading white space and one sign are skipped, then the longest run of digits is read.\<close>

definition stoi :: "string \<Rightarrow> std_exception + int" where
  "stoi s =
    (let s1 = dropWhile is_space s;
         neg = (s1 \<noteq> [] \<and> hd s1 = CHR ''-'');
         s2 = (if s1 \<noteq> [] \<and> (hd s1 = CHR ''-'' \<or> hd s1 = CHR ''+'') then tl s1 else s1);
         ds = takeWhile is_digit s2
     in if ds = [] then Inl Invalid_argument
        else let v = (if neg then - int (digits_value ds) else int (digits_value ds))
             in if in_int v then Inr v else Inl Out_of_range)"

section \<open>Searching\<close>

primrec index_of :: "char \<Rightarrow> string \<Rightarrow> nat option" where
  "index_of c [] = None"
| "index_of c (x # xs) = (if x = c then Some 0 else map_option Suc (index_of c xs))"

text \<open>\<open>s.find(c, pos)\<close>; \<open>None\<close> is \<open>npos\<close>.\<close>

definition find_char :: "char \<Rightarrow> string \<Rightarrow> nat \<Rightarrow> nat option" where
  "find_char c s pos = map_option ((+) pos) (index_of c (drop pos s))"

section \<open>Zero-padded numbers\<close>

text \<open>\<open>std::setfill('0') << std::setw(w)\<close> applied to a non-negative number.\<close>

definition padded :: "nat \<Rightarrow> nat \<Rightarrow> string" where
  "padded w n = replicate (w - length (to_string_nat n)) (CHR ''0'') @ to_string_nat n"

section \<open>FastStringConversion\<close>

text \<open>The digit extraction loop, writing from right to left in front of what is already written.\<close>

fun extract_digits :: "nat \<Rightarrow> string \<Rightarrow> string" where
  "extract_digits value acc = (if value > 0 then extract_digits (value div 10) (digit_char (value mod 10) # acc) else acc)"

declare extract_digits.simps [simp del]

definition integer_to_string_internal :: "int \<Rightarrow> int \<Rightarrow> string" where
  "integer_to_string_internal lo value =
    (if value = 0 then ''0''
     else if value < 0
       then if value = lo then to_string_int value
            else CHR ''-'' # extract_digits (nat (- value)) []
       else extract_digits (nat value) [])"

definition int_to_string :: "int \<Rightarrow> string" where
  "int_to_string value = integer_to_string_internal INT_MIN value"

definition long_to_string :: "int \<Rightarrow> string" where
  "long_to_string value = integer_to_string_internal (- (2 ^ 63)) value"

definition uint_to_string :: "nat \<Rightarrow> string" where
  "uint_to_string value = integer_to_string_internal 0 (int value)"

section \<open>Facts on digits\<close>

lemma of_char_digit_char: "d < 10 \<Longrightarrow> (of_char (digit_char d) :: nat) = 48 + d"
  by (simp add: digit_char_def)

lemma is_digit_digit_char [simp]: "d < 10 \<Longrightarrow> is_digit (digit_char d)"
  by (simp add: is_digit_def of_char_digit_char)

lemma digit_value_digit_char [simp]: "d < 10 \<Longrightarrow> digit_value (digit_char d) = d"
  by (simp add: digit_value_def of_char_digit_char)

lemma digits_value_snoc [simp]: "digits_value (ds @ [c]) = digits_value ds * 10 + digit_value c"
  by (simp add: digits_value_def)

lemma digits_value_Nil [simp]: "digits_value [] = 0"
  by (simp add: digits_value_def)

lemma to_string_nat_digits: "\<forall>c \<in> set (to_string_nat n). is_digit c"
proof (induction n rule: to_string_nat.induct)
  case (1 n)
  then show ?case by (subst to_string_nat.simps) auto
qed

lemma to_string_nat_not_Nil [simp]: "to_string_nat n \<noteq> []"
  by (subst to_string_nat.simps) simp

lemma digits_value_to_string_nat [simp]: "digits_value (to_string_nat n) = n"
proof (induction n rule: to_string_nat.induct)
  case (1 n)
  show ?case
  proof (cases "n < 10")
    case True
    then show ?thesis
      by (subst to_string_nat.simps) (simp add: digits_value_def)
  next
    case False
    with 1 show ?thesis by (subst to_string_nat.simps) simp
  qed
qed

lemma takeWhile_to_string_nat [simp]: "takeWhile is_digit (to_string_nat n) = to_string_nat n"
  by (meson takeWhile_eq_all_conv to_string_nat_digits)

lemma to_string_nat_0: "to_string_nat 0 = ''0''"
  by code_simp

lemma digit_not_special:
  assumes "is_digit c"
  shows "\<not> is_space c" "c \<noteq> CHR ''-''" "c \<noteq> CHR ''+''" "c \<noteq> CHR ''=''" "c \<noteq> CHR 0x01" "c \<noteq> CHR 0x00"
  using assms by (auto simp: is_digit_def is_space_def)

lemma digits_avoid: "\<forall>c \<in> set ds. is_digit c \<Longrightarrow> \<not> is_digit x \<Longrightarrow> x \<notin> set ds"
  by auto

lemma not_is_digit [simp]: "\<not> is_digit (CHR ''='')" "\<not> is_digit (CHR 0x01)" "\<not> is_digit (CHR ''-'')"
  by (simp_all add: is_digit_def)

lemma stoi_digits:
  assumes "ds \<noteq> []" "\<forall>c \<in> set ds. is_digit c" "rest = [] \<or> \<not> is_digit (hd rest)" "int (digits_value ds) \<le> INT_MAX"
  shows "stoi (ds @ rest) = Inr (int (digits_value ds))"
proof -
  obtain d ds' where ds: "ds = d # ds'" using assms(1) by (cases ds) auto
  have d: "\<not> is_space d" "d \<noteq> CHR ''-''" "d \<noteq> CHR ''+''"
    using assms(2) ds digit_not_special [of d] by auto
  have "takeWhile is_digit (ds @ rest) = ds"
    using assms(2,3) by (cases rest) (auto simp: takeWhile_append)
  with d assms(4) show ?thesis
    by (simp add: stoi_def Let_def ds in_int_def INT_MIN_def)
qed

lemma stoi_to_string_int:
  assumes "in_int i"
  shows "stoi (to_string_int i) = Inr i"
proof (cases "i < 0")
  case False
  with assms stoi_digits [of "to_string_nat (nat i)" "[]"] to_string_nat_digits [of "nat i"] show ?thesis
    by (simp add: to_string_int_def in_int_def)
next
  case True
  with assms show ?thesis
    by (simp add: to_string_int_def stoi_def Let_def is_space_def)
qed

lemma extract_digits_eq: "0 < n \<Longrightarrow> extract_digits n acc = to_string_nat n @ acc"
proof (induction n acc rule: extract_digits.induct)
  case (1 n acc)
  show ?case
  proof (cases "n < 10")
    case True
    with 1 show ?thesis
      by (subst extract_digits.simps, subst to_string_nat.simps) (simp add: extract_digits.simps)
  next
    case False
    with 1 show ?thesis
      by (subst extract_digits.simps, subst to_string_nat.simps) simp
  qed
qed

lemma index_of_None [simp]: "index_of c xs = None \<longleftrightarrow> c \<notin> set xs"
  by (induction xs) auto

lemma index_of_append: "c \<notin> set xs \<Longrightarrow> index_of c (xs @ c # ys) = Some (length xs)"
  by (induction xs) auto

lemma index_of_take_append:
  assumes "c \<notin> set xs"
  shows "index_of c (take k (xs @ c # ys)) = (if k \<le> length xs then None else Some (length xs))"
proof (cases "k \<le> length xs")
  case True
  with assms show ?thesis by (auto dest: in_set_takeD)
next
  case False
  then obtain j where "k = length xs + Suc j" by (metis less_iff_Suc_add not_le add_Suc_right)
  with assms show ?thesis by (simp add: index_of_append)
qed

lemma find_char_take:
  assumes "c \<notin> set xs" "length pre = pos"
  shows "find_char c (take k (pre @ xs @ c # ys)) pos = (if k \<le> pos + length xs then None else Some (pos + length xs))"
proof -
  have "drop pos (pre @ xs @ c # ys) = xs @ c # ys" using assms(2) by simp
  then have d: "drop pos (take k (pre @ xs @ c # ys)) = take (k - pos) (xs @ c # ys)" by (simp only: drop_take)
  show ?thesis
    unfolding find_char_def d index_of_take_append [OF assms(1)] by auto
qed

section \<open>Properties\<close>

lemma int_to_string_eq: "int_to_string i = to_string_int i"
  by (simp add: int_to_string_def integer_to_string_internal_def to_string_int_def extract_digits_eq to_string_nat_0)

text \<open>C27: The hand-written integer formatter agrees with \<open>std::to_string\<close> on every \<open>int\<close>, INT_MIN included,
  and \<open>std::stoi\<close> reads its output back.\<close>

theorem int_to_string_correct:
  assumes "in_int i"
  shows "int_to_string i = to_string_int i \<and> stoi (int_to_string i) = Inr i"
  using assms by (simp add: int_to_string_eq stoi_to_string_int)

lemma int_to_string_correct_witness:
  "int_to_string INT_MIN = to_string_int INT_MIN \<and> stoi (int_to_string INT_MIN) = Inr INT_MIN
    \<and> int_to_string (- 42) = ''-42'' \<and> stoi (int_to_string (- 42)) = Inr (- 42)"
proof -
  have "int_to_string (- 42) = ''-42''" by code_simp
  moreover have "in_int INT_MIN" "in_int (- 42)"
    by (simp_all add: in_int_def INT_MIN_def INT_MAX_def)
  ultimately show ?thesis
    using int_to_string_correct [of INT_MIN] int_to_string_correct [of "- 42"] by blast
qed

end
