(* ===== verification/Pool_Interface.thy ===== *)
theory Pool_Interface
  imports Gateway_Prelude
begin

text \<open>
  The contract of a message pool as the parser and the session components use it: a heap of live
  objects indexed by address, an allocation that either hands out a fresh address holding the
  constructed object or fails because the pool is closed or exhausted, and a deallocation
  that removes exactly one live object.
\<close>

type_synonym addr = nat

text \<open>Allocation of a batch of objects, collecting the returned addresses (null included).\<close>

primrec alloc_all :: "('a \<Rightarrow> 'p \<Rightarrow> addr \<times> 'p) \<Rightarrow> 'a list \<Rightarrow> 'p \<Rightarrow> addr list \<times> 'p" where
  "alloc_all alloc [] p = ([], p)"
| "alloc_all alloc (x # xs) p =
    (let (a, p') = alloc x p; (as, p'') = alloc_all alloc xs p' in (a # as, p''))"

primrec free_all :: "(addr \<Rightarrow> 'p \<Rightarrow> 'p) \<Rightarrow> addr list \<Rightarrow> 'p \<Rightarrow> 'p" where
  "free_all dealloc [] p = p"
| "free_all dealloc (a # as) p = free_all dealloc as (dealloc a p)"

locale object_pool =
  fixes inv :: "'p \<Rightarrow> bool"
    and heap :: "'p \<Rightarrow> addr \<rightharpoonup> 'a"
    and slots :: "'p \<Rightarrow> nat"
    and closed :: "'p \<Rightarrow> bool"
    and alloc :: "'a \<Rightarrow> 'p \<Rightarrow> addr \<times> 'p"
    and dealloc :: "addr \<Rightarrow> 'p \<Rightarrow> 'p"
  assumes alloc_inv: "inv p \<Longrightarrow> inv (snd (alloc x p))"
    and alloc_frame: "inv p \<Longrightarrow> slots (snd (alloc x p)) = slots p"
      "inv p \<Longrightarrow> closed (snd (alloc x p)) = closed p"
    and alloc_ok: "inv p \<Longrightarrow> fst (alloc x p) \<noteq> 0 \<longleftrightarrow> \<not> closed p \<and> card (dom (heap p)) < slots p"
    and alloc_fresh: "inv p \<Longrightarrow> fst (alloc x p) \<noteq> 0 \<Longrightarrow> fst (alloc x p) \<notin> dom (heap p)"
    and alloc_heap: "inv p \<Longrightarrow> heap (snd (alloc x p)) = (if fst (alloc x p) = 0 then heap p else (heap p)(fst (alloc x p) \<mapsto> x))"
    and dealloc_inv: "inv p \<Longrightarrow> a \<in> dom (heap p) \<Longrightarrow> inv (dealloc a p)"
    and dealloc_frame: "inv p \<Longrightarrow> a \<in> dom (heap p) \<Longrightarrow> slots (dealloc a p) = slots p"
      "inv p \<Longrightarrow> a \<in> dom (heap p) \<Longrightarrow> closed (dealloc a p) = closed p"
    and dealloc_heap: "inv p \<Longrightarrow> a \<in> dom (heap p) \<Longrightarrow> heap (dealloc a p) = (heap p)(a := None)"
    and null_not_live: "inv p \<Longrightarrow> 0 \<notin> dom (heap p)"
    and finite_live: "inv p \<Longrightarrow> finite (dom (heap p)) \<and> card (dom (heap p)) \<le> slots p"
begin

lemmas alloc_laws = alloc_inv alloc_frame alloc_ok alloc_heap

lemma alloc_dealloc:
  assumes "inv p" "fst (alloc x p) \<noteq> 0"
  shows "inv (dealloc (fst (alloc x p)) (snd (alloc x p)))"
    and "heap (dealloc (fst (alloc x p)) (snd (alloc x p))) = heap p"
  using assms alloc_fresh [OF assms] by (auto simp: dealloc_inv dealloc_heap alloc_inv alloc_heap dom_def)

lemma card_after_alloc:
  assumes "inv p" "fst (alloc x p) \<noteq> 0"
  shows "card (dom (heap (snd (alloc x p)))) = Suc (card (dom (heap p)))"
  using assms alloc_fresh [OF assms] finite_live [OF assms(1)] by (simp add: alloc_heap)

lemma alloc_all_enough:
  assumes "inv p" "\<not> closed p" "card (dom (heap p)) + length xs \<le> slots p" "alloc_all alloc xs p = (as, p')"
  shows "inv p' \<and> distinct as \<and> 0 \<notin> set as \<and> set as \<inter> dom (heap p) = {}
    \<and> heap p' = heap p ++ map_of (zip as xs) \<and> length as = length xs \<and> slots p' = slots p \<and> \<not> closed p'"
  using assms
proof (induction xs arbitrary: p as p')
  case Nil
  then show ?case by simp
next
  case (Cons x xs)
  obtain a p1 where a: "alloc x p = (a, p1)" by (cases "alloc x p")
  obtain bs p2 where b: "alloc_all alloc xs p1 = (bs, p2)" by (cases "alloc_all alloc xs p1")
  have ok: "a \<noteq> 0" using alloc_ok [of p x] Cons.prems a by simp
  have p1: "inv p1" "\<not> closed p1" "slots p1 = slots p" "heap p1 = (heap p)(a \<mapsto> x)" "a \<notin> dom (heap p)"
    using alloc_laws [of p x] alloc_fresh [of p x] Cons.prems(1,2) a ok by simp_all
  moreover have "card (dom (heap p1)) = Suc (card (dom (heap p)))"
    using card_after_alloc [of p x] Cons.prems(1) a ok by simp
  moreover from this have "card (dom (heap p1)) + length xs \<le> slots p1"
    using Cons.prems(3) p1(3) by simp
  ultimately have IH: "inv p2 \<and> distinct bs \<and> 0 \<notin> set bs \<and> set bs \<inter> dom (heap p1) = {}
      \<and> heap p2 = heap p1 ++ map_of (zip bs xs) \<and> length bs = length xs \<and> slots p2 = slots p1 \<and> \<not> closed p2"
    using Cons.IH [of p1 bs p2] Cons.prems(3) b by metis
  have as: "as = a # bs" "p' = p2" using Cons.prems(4) a b by auto
  have "heap p1 ++ map_of (zip bs xs) = heap p ++ map_of (zip (a # bs) (x # xs))"
  proof -
    have "a \<notin> set bs" using IH p1(4) by auto
    then have "map_of (zip bs xs) a = None"
      by (metis map_of_eq_None_iff in_set_zipE imageE prod.collapse)
    then show ?thesis by (auto simp: p1(4) map_add_def fun_eq_iff split: option.splits)
  qed
  then have h: "heap p2 = heap p ++ map_of (zip (a # bs) (x # xs))" using IH by metis
  have "set bs \<inter> dom (heap p) = {}" "a \<notin> set bs" using IH p1(4) by auto
  with IH p1 ok h show ?case unfolding as by (simp only: h) simp
qed

lemma free_all_live:
  assumes "inv p" "distinct as" "set as \<subseteq> dom (heap p)"
  shows "inv (free_all dealloc as p) \<and> heap (free_all dealloc as p) = heap p |` (- set as)"
  using assms
proof (induction as arbitrary: p)
  case Nil
  then show ?case by simp
next
  case (Cons a as)
  then have "inv (dealloc a p)" "heap (dealloc a p) = (heap p)(a := None)"
    by (auto intro!: dealloc_inv dealloc_heap)
  moreover from this Cons.prems have "set as \<subseteq> dom (heap (dealloc a p))" by auto
  ultimately show ?case
    using Cons by (auto simp: restrict_map_def fun_eq_iff)
qed

end

end
