(* ===== verification/Message_Pool.thy ===== *)
theory Message_Pool
  imports Pool_Interface
begin

text \<open>
  \<open>MessagePool<T>\<close> and \<open>GlobalMessagePool<T>\<close> of include/common/message_pool.h: preallocated slots
  threaded into a free list of \<open>int32_t\<close> indices. Pointers are addresses, null is 0; the
  address of the slot array and \<open>sizeof(PoolSlot)\<close> are chosen by the platform and kept in the state.
  A slot holds \<open>Some x\<close> while an object lives in it. The compare-and-swap loops
  are taken here without interference, where the first exchange succeeds.
\<close>

section \<open>State\<close>

record 'a pool =
  p_size :: size_t
  p_name :: string
  p_base :: addr
  p_slot_bytes :: nat
  p_slots :: "'a option list"
  p_next :: "int list"
  p_head :: int
  p_allocated :: size_t
  p_total_allocations :: uint64
  p_total_deallocations :: uint64
  p_failures :: uint64
  p_shutdown :: bool

record pool_stats =
  total_capacity :: size_t
  available_count :: size_t
  allocated_count :: size_t
  total_allocations :: uint64
  total_deallocations :: uint64
  allocation_failures :: uint64

datatype pool_error = Pool_size_zero | Cannot_reset_non_empty

text \<open>\<open>static_cast<int32_t>\<close> of an unsigned index.\<close>

definition to_int32 :: "nat \<Rightarrow> int" where
  "to_int32 n = (int n + 2 ^ 31) mod 2 ^ 32 - 2 ^ 31"

definition slot_addr :: "'a pool \<Rightarrow> nat \<Rightarrow> addr" where
  "slot_addr p i = p_base p + i * p_slot_bytes p"

section \<open>Operations\<close>

definition initializeFreeList :: "'a pool \<Rightarrow> 'a pool" where
  "initializeFreeList p =
    p\<lparr>p_next := map (\<lambda>i. to_int32 (i + 1)) [0..<unat (p_size p) - 1] @ [-1],
      p_head := 0,
      p_allocated := 0\<rparr>"

definition newPool :: "addr \<Rightarrow> nat \<Rightarrow> size_t \<Rightarrow> string \<Rightarrow> pool_error + 'a pool" where
  "newPool base slot_bytes pool_size name =
    (if pool_size = 0 then Inl Pool_size_zero
     else Inr (initializeFreeList
       \<lparr> p_size = pool_size, p_name = name, p_base = base, p_slot_bytes = slot_bytes,
         p_slots = replicate (unat pool_size) None, p_next = replicate (unat pool_size) (-1),
         p_head = 0, p_allocated = 0, p_total_allocations = 0, p_total_deallocations = 0,
         p_failures = 0, p_shutdown = False \<rparr>))"

definition allocateRaw :: "'a \<Rightarrow> 'a pool \<Rightarrow> addr \<times> 'a pool" where
  "allocateRaw obj p =
    (let head_index = p_head p
     in if head_index \<ge> 0
        then let next_index = p_next p ! nat head_index
             in (slot_addr p (nat head_index),
                 p\<lparr>p_head := next_index,
                   p_allocated := p_allocated p + 1,
                   p_total_allocations := p_total_allocations p + 1,
                   p_slots := (p_slots p)[nat head_index := Some obj]\<rparr>)
        else (0, p\<lparr>p_failures := p_failures p + 1\<rparr>))"

text \<open>The variant that forwards constructor arguments; the object built from them is the argument.\<close>

definition allocateWithArgs :: "'a \<Rightarrow> 'a pool \<Rightarrow> addr \<times> 'a pool" where
  "allocateWithArgs obj p =
    (let head_index = p_head p
     in if head_index \<ge> 0
        then let next_index = p_next p ! nat head_index
             in (slot_addr p (nat head_index),
                 p\<lparr>p_head := next_index,
                   p_allocated := p_allocated p + 1,
                   p_total_allocations := p_total_allocations p + 1,
                   p_slots := (p_slots p)[nat head_index := Some obj]\<rparr>)
        else (0, p\<lparr>p_failures := p_failures p + 1\<rparr>))"

definition allocate :: "'a \<Rightarrow> 'a pool \<Rightarrow> addr \<times> 'a pool" where
  "allocate obj p =
    (if p_shutdown p then (0, p\<lparr>p_failures := p_failures p + 1\<rparr>) else allocateRaw obj p)"

definition allocate_args :: "'a \<Rightarrow> 'a pool \<Rightarrow> addr \<times> 'a pool" where
  "allocate_args obj p =
    (if p_shutdown p then (0, p\<lparr>p_failures := p_failures p + 1\<rparr>) else allocateWithArgs obj p)"

definition deallocateRaw :: "addr \<Rightarrow> 'a pool \<Rightarrow> 'a pool" where
  "deallocateRaw msg p =
    (if msg = 0 then p
     else let pool_start = p_base p;
              pool_end = pool_start + unat (p_size p) * p_slot_bytes p
          in if msg < pool_start \<or> msg \<ge> pool_end then p
             else let slot_index = (msg - pool_start) div p_slot_bytes p
                  in if slot_index \<ge> unat (p_size p) then p
                     else if msg \<noteq> slot_addr p slot_index then p
                     else p\<lparr>p_next := (p_next p)[slot_index := p_head p],
                            p_head := to_int32 slot_index,
                            p_allocated := p_allocated p - 1,
                            p_total_deallocations := p_total_deallocations p + 1\<rparr>)"

text \<open>The explicit destructor call on the object at an address.\<close>

definition destroy_at :: "addr \<Rightarrow> 'a pool \<Rightarrow> 'a pool" where
  "destroy_at msg p =
    (let i = (msg - p_base p) div p_slot_bytes p
     in if i < unat (p_size p) \<and> msg = slot_addr p i then p\<lparr>p_slots := (p_slots p)[i := None]\<rparr> else p)"

definition deallocate :: "addr \<Rightarrow> 'a pool \<Rightarrow> 'a pool" where
  "deallocate msg p = (if msg \<noteq> 0 then deallocateRaw msg (destroy_at msg p) else p)"

text \<open>A modification of the object at an address through its pointer.\<close>

definition modify_at :: "addr \<Rightarrow> ('a \<Rightarrow> 'a) \<Rightarrow> 'a pool \<Rightarrow> 'a pool" where
  "modify_at msg f p =
    (let i = (msg - p_base p) div p_slot_bytes p
     in if i < unat (p_size p) \<and> msg = slot_addr p i then p\<lparr>p_slots := (p_slots p)[i := map_option f (p_slots p ! i)]\<rparr> else p)"

text \<open>Touching every slot writes a zero byte into it, which is harmless only while no object lives there.\<close>

definition prewarm :: "'a pool \<Rightarrow> 'a pool option" where
  "prewarm p = (if list_all (\<lambda>s. s = None) (p_slots p) then Some p else None)"

definition reset_pool :: "'a pool \<Rightarrow> pool_error + 'a pool" where
  "reset_pool p = (if p_allocated p > 0 then Inl Cannot_reset_non_empty else Inr (initializeFreeList p))"

definition shutdown_pool :: "'a pool \<Rightarrow> 'a pool" where
  "shutdown_pool p = p\<lparr>p_shutdown := True\<rparr>"

definition available :: "'a pool \<Rightarrow> size_t" where
  "available p = p_size p - p_allocated p"

definition allocated :: "'a pool \<Rightarrow> size_t" where
  "allocated p = p_allocated p"

definition pool_isEmpty :: "'a pool \<Rightarrow> bool" where
  "pool_isEmpty p \<longleftrightarrow> available p = 0"

definition pool_isFull :: "'a pool \<Rightarrow> bool" where
  "pool_isFull p \<longleftrightarrow> allocated p = p_size p"

definition pool_getStats :: "'a pool \<Rightarrow> pool_stats" where
  "pool_getStats p =
    \<lparr> total_capacity = p_size p, available_count = available p, allocated_count = allocated p,
      total_allocations = p_total_allocations p, total_deallocations = p_total_deallocations p,
      allocation_failures = p_failures p \<rparr>"

section \<open>The global pool\<close>

record 'a global_pool =
  g_instance :: "'a pool option"
  g_initialized :: bool

text \<open>\<open>base\<close> and \<open>slot_bytes\<close> are the platform's choice for a pool created by this call; a failed
  construction propagates the exception.\<close>

definition getInstance :: "addr \<Rightarrow> nat \<Rightarrow> string \<Rightarrow> size_t \<Rightarrow> 'a global_pool \<Rightarrow> pool_error + 'a global_pool" where
  "getInstance base slot_bytes type_name pool_size g =
    (if \<not> g_initialized g
     then case newPool base slot_bytes pool_size (''global_'' @ type_name @ ''_pool'') of
            Inl e \<Rightarrow> Inl e
          | Inr p \<Rightarrow> Inr (g\<lparr>g_instance := prewarm p, g_initialized := True\<rparr>)
     else Inr g)"

definition global_shutdown :: "'a global_pool \<Rightarrow> 'a global_pool" where
  "global_shutdown g =
    (case g_instance g of None \<Rightarrow> g | Some _ \<Rightarrow> g\<lparr>g_instance := None, g_initialized := False\<rparr>)"

section \<open>Invariant and abstraction\<close>

primrec free_path :: "int list \<Rightarrow> int \<Rightarrow> nat list \<Rightarrow> bool" where
  "free_path nxt h [] \<longleftrightarrow> h = -1"
| "free_path nxt h (x # xs) \<longleftrightarrow> h = int x \<and> x < length nxt \<and> free_path nxt (nxt ! x) xs"

definition live_slots :: "'a pool \<Rightarrow> nat set" where
  "live_slots p = {i. i < unat (p_size p) \<and> p_slots p ! i \<noteq> None}"

definition free_slots :: "'a pool \<Rightarrow> nat set" where
  "free_slots p = {i. i < unat (p_size p) \<and> p_slots p ! i = None}"

definition pool_inv :: "'a pool \<Rightarrow> bool" where
  "pool_inv p \<longleftrightarrow>
     0 < unat (p_size p) \<and> unat (p_size p) < 2 ^ 31 \<and> 0 < p_base p \<and> 0 < p_slot_bytes p
     \<and> length (p_slots p) = unat (p_size p) \<and> length (p_next p) = unat (p_size p)
     \<and> p_allocated p = of_nat (card (live_slots p))
     \<and> (\<exists>fl. free_path (p_next p) (p_head p) fl \<and> distinct fl \<and> set fl = free_slots p)"

definition pool_heap :: "'a pool \<Rightarrow> addr \<rightharpoonup> 'a" where
  "pool_heap p a =
    (let i = (a - p_base p) div p_slot_bytes p
     in if i < unat (p_size p) \<and> a = slot_addr p i then p_slots p ! i else None)"

lemma to_int32_small [simp]: "n < 2 ^ 31 \<Longrightarrow> to_int32 n = int n"
  by (simp add: to_int32_def)

lemma free_path_update: "x \<notin> set xs \<Longrightarrow> free_path (nxt[x := v]) h xs = free_path nxt h xs"
  by (induction xs arbitrary: h) auto

lemma slot_index_addr [simp]: "0 < p_slot_bytes p \<Longrightarrow> (slot_addr p i - p_base p) div p_slot_bytes p = i"
  by (simp add: slot_addr_def)

lemma slot_addr_inj: "0 < p_slot_bytes p \<Longrightarrow> slot_addr p i = slot_addr p j \<longleftrightarrow> i = j"
  by (simp add: slot_addr_def)

lemma slot_addr_cong:
  "p_base p' = p_base p \<Longrightarrow> p_slot_bytes p' = p_slot_bytes p \<Longrightarrow> slot_addr p' = slot_addr p"
  by (simp add: slot_addr_def fun_eq_iff)

lemma pool_heap_slot:
  "0 < p_slot_bytes p \<Longrightarrow> pool_heap p (slot_addr p i) = (if i < unat (p_size p) then p_slots p ! i else None)"
  by (simp add: pool_heap_def)

lemma pool_heap_SomeD:
  "pool_heap p a = Some x \<Longrightarrow> \<exists>i < unat (p_size p). a = slot_addr p i \<and> p_slots p ! i = Some x"
  by (auto simp: pool_heap_def Let_def split: if_splits)

lemma dom_pool_heap: "0 < p_slot_bytes p \<Longrightarrow> dom (pool_heap p) = slot_addr p ` live_slots p"
  by (auto simp: live_slots_def pool_heap_slot dest!: pool_heap_SomeD)

lemma card_dom_pool_heap:
  assumes "0 < p_slot_bytes p"
  shows "card (dom (pool_heap p)) = card (live_slots p)" "finite (dom (pool_heap p))"
proof -
  have "inj_on (slot_addr p) (live_slots p)"
    using assms by (auto simp: inj_on_def slot_addr_inj)
  then show "card (dom (pool_heap p)) = card (live_slots p)"
    by (simp add: dom_pool_heap assms card_image)
  show "finite (dom (pool_heap p))"
    by (simp add: dom_pool_heap assms live_slots_def)
qed

lemma free_slots_fin [simp]: "finite (free_slots p)" "finite (live_slots p)"
  by (simp_all add: free_slots_def live_slots_def)

lemma card_live_free: "card (live_slots p) + card (free_slots p) = unat (p_size p)"
proof -
  have "live_slots p \<union> free_slots p = {..<unat (p_size p)}" "live_slots p \<inter> free_slots p = {}"
    by (auto simp: live_slots_def free_slots_def)
  moreover have "finite (live_slots p)" "finite (free_slots p)"
    by (auto simp: live_slots_def free_slots_def)
  ultimately show ?thesis by (metis card_Un_disjoint card_lessThan)
qed

lemma pool_heap_cong:
  "p_size p' = p_size p \<Longrightarrow> p_base p' = p_base p \<Longrightarrow> p_slot_bytes p' = p_slot_bytes p
    \<Longrightarrow> p_slots p' = p_slots p \<Longrightarrow> pool_heap p' = pool_heap p"
  by (simp add: pool_heap_def fun_eq_iff slot_addr_def Let_def)

lemma pool_heap_update:
  assumes "0 < p_slot_bytes p" "i < unat (p_size p)" "length (p_slots p) = unat (p_size p)"
    and "p_size p' = p_size p" "p_base p' = p_base p" "p_slot_bytes p' = p_slot_bytes p"
    and "p_slots p' = (p_slots p)[i := v]"
  shows "pool_heap p' = (pool_heap p)(slot_addr p i := v)"
proof
  fix a
  show "pool_heap p' a = ((pool_heap p)(slot_addr p i := v)) a"
  proof (cases "a = slot_addr p i")
    case True
    with assms show ?thesis by (simp add: pool_heap_def slot_addr_cong [OF assms(5,6)])
  next
    case False
    then have "a = slot_addr p j \<longrightarrow> j \<noteq> i" for j by auto
    with False assms show ?thesis by (auto simp: pool_heap_def Let_def nth_list_update slot_addr_cong [OF assms(5,6)])
  qed
qed

lemma live_free_update:
  assumes "i < unat (p_size p)" "length (p_slots p) = unat (p_size p)"
    and "p_size p' = p_size p" "p_slots p' = (p_slots p)[i := v]"
  shows "live_slots p' = (if v = None then live_slots p - {i} else insert i (live_slots p))"
    and "free_slots p' = (if v = None then insert i (free_slots p) else free_slots p - {i})"
  using assms by (auto simp: live_slots_def free_slots_def nth_list_update)

section \<open>Laws of the operations\<close>

lemma pool_invE:
  assumes "pool_inv p"
  obtains fl where "0 < unat (p_size p)" "unat (p_size p) < 2 ^ 31" "0 < p_base p" "0 < p_slot_bytes p"
    "length (p_slots p) = unat (p_size p)" "length (p_next p) = unat (p_size p)"
    "p_allocated p = of_nat (card (live_slots p))"
    "free_path (p_next p) (p_head p) fl" "distinct fl" "set fl = free_slots p"
  using assms by (auto simp: pool_inv_def)

lemma pool_inv_failure [simp]: "pool_inv (p\<lparr>p_failures := n\<rparr>) = pool_inv p"
  by (simp add: pool_inv_def live_slots_def free_slots_def)

lemma pool_heap_failure [simp]: "pool_heap (p\<lparr>p_failures := n\<rparr>) = pool_heap p"
  by (rule pool_heap_cong) simp_all

lemma free_path_head: "free_path nxt h fl \<Longrightarrow> h \<ge> 0 \<longleftrightarrow> fl \<noteq> []"
  by (cases fl) auto

lemma allocateRaw_step:
  assumes "pool_inv p"
  shows "if p_head p \<ge> 0
    then nat (p_head p) \<in> free_slots p \<and> fst (allocateRaw x p) = slot_addr p (nat (p_head p))
       \<and> pool_inv (snd (allocateRaw x p))
       \<and> pool_heap (snd (allocateRaw x p)) = (pool_heap p)(slot_addr p (nat (p_head p)) \<mapsto> x)
    else free_slots p = {}"
proof -
  obtain fl where p: "0 < unat (p_size p)" "unat (p_size p) < 2 ^ 31" "0 < p_base p" "0 < p_slot_bytes p"
      "length (p_slots p) = unat (p_size p)" "length (p_next p) = unat (p_size p)"
      "p_allocated p = of_nat (card (live_slots p))"
      "free_path (p_next p) (p_head p) fl" "distinct fl" "set fl = free_slots p"
    using assms by (rule pool_invE)
  show ?thesis
  proof (cases fl)
    case Nil
    with p show ?thesis by simp
  next
    case (Cons i fl')
    with p have i: "p_head p = int i" "i < unat (p_size p)" "i \<in> free_slots p" "free_path (p_next p) (p_next p ! i) fl'"
      by auto
    let ?p = "snd (allocateRaw x p)"
    have upd: "p_slots ?p = (p_slots p)[i := Some x]" "p_size ?p = p_size p" "p_base ?p = p_base p"
      "p_slot_bytes ?p = p_slot_bytes p" "p_next ?p = p_next p" "p_head ?p = p_next p ! i" "p_allocated ?p = p_allocated p + 1"
      by (simp_all add: allocateRaw_def Let_def i(1))
    note lf = live_free_update [OF i(2) p(5) upd(2) upd(1), simplified]
    have "card (live_slots ?p) = Suc (card (live_slots p))"
      using i(3) by (simp add: lf(1)) (simp add: live_slots_def free_slots_def)
    moreover have "set fl' = free_slots ?p"
      using p(9,10) Cons by (auto simp: lf(2))
    ultimately have "pool_inv ?p"
      using p i(4) Cons unfolding pool_inv_def upd by (auto intro!: exI [of _ fl'])
    moreover have "pool_heap ?p = (pool_heap p)(slot_addr p i \<mapsto> x)"
      by (rule pool_heap_update) (use p i upd in simp_all)
    ultimately show ?thesis
      using i by (simp add: allocateRaw_def)
  qed
qed

lemma allocate_laws:
  assumes "pool_inv p"
  shows "pool_inv (snd (allocate x p))"
    and "unat (p_size (snd (allocate x p))) = unat (p_size p)"
    and "p_shutdown (snd (allocate x p)) = p_shutdown p"
    and "fst (allocate x p) \<noteq> 0 \<longleftrightarrow> \<not> p_shutdown p \<and> card (dom (pool_heap p)) < unat (p_size p)"
    and "fst (allocate x p) \<noteq> 0 \<Longrightarrow> fst (allocate x p) \<notin> dom (pool_heap p)"
    and "pool_heap (snd (allocate x p)) =
      (if fst (allocate x p) = 0 then pool_heap p else (pool_heap p)(fst (allocate x p) \<mapsto> x))"
proof -
  from assms have pos: "0 < p_base p" "0 < p_slot_bytes p" by (auto elim: pool_invE)
  note st = allocateRaw_step [OF assms, of x]
  have neg: "p_head p < 0 \<Longrightarrow> allocateRaw x p = (0, p\<lparr>p_failures := p_failures p + 1\<rparr>)"
    by (simp add: allocateRaw_def)
  have addr: "slot_addr p (nat (p_head p)) \<noteq> 0" using pos by (simp add: slot_addr_def)
  show "pool_inv (snd (allocate x p))"
    using st neg assms by (cases "p_head p \<ge> 0") (auto simp: allocate_def)
  show "unat (p_size (snd (allocate x p))) = unat (p_size p)" "p_shutdown (snd (allocate x p)) = p_shutdown p"
    by (auto simp: allocate_def allocateRaw_def Let_def)
  have "card (dom (pool_heap p)) < unat (p_size p) \<longleftrightarrow> free_slots p \<noteq> {}"
    using card_live_free [of p] card_dom_pool_heap(1) [OF pos(2)] card_gt_0_iff [of "free_slots p"]
    by (metis free_slots_fin(1) less_add_same_cancel1)
  then show "fst (allocate x p) \<noteq> 0 \<longleftrightarrow> \<not> p_shutdown p \<and> card (dom (pool_heap p)) < unat (p_size p)"
    using st neg addr by (cases "p_head p \<ge> 0") (auto simp: allocate_def)
  show "fst (allocate x p) \<noteq> 0 \<Longrightarrow> fst (allocate x p) \<notin> dom (pool_heap p)"
    using st neg pos by (cases "p_head p \<ge> 0") (auto simp: allocate_def free_slots_def pool_heap_slot split: if_splits)
  show "pool_heap (snd (allocate x p)) =
      (if fst (allocate x p) = 0 then pool_heap p else (pool_heap p)(fst (allocate x p) \<mapsto> x))"
    using st neg addr by (cases "p_head p \<ge> 0") (auto simp: allocate_def)
qed

lemma allocate_args_eq: "allocate_args x p = allocate x p"
  by (simp add: allocate_args_def allocate_def allocateWithArgs_def allocateRaw_def)

lemma deallocate_live:
  assumes "pool_inv p" "i < unat (p_size p)"
  shows "deallocate (slot_addr p i) p =
    p\<lparr>p_slots := (p_slots p)[i := None], p_next := (p_next p)[i := p_head p], p_head := int i,
      p_allocated := p_allocated p - 1, p_total_deallocations := p_total_deallocations p + 1\<rparr>"
proof -
  from assms have pos: "0 < p_base p" "0 < p_slot_bytes p" "unat (p_size p) < 2 ^ 31" by (auto elim: pool_invE)
  have "slot_addr p i < p_base p + unat (p_size p) * p_slot_bytes p" "slot_addr p i \<noteq> 0" "p_base p \<le> slot_addr p i"
    using pos assms(2) by (simp_all add: slot_addr_def)
  moreover have "to_int32 i = int i" using pos assms(2) by simp
  moreover have "slot_addr (p\<lparr>p_slots := v\<rparr>) i = slot_addr p i" for v by (simp add: slot_addr_def)
  ultimately show ?thesis
    using pos assms(2) by (simp add: deallocate_def destroy_at_def deallocateRaw_def)
qed

lemma deallocate_laws:
  assumes "pool_inv p" "a \<in> dom (pool_heap p)"
  shows "pool_inv (deallocate a p)"
    and "unat (p_size (deallocate a p)) = unat (p_size p)"
    and "p_shutdown (deallocate a p) = p_shutdown p"
    and "pool_heap (deallocate a p) = (pool_heap p)(a := None)"
proof -
  obtain fl where p: "0 < unat (p_size p)" "unat (p_size p) < 2 ^ 31" "0 < p_base p" "0 < p_slot_bytes p"
      "length (p_slots p) = unat (p_size p)" "length (p_next p) = unat (p_size p)"
      "p_allocated p = of_nat (card (live_slots p))"
      "free_path (p_next p) (p_head p) fl" "distinct fl" "set fl = free_slots p"
    using assms(1) by (rule pool_invE)
  from assms(2) obtain i x where i: "i < unat (p_size p)" "a = slot_addr p i" "p_slots p ! i = Some x"
    by (auto dest: pool_heap_SomeD)
  let ?p = "deallocate a p"
  note eq = deallocate_live [OF assms(1) i(1), folded i(2)]
  have upd: "p_slots ?p = (p_slots p)[i := None]" "p_size ?p = p_size p" "p_base ?p = p_base p"
    "p_slot_bytes ?p = p_slot_bytes p" by (simp_all add: eq)
  note lf = live_free_update [OF i(1) p(5) upd(2) upd(1), simplified]
  have il: "i \<in> live_slots p" "finite (live_slots p)" "i \<notin> free_slots p"
    using i by (auto simp: live_slots_def free_slots_def)
  have "Suc (card (live_slots p - {i})) = card (live_slots p)"
    using il by (intro card_Suc_Diff1)
  then have "of_nat (card (live_slots p)) - 1 = (of_nat (card (live_slots p - {i})) :: size_t)"
    by (metis add_diff_cancel_left' of_nat_Suc)
  moreover have "free_path ((p_next p)[i := p_head p]) (int i) (i # fl)"
    using p il i by (simp add: free_path_update)
  moreover have "distinct (i # fl)" "set (i # fl) = insert i (free_slots p)"
    using p(9,10) il(3) by auto
  ultimately show "pool_inv ?p"
    unfolding pool_inv_def lf by (intro conjI exI [of _ "i # fl"]) (use p(2) i(1) in \<open>simp_all add: eq p(1,3-7)\<close>)
  show "unat (p_size ?p) = unat (p_size p)" "p_shutdown ?p = p_shutdown p" by (simp_all add: eq)
  show "pool_heap ?p = (pool_heap p)(a := None)"
    unfolding i(2) by (rule pool_heap_update) (use p i upd in simp_all)
qed

lemma pool_live_bounds:
  assumes "pool_inv p"
  shows "0 \<notin> dom (pool_heap p)"
    and "finite (dom (pool_heap p)) \<and> card (dom (pool_heap p)) \<le> unat (p_size p)"
proof -
  from assms have pos: "0 < p_base p" "0 < p_slot_bytes p" by (auto elim: pool_invE)
  then show "0 \<notin> dom (pool_heap p)" by (auto simp: dom_pool_heap slot_addr_def)
  show "finite (dom (pool_heap p)) \<and> card (dom (pool_heap p)) \<le> unat (p_size p)"
    using card_dom_pool_heap [OF pos(2)] card_live_free [of p] by simp
qed

interpretation mp: object_pool pool_inv pool_heap "\<lambda>p. unat (p_size p)" p_shutdown allocate deallocate
  by unfold_locales (rule allocate_laws deallocate_laws pool_live_bounds; assumption)+

lemma modify_at_laws:
  assumes "pool_inv p"
  shows "pool_inv (modify_at a f p)"
    and "pool_heap (modify_at a f p) = (if a \<in> dom (pool_heap p) then (pool_heap p)(a \<mapsto> f (the (pool_heap p a))) else pool_heap p)"
    and "p_size (modify_at a f p) = p_size p"
    and "p_shutdown (modify_at a f p) = p_shutdown p"
proof -
  let ?i = "(a - p_base p) div p_slot_bytes p" and ?p = "modify_at a f p"
  from assms have p: "0 < p_slot_bytes p" "length (p_slots p) = unat (p_size p)" by (auto elim: pool_invE)
  show "p_size ?p = p_size p" "p_shutdown ?p = p_shutdown p" by (simp_all add: modify_at_def Let_def)
  show "pool_inv ?p"
  proof -
    have "live_slots ?p = live_slots p" "free_slots ?p = free_slots p"
      using p(2) by (auto simp: modify_at_def Let_def live_slots_def free_slots_def nth_list_update split: if_splits)
    with assms show ?thesis by (simp add: pool_inv_def modify_at_def Let_def)
  qed
  show "pool_heap ?p = (if a \<in> dom (pool_heap p) then (pool_heap p)(a \<mapsto> f (the (pool_heap p a))) else pool_heap p)"
  proof (cases "?i < unat (p_size p) \<and> a = slot_addr p ?i")
    case True
    then have "pool_heap ?p = (pool_heap p)(slot_addr p ?i := map_option f (p_slots p ! ?i))"
      by (intro pool_heap_update) (use p in \<open>simp_all add: modify_at_def Let_def\<close>)
    moreover have "pool_heap p a = p_slots p ! ?i" using True by (simp add: pool_heap_def Let_def)
    ultimately show ?thesis
      using True by (cases "p_slots p ! ?i") (auto simp: fun_eq_iff domIff)
  next
    case False
    then have "pool_heap p a = None" "?p = p" by (auto simp: pool_heap_def modify_at_def Let_def)
    then show ?thesis by (simp add: domIff)
  qed
qed

section \<open>Construction, reset and the counters\<close>

lemma free_path_initial:
  assumes "0 < n" "n < 2 ^ 31" "k < n"
  shows "free_path (map (\<lambda>i. to_int32 (i + 1)) [0..<n - 1] @ [-1]) (int k) [k..<n]"
  using assms(3)
proof (induction "n - k" arbitrary: k)
  case (Suc m)
  let ?nxt = "map (\<lambda>i. to_int32 (i + 1)) [0..<n - 1] @ [-1]"
  show ?case
  proof (cases "k = n - 1")
    case True
    with Suc.prems show ?thesis by (simp add: upt_conv_Cons nth_append)
  next
    case False
    with Suc.prems assms(2) have "?nxt ! k = int (Suc k)" "Suc k < n" by (auto simp: nth_append)
    with Suc.hyps(1) [of "Suc k"] Suc.hyps(2) Suc.prems show ?thesis
      by (simp add: upt_conv_Cons)
  qed
qed simp

lemma pool_inv_initializeFreeList:
  assumes "0 < unat (p_size p)" "unat (p_size p) < 2 ^ 31" "0 < p_base p" "0 < p_slot_bytes p"
    "length (p_slots p) = unat (p_size p)" "live_slots p = {}"
  shows "pool_inv (initializeFreeList p)"
proof -
  have "live_slots (initializeFreeList p) = {}" "free_slots (initializeFreeList p) = {..<unat (p_size p)}"
    using assms(6) by (auto simp: live_slots_def free_slots_def initializeFreeList_def)
  moreover have "free_path (map (\<lambda>i. to_int32 (i + 1)) [0..<unat (p_size p) - 1] @ [-1]) 0 [0..<unat (p_size p)]"
    using free_path_initial [of "unat (p_size p)" 0] assms(1,2) by simp
  ultimately show ?thesis
    using assms unfolding pool_inv_def
    by (intro conjI exI [of _ "[0..<unat (p_size p)]"]) (auto simp: initializeFreeList_def)
qed

lemma newPool_inv:
  assumes "newPool base sb n name = Inr p" "0 < base" "0 < sb" "unat n < 2 ^ 31"
  shows "pool_inv p \<and> pool_heap p = Map.empty \<and> p_size p = n \<and> \<not> p_shutdown p"
proof -
  define p0 :: "'a pool" where "p0 =
       \<lparr> p_size = n, p_name = name, p_base = base, p_slot_bytes = sb,
         p_slots = replicate (unat n) None, p_next = replicate (unat n) (-1),
         p_head = 0, p_allocated = 0, p_total_allocations = 0, p_total_deallocations = 0,
         p_failures = 0, p_shutdown = False \<rparr>"
  have n: "n \<noteq> 0" and p: "p = initializeFreeList p0"
    using assms(1) by (auto simp: newPool_def p0_def split: if_splits)
  have "live_slots p0 = {}" by (auto simp: live_slots_def p0_def)
  then have "pool_inv p"
    unfolding p using assms n
    by (intro pool_inv_initializeFreeList) (auto simp: p0_def unat_gt_0)
  moreover have "pool_heap p = Map.empty"
    by (auto simp: fun_eq_iff p initializeFreeList_def p0_def pool_heap_def Let_def)
  ultimately show ?thesis by (simp add: p initializeFreeList_def p0_def)
qed

lemma available_count_eq:
  assumes "pool_inv p"
  shows "unat (available p) = unat (p_size p) - card (dom (pool_heap p))"
    and "unat (allocated p) = card (dom (pool_heap p))"
proof -
  from assms have pos: "0 < p_slot_bytes p" "p_allocated p = of_nat (card (live_slots p))"
    by (auto elim: pool_invE)
  have le: "card (live_slots p) \<le> unat (p_size p)" using card_live_free [of p] by simp
  then have u: "unat (of_nat (card (live_slots p)) :: size_t) = card (live_slots p)"
    by (metis le_unat_uoi)
  then show "unat (allocated p) = card (dom (pool_heap p))"
    by (simp add: allocated_def pos card_dom_pool_heap)
  have "unat (available p) = unat (p_size p) - unat (p_allocated p)"
    using le u by (simp add: available_def pos(2) unat_sub word_le_nat_alt)
  then show "unat (available p) = unat (p_size p) - card (dom (pool_heap p))"
    by (simp add: pos(2) u card_dom_pool_heap pos(1))
qed

lemma deallocate_size [simp]: "p_size (deallocate a p) = p_size p"
  by (simp add: deallocate_def deallocateRaw_def destroy_at_def Let_def)

lemma free_all_size [simp]: "p_size (free_all deallocate as p) = p_size p"
  by (induction as arbitrary: p) auto

section \<open>Properties of the pool\<close>

text \<open>C8: A pool of n slots (n below 2^31) hands out n pairwise distinct non-null addresses, each holding the
  object constructed there, refuses the next allocation while counting a failure, and after all of them are deallocated is
  back to n available slots with no live object.\<close>

theorem pool_alloc_free_cycle:
  assumes "newPool base sb n name = Inr p" "0 < base" "0 < sb" "unat n < 2 ^ 31"
    and "length xs = unat n" "alloc_all allocate xs p = (as, p')"
  shows "distinct as \<and> 0 \<notin> set as \<and> pool_heap p' = map_of (zip as xs)
    \<and> allocate x p' = (0, p'\<lparr>p_failures := p_failures p' + 1\<rparr>)
    \<and> (let p'' = free_all deallocate as p' in
         pool_inv p'' \<and> pool_heap p'' = Map.empty \<and> available p'' = n)"
proof -
  have p: "pool_inv p" "pool_heap p = Map.empty" "p_size p = n" "\<not> p_shutdown p"
    using newPool_inv [OF assms(1-4)] by auto
  have r: "pool_inv p'" "distinct as" "0 \<notin> set as" "pool_heap p' = map_of (zip as xs)"
      "length as = length xs" "unat (p_size p') = unat n" "\<not> p_shutdown p'"
    using mp.alloc_all_enough [OF p(1) p(4) _ assms(6)] p assms(5) by auto
  then have dom: "dom (pool_heap p') = set as" by (simp add: dom_map_of_zip)
  then have "card (dom (pool_heap p')) = unat (p_size p')"
    using r(2,5,6) assms(5) by (simp add: distinct_card)
  with allocate_laws(4) [OF r(1), of x] have "fst (allocate x p') = 0" by simp
  then have fail: "allocate x p' = (0, p'\<lparr>p_failures := p_failures p' + 1\<rparr>)"
    using r(7) r(1) by (auto simp: allocate_def allocateRaw_def Let_def slot_addr_def elim: pool_invE split: if_splits)
  let ?p = "free_all deallocate as p'"
  have "pool_inv ?p \<and> pool_heap ?p = pool_heap p' |` (- set as)"
    by (rule mp.free_all_live) (use r dom in auto)
  then have f: "pool_inv ?p" "pool_heap ?p = Map.empty"
    using dom by (auto simp: restrict_map_def fun_eq_iff domIff)
  have "unat (available ?p) = unat n"
    using available_count_eq(1) [OF f(1)] f(2) r(6) by simp
  then have "available ?p = n" by (simp add: word_unat_eq_iff)
  with r f fail show ?thesis by simp
qed

lemma pool_alloc_free_cycle_witness:
  "\<exists>p as p'. newPool 4096 64 3 ''pool'' = Inr p \<and> alloc_all allocate [10, 20, 30 :: nat] p = (as, p')
     \<and> as = [4096, 4160, 4224] \<and> distinct as \<and> pool_heap p' = map_of (zip as [10, 20, 30])
     \<and> available (free_all deallocate as p') = 3"
proof -
  obtain p :: "nat pool" where p: "newPool 4096 64 3 ''pool'' = Inr p" by (simp add: newPool_def)
  obtain as p' where a: "alloc_all allocate [10, 20, 30] p = (as, p')" by (cases "alloc_all allocate [10, 20, 30] p")
  have "case newPool 4096 64 3 ''pool'' of Inl e \<Rightarrow> False
      | Inr p \<Rightarrow> fst (alloc_all allocate [10, 20, 30 :: nat] p) = [4096, 4160, 4224]"
    by code_simp
  with p a have as: "as = [4096, 4160, 4224]" by (simp only: sum.case fst_conv)
  have "distinct as \<and> pool_heap p' = map_of (zip as [10, 20, 30]) \<and> available (free_all deallocate as p') = 3"
    using pool_alloc_free_cycle [OF p _ _ _ _ a, of 0] by (simp add: Let_def del: free_all.simps)
  with p a as show ?thesis by blast
qed

text \<open>Deallocation has no double-free check: deallocating a live object twice makes the free list
  cyclic, so that the next two allocations hand out the same address to two owners, and the
  second object overwrites the first.\<close>

lemma double_free_aliases:
  assumes "pool_inv p" "\<not> p_shutdown p" "a \<in> dom (pool_heap p)"
  shows "let p1 = deallocate a (deallocate a p); (b, p2) = allocate x p1; (c, p3) = allocate y p2
    in b = a \<and> c = a \<and> pool_heap p3 a = Some y \<and> p_total_deallocations p1 = p_total_deallocations p + 2 \<and> \<not> pool_inv p1"
proof -
  from assms(3) obtain i z where i: "i < unat (p_size p)" "a = slot_addr p i" "p_slots p ! i = Some z"
    by (auto dest: pool_heap_SomeD)
  have q: "pool_inv (deallocate a p)" using deallocate_laws(1) [OF assms(1,3)] .
  have sa: "slot_addr (deallocate a p) = slot_addr p"
    unfolding deallocate_live [OF assms(1) i(1), folded i(2)] by (rule slot_addr_cong) simp_all
  have len: "i < length (p_next p)" "i < length (p_slots p)" "0 < p_slot_bytes p" using assms(1) i(1) by (auto elim: pool_invE)
  define p1 where "p1 = deallocate a (deallocate a p)"
  have p1: "p1 = p\<lparr>p_slots := (p_slots p)[i := None], p_next := (p_next p)[i := int i], p_head := int i,
      p_allocated := p_allocated p - 2, p_total_deallocations := p_total_deallocations p + 2\<rparr>"
    using deallocate_live [OF q, of i] i(1) unfolding sa i(2) [symmetric] p1_def
    by (simp add: deallocate_live [OF assms(1) i(1), folded i(2)] diff_diff_eq)
  have "\<not> free_path (p_next p1) (p_head p1) fl" if "distinct fl" for fl
  proof
    assume f: "free_path (p_next p1) (p_head p1) fl"
    then obtain fl' where "fl = i # fl'" by (cases fl) (auto simp: p1)
    with f len that show False by (cases fl') (auto simp: p1)
  qed
  then have "\<not> pool_inv p1" by (auto simp: pool_inv_def)
  then show ?thesis
    using assms(2) i(1) len unfolding p1_def [symmetric]
    by (simp add: p1 allocate_def allocateRaw_def i(2) slot_addr_def pool_heap_def Let_def)
qed

lemma double_free_aliases_witness:
  "\<exists>p a. pool_inv p \<and> a \<in> dom (pool_heap p)
     \<and> (let p1 = deallocate a (deallocate a p); (b, p2) = allocate (1::nat) p1; (c, p3) = allocate 2 p2
        in b = a \<and> c = a \<and> pool_heap p3 a = Some 2 \<and> p_total_deallocations p1 = p_total_deallocations p + 2 \<and> \<not> pool_inv p1)"
proof -
  obtain p :: "nat pool" where p: "newPool 4096 64 3 ''pool'' = Inr p" by (simp add: newPool_def)
  have inv: "pool_inv p" "\<not> p_shutdown p" "pool_heap p = Map.empty" "p_size p = 3" using newPool_inv [OF p] by auto
  define p0 where "p0 = snd (allocate 0 p)"
  have ok: "fst (allocate 0 p) \<noteq> 0" using allocate_laws(4) [OF inv(1), of 0] inv by simp
  have "pool_inv p0" "\<not> p_shutdown p0" "fst (allocate 0 p) \<in> dom (pool_heap p0)"
    using allocate_laws [OF inv(1), of 0] ok inv(2) by (auto simp: p0_def)
  from this double_free_aliases [OF this, of 1 2] show ?thesis by blast
qed

text \<open>Deallocating null or an address that is not the start of one of the pool's slots changes nothing.\<close>

lemma deallocate_foreign:
  assumes "a = 0 \<or> (\<forall>i < unat (p_size p). a \<noteq> slot_addr p i)"
  shows "deallocate a p = p"
proof (cases "a = 0")
  case False
  let ?i = "(a - p_base p) div p_slot_bytes p"
  from False assms consider "\<not> ?i < unat (p_size p)" | "a \<noteq> slot_addr p ?i" by blast
  then show ?thesis
    by cases (simp_all add: deallocate_def destroy_at_def deallocateRaw_def Let_def)
qed (simp add: deallocate_def)

lemma deallocate_foreign_witness:
  "\<exists>p :: nat pool. newPool 4096 64 3 ''pool'' = Inr p \<and> deallocate 4100 p = p \<and> deallocate 0 p = p"
proof -
  obtain p :: "nat pool" where p: "newPool 4096 64 3 ''pool'' = Inr p" by (simp add: newPool_def)
  have "4100 \<noteq> slot_addr p i" for i
    using p by (auto simp: newPool_def initializeFreeList_def slot_addr_def)
  then show ?thesis using p deallocate_foreign [of 4100 p] deallocate_foreign [of 0 p] by auto
qed

text \<open>Resetting a consistent pool is refused exactly when some object is still live; otherwise every slot is free again.\<close>

lemma reset_pool_spec:
  assumes "pool_inv p"
  shows "reset_pool p = (if pool_heap p = Map.empty then Inr (initializeFreeList p) else Inl Cannot_reset_non_empty)
    \<and> (pool_heap p = Map.empty \<longrightarrow> pool_inv (initializeFreeList p) \<and> available (initializeFreeList p) = p_size p)"
proof -
  from assms have p: "0 < unat (p_size p)" "unat (p_size p) < 2 ^ 31" "0 < p_base p" "0 < p_slot_bytes p"
    "length (p_slots p) = unat (p_size p)" by (auto elim: pool_invE)
  have "card (dom (pool_heap p)) = unat (p_allocated p)"
    using available_count_eq(2) [OF assms] by (simp add: allocated_def)
  then have c: "p_allocated p > 0 \<longleftrightarrow> pool_heap p \<noteq> Map.empty"
    using pool_live_bounds(2) [OF assms] by (auto simp: word_gt_0 unat_eq_zero [symmetric])
  have "pool_heap p = Map.empty \<Longrightarrow> pool_inv (initializeFreeList p)"
    using dom_pool_heap [OF p(4)] p by (intro pool_inv_initializeFreeList) simp_all
  moreover have "available (initializeFreeList p) = p_size p"
    by (simp add: available_def initializeFreeList_def)
  ultimately show ?thesis using c by (simp add: reset_pool_def)
qed

lemma reset_pool_spec_witness:
  "\<exists>p :: nat pool. pool_inv p \<and> reset_pool p = Inr (initializeFreeList p) \<and> available (initializeFreeList p) = 3"
proof -
  obtain p :: "nat pool" where p: "newPool 4096 64 3 ''pool'' = Inr p" by (simp add: newPool_def)
  have inv: "pool_inv p" "pool_heap p = Map.empty" "p_size p = 3" using newPool_inv [OF p] by auto
  then show ?thesis using reset_pool_spec [OF inv(1)] by auto
qed

end
