(* ===== verification/Fix_Message.thy ===== *)
theory Fix_Message
  imports Fix_Fields Std_Text Message_Pool "HOL-Library.AList"
begin

text \<open>
  \<open>FixMessage\<close> of include/protocol/fix_message.h and src/protocol/fix_message.cpp: the field table, its
  caches, serialisation, the simple parser, the checksum utilities and the factory methods on a message pool.

  The field table is an association list with distinct tags. Iterating over a \<open>std::unordered_map\<close> visits
  the entries in an order the library chooses, so the operations that iterate take that order as
  the argument \<open>ord\<close>, a function that returns a permutation of the entries.
  The clock readings \<open>creationTime_\<close>, \<open>lastModified_\<close>, \<open>processingStart_\<close> and \<open>processingEnd_\<close>, which no operation
  modelled here reads, are left out; the system clock is an argument of the operations that stamp a message.
\<close>

section \<open>The message\<close>

type_synonym fields = "(int \<times> string) list"

record fix_message =
  fm_fields :: fields
  fm_checksumValid :: bool
  fm_lengthValid :: bool
  fm_cachedString :: string
  fm_stringCacheValid :: bool
  fm_cachedMsgType :: FixMsgType
  fm_msgTypeCached :: bool

definition empty_message :: fix_message where
  "empty_message =
    \<lparr> fm_fields = [], fm_checksumValid = False, fm_lengthValid = False, fm_cachedString = [],
      fm_stringCacheValid = False, fm_cachedMsgType = UNKNOWN, fm_msgTypeCached = False \<rparr>"

definition invalidateCache :: "fix_message \<Rightarrow> fix_message" where
  "invalidateCache m =
    m\<lparr>fm_stringCacheValid := False, fm_checksumValid := False, fm_lengthValid := False,
       fm_cachedString := [], fm_msgTypeCached := False, fm_cachedMsgType := UNKNOWN\<rparr>"

definition setFieldInternal :: "int \<Rightarrow> string \<Rightarrow> fix_message \<Rightarrow> fix_message" where
  "setFieldInternal tag value m = invalidateCache (m\<lparr>fm_fields := AList.update tag value (fm_fields m)\<rparr>)"

definition setField :: "int \<Rightarrow> string \<Rightarrow> fix_message \<Rightarrow> fix_message" where
  "setField tag value m = setFieldInternal tag value m"

definition setField_int :: "int \<Rightarrow> int \<Rightarrow> fix_message \<Rightarrow> fix_message" where
  "setField_int tag value m = setFieldInternal tag (int_to_string value) m"

definition setField_char :: "int \<Rightarrow> char \<Rightarrow> fix_message \<Rightarrow> fix_message" where
  "setField_char tag value m = setFieldInternal tag [value] m"

definition getField :: "int \<Rightarrow> fix_message \<Rightarrow> string option" where
  "getField tag m = map_of (fm_fields m) tag"

text \<open>A failed conversion is caught and reported like a missing field.\<close>

definition getField_int :: "int \<Rightarrow> fix_message \<Rightarrow> int option" where
  "getField_int tag m =
    (case getField tag m of
       None \<Rightarrow> None
     | Some strValue \<Rightarrow> (case stoi strValue of Inl _ \<Rightarrow> None | Inr v \<Rightarrow> Some v))"

definition getField_char :: "int \<Rightarrow> fix_message \<Rightarrow> char option" where
  "getField_char tag m =
    (case getField tag m of
       None \<Rightarrow> None
     | Some strValue \<Rightarrow> if strValue \<noteq> [] then Some (hd strValue) else None)"

definition hasField :: "int \<Rightarrow> fix_message \<Rightarrow> bool" where
  "hasField tag m \<longleftrightarrow> map_of (fm_fields m) tag \<noteq> None"

definition removeField :: "int \<Rightarrow> fix_message \<Rightarrow> fix_message" where
  "removeField tag m =
    (if hasField tag m then invalidateCache (m\<lparr>fm_fields := AList.delete tag (fm_fields m)\<rparr>) else m)"

definition getFieldValue :: "int \<Rightarrow> fix_message \<Rightarrow> string" where
  "getFieldValue tag m = (case map_of (fm_fields m) tag of Some v \<Rightarrow> v | None \<Rightarrow> [])"

definition getMsgType :: "fix_message \<Rightarrow> string" where
  "getMsgType m = getFieldValue Tag_MsgType m"

definition getMsgSeqNum :: "fix_message \<Rightarrow> int" where
  "getMsgSeqNum m = (case getField_int Tag_MsgSeqNum m of Some n \<Rightarrow> n | None \<Rightarrow> 0)"

definition getMsgTypeEnum :: "fix_message \<Rightarrow> FixMsgType \<times> fix_message" where
  "getMsgTypeEnum m =
    (if fm_msgTypeCached m then (fm_cachedMsgType m, m)
     else case getField Tag_MsgType m of
            None \<Rightarrow> (UNKNOWN, m\<lparr>fm_cachedMsgType := UNKNOWN, fm_msgTypeCached := True\<rparr>)
          | Some s \<Rightarrow> let t = FixMsgType_fromString (Some s)
                      in (t, m\<lparr>fm_cachedMsgType := t, fm_msgTypeCached := True\<rparr>))"

section \<open>Time stamps\<close>

definition leap_year :: "nat \<Rightarrow> bool" where
  "leap_year y \<longleftrightarrow> (4 dvd y \<and> \<not> 100 dvd y) \<or> 400 dvd y"

definition year_days :: "nat \<Rightarrow> nat" where
  "year_days y = (if leap_year y then 366 else 365)"

definition month_days :: "nat \<Rightarrow> nat \<Rightarrow> nat" where
  "month_days y m = (if m = 2 then (if leap_year y then 29 else 28) else if m \<in> {4, 6, 9, 11} then 30 else 31)"

function split_year :: "nat \<Rightarrow> nat \<Rightarrow> nat \<times> nat" where
  "split_year y d = (if d < year_days y then (y, d) else split_year (y + 1) (d - year_days y))"
  by pat_completeness auto
termination
  by (relation "measure (\<lambda>(y, d). d)") (auto simp: year_days_def)

declare split_year.simps [simp del]

function split_month :: "nat \<Rightarrow> nat \<Rightarrow> nat \<Rightarrow> nat \<times> nat" where
  "split_month y m d = (if m \<ge> 12 \<or> d < month_days y m then (m, d) else split_month y (m + 1) (d - month_days y m))"
  by pat_completeness auto
termination
  by (relation "measure (\<lambda>(y, m, d). 12 - m)") auto

declare split_month.simps [simp del]

text \<open>Year, month and day of the month of a day number counted from 1 January 1970.\<close>

definition civil_date :: "nat \<Rightarrow> nat \<times> nat \<times> nat" where
  "civil_date days = (let (y, doy) = split_year 1970 days; (m, dom) = split_month y 1 doy in (y, m, dom + 1))"

text \<open>\<open>YYYYMMDD-HH:MM:SS.sss\<close> in UTC of a time given in milliseconds since the epoch.\<close>

definition formatSendingTime :: "nat \<Rightarrow> string" where
  "formatSendingTime ms =
    (let secs = ms div 1000; (y, mo, d) = civil_date (secs div 86400); sod = secs mod 86400
     in padded 4 y @ padded 2 mo @ padded 2 d @ ''-'' @ padded 2 (sod div 3600) @ '':''
        @ padded 2 (sod div 60 mod 60) @ '':'' @ padded 2 (sod mod 60) @ ''.'' @ padded 3 (ms mod 1000))"

definition setSendingTime :: "nat \<Rightarrow> fix_message \<Rightarrow> fix_message" where
  "setSendingTime now m = setField Tag_SendingTime (formatSendingTime now) m"

definition setSenderCompID :: "string \<Rightarrow> fix_message \<Rightarrow> fix_message" where
  "setSenderCompID senderID m = setField Tag_SenderCompID senderID m"

definition setTargetCompID :: "string \<Rightarrow> fix_message \<Rightarrow> fix_message" where
  "setTargetCompID targetID m = setField Tag_TargetCompID targetID m"

definition setMsgSeqNum :: "int \<Rightarrow> fix_message \<Rightarrow> fix_message" where
  "setMsgSeqNum seqNum m = setField_int Tag_MsgSeqNum seqNum m"

section \<open>Construction, copy and move\<close>

definition new_FixMessage :: "nat \<Rightarrow> fix_message" where
  "new_FixMessage now = setSendingTime now empty_message"

definition FixMessage_of_fields :: "fields \<Rightarrow> fix_message" where
  "FixMessage_of_fields fs = empty_message\<lparr>fm_fields := fs\<rparr>"

definition FixMessage_copy :: "fix_message \<Rightarrow> fix_message" where
  "FixMessage_copy other = empty_message\<lparr>fm_fields := fm_fields other\<rparr>"

text \<open>The results are the new object and the moved-from object.\<close>

definition FixMessage_move :: "fix_message \<Rightarrow> fix_message \<times> fix_message" where
  "FixMessage_move other =
    (empty_message\<lparr>fm_fields := fm_fields other, fm_checksumValid := fm_checksumValid other,
        fm_lengthValid := fm_lengthValid other, fm_cachedString := fm_cachedString other,
        fm_stringCacheValid := fm_stringCacheValid other\<rparr>,
     invalidateCache (other\<lparr>fm_fields := []\<rparr>))"

definition FixMessage_assign :: "fix_message \<Rightarrow> fix_message \<Rightarrow> fix_message" where
  "FixMessage_assign this other = invalidateCache (this\<lparr>fm_fields := fm_fields other\<rparr>)"

definition FixMessage_move_assign :: "fix_message \<Rightarrow> fix_message \<Rightarrow> fix_message \<times> fix_message" where
  "FixMessage_move_assign this other =
    (this\<lparr>fm_fields := fm_fields other, fm_checksumValid := fm_checksumValid other,
        fm_lengthValid := fm_lengthValid other, fm_cachedString := fm_cachedString other,
        fm_stringCacheValid := fm_stringCacheValid other\<rparr>,
     invalidateCache (other\<lparr>fm_fields := []\<rparr>))"

section \<open>Checksum utilities\<close>

definition byte_sum :: "string \<Rightarrow> uint8" where
  "byte_sum message = foldl (\<lambda>checksum c. checksum + of_char c) 0 message"

definition utils_calculateChecksum :: "string \<Rightarrow> string" where
  "utils_calculateChecksum message = padded 3 (unat (byte_sum message))"

text \<open>\<open>s.rfind(pat)\<close>: the last position at which the pattern occurs.\<close>

primrec rfind :: "string \<Rightarrow> string \<Rightarrow> nat option" where
  "rfind pat [] = (if pat = [] then Some 0 else None)"
| "rfind pat (x # xs) =
    (case rfind pat xs of
       Some i \<Rightarrow> Some (Suc i)
     | None \<Rightarrow> if take (length pat) (x # xs) = pat then Some 0 else None)"

definition substr :: "string \<Rightarrow> nat \<Rightarrow> nat \<Rightarrow> string" where
  "substr s pos n = take n (drop pos s)"

definition verifyChecksum :: "string \<Rightarrow> bool" where
  "verifyChecksum message =
    (case rfind ''10='' message of
       None \<Rightarrow> False
     | Some checksumPos \<Rightarrow>
         let bodyMessage = substr message 0 checksumPos;
             expectedChecksum = utils_calculateChecksum bodyMessage;
             checksumStart = checksumPos + 3;
             checksumEnd = (case find_char FIX_SOH message checksumStart of Some e \<Rightarrow> e | None \<Rightarrow> length message);
             actualChecksum = substr message checksumStart (checksumEnd - checksumStart)
         in expectedChecksum = actualChecksum)"

definition isSessionMessage :: "string \<Rightarrow> bool" where
  "isSessionMessage msgType \<longleftrightarrow>
     msgType = MsgTypes_Heartbeat \<or> msgType = MsgTypes_TestRequest \<or> msgType = MsgTypes_ResendRequest
     \<or> msgType = MsgTypes_Reject \<or> msgType = MsgTypes_SequenceReset \<or> msgType = MsgTypes_Logout
     \<or> msgType = MsgTypes_Logon"

section \<open>Validation\<close>

definition isAdminMessage :: "fix_message \<Rightarrow> bool" where
  "isAdminMessage m = isSessionMessage (getMsgType m)"

definition isApplicationMessage :: "fix_message \<Rightarrow> bool" where
  "isApplicationMessage m = (\<not> isAdminMessage m)"

definition hasRequiredSessionFields :: "fix_message \<Rightarrow> bool" where
  "hasRequiredSessionFields m \<longleftrightarrow> hasField Tag_MsgType m \<and> hasField Tag_SenderCompID m \<and> hasField Tag_TargetCompID m"

definition hasValidFormat :: "fix_message \<Rightarrow> bool" where
  "hasValidFormat m \<longleftrightarrow> fm_fields m \<noteq> []"

definition validate :: "fix_message \<Rightarrow> string list" where
  "validate m =
    (if \<not> hasRequiredSessionFields m then [''Missing required session fields''] else [])
    @ (if \<not> hasValidFormat m then [''Invalid message format''] else [])
    @ (if getMsgType m = [] then [''Missing MsgType field''] else [])
    @ (if isApplicationMessage m \<and> getMsgType m = MsgTypes_NewOrderSingle then
         (if getFieldValue Tag_ClOrdID m = [] then [''Missing ClOrdID''] else [])
         @ (if getFieldValue Tag_Symbol m = [] then [''Missing Symbol''] else [])
         @ (if getFieldValue Tag_Side m = [] then [''Missing Side''] else [])
         @ (if getFieldValue Tag_OrderQty m = [] then [''Missing OrderQty''] else [])
       else [])"

definition isValid :: "fix_message \<Rightarrow> bool" where
  "isValid m \<longleftrightarrow> validate m = []"

section \<open>Serialisation\<close>

text \<open>The text \<open>tag=value<SOH>\<close> that the stream insertions produce for one entry.\<close>

definition field_text :: "int \<times> string \<Rightarrow> string" where
  "field_text f = to_string_int (fst f) @ ''='' @ snd f @ [FIX_SOH]"

definition toStringWithoutChecksum :: "(fields \<Rightarrow> fields) \<Rightarrow> fix_message \<Rightarrow> string" where
  "toStringWithoutChecksum ord m =
     concat (map (\<lambda>f. if fst f \<noteq> Tag_CheckSum then field_text f else []) (ord (fm_fields m)))"

definition calculateBodyLength :: "(fields \<Rightarrow> fields) \<Rightarrow> fix_message \<Rightarrow> nat" where
  "calculateBodyLength ord m =
     foldl (\<lambda>len (tag, value).
              if tag \<noteq> Tag_BeginString \<and> tag \<noteq> Tag_BodyLength \<and> tag \<noteq> Tag_CheckSum
              then len + (length (to_string_int tag) + 1 + length value + 1) else len)
       0 (ord (fm_fields m))"

definition calculateChecksum :: "(fields \<Rightarrow> fields) \<Rightarrow> fix_message \<Rightarrow> string" where
  "calculateChecksum ord m = utils_calculateChecksum (toStringWithoutChecksum ord m)"

text \<open>The text built before the checksum field is appended.\<close>

definition toString_body :: "(fields \<Rightarrow> fields) \<Rightarrow> fix_message \<Rightarrow> string" where
  "toString_body ord m =
     (if hasField Tag_BeginString m then field_text (Tag_BeginString, getFieldValue Tag_BeginString m)
      else field_text (Tag_BeginString, FIX_VERSION_44))
     @ field_text (Tag_BodyLength, to_string_nat (calculateBodyLength ord m))
     @ field_text (Tag_MsgType, getMsgType m)
     @ concat (map (\<lambda>f. if fst f \<noteq> Tag_BeginString \<and> fst f \<noteq> Tag_BodyLength \<and> fst f \<noteq> Tag_MsgType \<and> fst f \<noteq> Tag_CheckSum
                          then field_text f else []) (ord (fm_fields m)))"

definition toString :: "(fields \<Rightarrow> fields) \<Rightarrow> fix_message \<Rightarrow> string \<times> fix_message" where
  "toString ord m =
    (if fm_stringCacheValid m then (fm_cachedString m, m)
     else let s = toString_body ord m @ field_text (Tag_CheckSum, calculateChecksum ord m)
          in (s, m\<lparr>fm_cachedString := s, fm_stringCacheValid := True\<rparr>))"

definition updateLengthAndChecksum :: "fix_message \<Rightarrow> fix_message" where
  "updateLengthAndChecksum m = invalidateCache m"

definition getFieldsSummary :: "fix_message \<Rightarrow> string" where
  "getFieldsSummary m =
     ''MsgType='' @ getMsgType m
     @ (if getFieldValue Tag_ClOrdID m \<noteq> [] then '' ClOrdID='' @ getFieldValue Tag_ClOrdID m else [])
     @ (if getFieldValue Tag_Symbol m \<noteq> [] then '' Symbol='' @ getFieldValue Tag_Symbol m else [])
     @ (if getFieldValue Tag_Side m \<noteq> [] then '' Side='' @ getFieldValue Tag_Side m else [])
     @ (if getMsgSeqNum m > 0 then '' MsgSeqNum='' @ to_string_int (getMsgSeqNum m) else [])"

section \<open>The simple parser\<close>

lemma index_of_Some_less: "index_of c xs = Some i \<Longrightarrow> i < length xs \<and> xs ! i = c"
  by (induction xs arbitrary: i) (auto split: if_splits)

lemma find_char_bounds: "find_char c s pos = Some i \<Longrightarrow> pos \<le> i \<and> i < length s \<and> s ! i = c"
  using index_of_Some_less by (force simp: find_char_def)

function parse_fields :: "string \<Rightarrow> nat \<Rightarrow> fields \<Rightarrow> fields" where
  "parse_fields rawMessage pos fs =
    (if pos < length rawMessage then
       case find_char (CHR ''='') rawMessage pos of
         None \<Rightarrow> fs
       | Some eqPos \<Rightarrow>
           let sohPos = (case find_char FIX_SOH rawMessage eqPos of None \<Rightarrow> length rawMessage | Some i \<Rightarrow> i);
               fs' = (case stoi (substr rawMessage pos (eqPos - pos)) of
                        Inl _ \<Rightarrow> fs
                      | Inr tag \<Rightarrow> AList.update tag (substr rawMessage (eqPos + 1) (sohPos - eqPos - 1)) fs)
           in parse_fields rawMessage (sohPos + 1) fs'
     else fs)"
  by pat_completeness auto
termination
  by (relation "measure (\<lambda>(raw, pos, fs). length raw - pos)")
    (auto dest!: find_char_bounds split: option.splits)

declare parse_fields.simps [simp del]

definition parseFromString :: "string \<Rightarrow> fix_message \<Rightarrow> fix_message" where
  "parseFromString rawMessage m = invalidateCache (m\<lparr>fm_fields := parse_fields rawMessage 0 (fm_fields m)\<rparr>)"

definition FixMessage_of_string :: "nat \<Rightarrow> string \<Rightarrow> fix_message" where
  "FixMessage_of_string now rawMessage =
    (let m = new_FixMessage now in if rawMessage \<noteq> [] then parseFromString rawMessage m else m)"

section \<open>Field names\<close>

type_synonym name_maps = "(int \<times> string) list \<times> (string \<times> int) list"

definition initializeMaps :: "name_maps \<Rightarrow> name_maps" where
  "initializeMaps maps =
    (let tagToName = fold (\<lambda>(t, n). AList.update t n)
           [(Tag_BeginString, ''BeginString''), (Tag_BodyLength, ''BodyLength''), (Tag_CheckSum, ''CheckSum''),
            (Tag_MsgType, ''MsgType''), (Tag_MsgSeqNum, ''MsgSeqNum''), (Tag_SenderCompID, ''SenderCompID''),
            (Tag_TargetCompID, ''TargetCompID''), (Tag_SendingTime, ''SendingTime''), (Tag_ClOrdID, ''ClOrdID''),
            (Tag_OrderID, ''OrderID''), (Tag_Symbol, ''Symbol''), (Tag_Side, ''Side''), (Tag_OrderQty, ''OrderQty''),
            (Tag_Price, ''Price''), (Tag_OrdType, ''OrdType''), (Tag_TimeInForce, ''TimeInForce''),
            (Tag_ExecType, ''ExecType''), (Tag_OrdStatus, ''OrdStatus'')] (fst maps)
     in (tagToName, fold (\<lambda>(t, n). AList.update n t) tagToName (snd maps)))"

definition getFieldName :: "int \<Rightarrow> name_maps \<Rightarrow> string \<times> name_maps" where
  "getFieldName fieldTag maps =
    (let maps = (if fst maps = [] then initializeMaps maps else maps)
     in ((case map_of (fst maps) fieldTag of Some n \<Rightarrow> n | None \<Rightarrow> ''Unknown''), maps))"

definition getFieldTag :: "string \<Rightarrow> name_maps \<Rightarrow> int \<times> name_maps" where
  "getFieldTag fieldName maps =
    (let maps = (if snd maps = [] then initializeMaps maps else maps)
     in ((case map_of (snd maps) fieldName of Some t \<Rightarrow> t | None \<Rightarrow> 0), maps))"

section \<open>Factory methods\<close>

text \<open>A factory allocates from the pool and sets fields through the returned pointer; null when the pool
  has no message. The fields are set in the order of the source, innermost first.\<close>

definition createLogon :: "string \<Rightarrow> string \<Rightarrow> int \<Rightarrow> int \<Rightarrow> nat \<Rightarrow> fix_message pool \<Rightarrow> addr \<times> fix_message pool" where
  "createLogon senderID targetID heartBeatInterval encryptMethod now pool =
    (let (msg, pool) = allocate (new_FixMessage now) pool
     in if msg = 0 then (0, pool)
        else (msg, modify_at msg (\<lambda>m. (setField_int Tag_EncryptMethod encryptMethod
            \<circ> setField_int Tag_HeartBtInt heartBeatInterval
            \<circ> setTargetCompID targetID
            \<circ> setSenderCompID senderID
            \<circ> setField Tag_MsgType MsgTypes_Logon) m) pool))"

definition createHeartbeat :: "string \<Rightarrow> string \<Rightarrow> nat \<Rightarrow> fix_message pool \<Rightarrow> addr \<times> fix_message pool" where
  "createHeartbeat senderID targetID now pool =
    (let (msg, pool) = allocate (new_FixMessage now) pool
     in if msg = 0 then (0, pool)
        else (msg, modify_at msg (\<lambda>m. (setTargetCompID targetID
            \<circ> setSenderCompID senderID
            \<circ> setField Tag_MsgType MsgTypes_Heartbeat) m) pool))"

definition createNewOrderSingle :: "string \<Rightarrow> string \<Rightarrow> string \<Rightarrow> string \<Rightarrow> string \<Rightarrow> string \<Rightarrow> string \<Rightarrow> nat \<Rightarrow> fix_message pool \<Rightarrow> addr \<times> fix_message pool" where
  "createNewOrderSingle clOrdID symb side orderQty price orderType timeInForce now pool =
    (let (msg, pool) = allocate (new_FixMessage now) pool
     in if msg = 0 then (0, pool)
        else (msg, modify_at msg (\<lambda>m. (setField Tag_TimeInForce timeInForce
            \<circ> setField Tag_OrdType orderType
            \<circ> setField Tag_Price price
            \<circ> setField Tag_OrderQty orderQty
            \<circ> setField Tag_Side side
            \<circ> setField Tag_Symbol symb
            \<circ> setField Tag_ClOrdID clOrdID
            \<circ> setField Tag_MsgType MsgTypes_NewOrderSingle) m) pool))"

definition createOrderCancelRequest :: "string \<Rightarrow> string \<Rightarrow> string \<Rightarrow> string \<Rightarrow> nat \<Rightarrow> fix_message pool \<Rightarrow> addr \<times> fix_message pool" where
  "createOrderCancelRequest origClOrdID clOrdID symb side now pool =
    (let (msg, pool) = allocate (new_FixMessage now) pool
     in if msg = 0 then (0, pool)
        else (msg, modify_at msg (\<lambda>m. (setField Tag_Side side
            \<circ> setField Tag_Symbol symb
            \<circ> setField Tag_ClOrdID clOrdID
            \<circ> setField Tag_OrigClOrdID origClOrdID
            \<circ> setField Tag_MsgType MsgTypes_OrderCancelRequest) m) pool))"

definition initializeSessionFields :: "string \<Rightarrow> string \<Rightarrow> int \<Rightarrow> nat \<Rightarrow> fix_message \<Rightarrow> fix_message" where
  "initializeSessionFields senderID targetID seqNum now m =
     setSendingTime now (setMsgSeqNum seqNum (setTargetCompID targetID (setSenderCompID senderID m)))"

definition setCommonSessionFields :: "string \<Rightarrow> string \<Rightarrow> nat \<Rightarrow> fix_message \<Rightarrow> fix_message" where
  "setCommonSessionFields senderID targetID now m =
     setSendingTime now (setTargetCompID targetID (setSenderCompID senderID m))"

definition initializeAsNewOrderSingle ::
  "string \<Rightarrow> string \<Rightarrow> string \<Rightarrow> string \<Rightarrow> string \<Rightarrow> string \<Rightarrow> string \<Rightarrow> fix_message \<Rightarrow> fix_message" where
  "initializeAsNewOrderSingle clOrdID symb side orderQty price orderType timeInForce m =
     (setField Tag_TimeInForce timeInForce
      \<circ> setField Tag_OrdType orderType
      \<circ> setField Tag_Price price
      \<circ> setField Tag_OrderQty orderQty
      \<circ> setField Tag_Side side
      \<circ> setField Tag_Symbol symb
      \<circ> setField Tag_ClOrdID clOrdID
      \<circ> setField Tag_MsgType MsgTypes_NewOrderSingle) m"

definition initializeAsOrderCancel :: "string \<Rightarrow> string \<Rightarrow> string \<Rightarrow> string \<Rightarrow> fix_message \<Rightarrow> fix_message" where
  "initializeAsOrderCancel origClOrdID clOrdID symb side m =
     (setField Tag_Side side
      \<circ> setField Tag_Symbol symb
      \<circ> setField Tag_ClOrdID clOrdID
      \<circ> setField Tag_OrigClOrdID origClOrdID
      \<circ> setField Tag_MsgType MsgTypes_OrderCancelRequest) m"

definition createFastOrder :: "string \<Rightarrow> string \<Rightarrow> string \<Rightarrow> string \<Rightarrow> string \<Rightarrow> nat \<Rightarrow> fix_message pool \<Rightarrow> addr \<times> fix_message pool" where
  "createFastOrder clOrdID symb side qty price now pool =
    (let (msg, pool) = allocate (new_FixMessage now) pool
     in if msg = 0 then (0, pool)
        else (msg, modify_at msg (\<lambda>m. (setField Tag_TimeInForce ''0''
            \<circ> setField Tag_OrdType ''2''
            \<circ> setField Tag_Price price
            \<circ> setField Tag_OrderQty qty
            \<circ> setField Tag_Side side
            \<circ> setField Tag_Symbol symb
            \<circ> setField Tag_ClOrdID clOrdID
            \<circ> setField Tag_MsgType MsgTypes_NewOrderSingle) m) pool))"

definition createFastCancel :: "string \<Rightarrow> string \<Rightarrow> string \<Rightarrow> nat \<Rightarrow> fix_message pool \<Rightarrow> addr \<times> fix_message pool" where
  "createFastCancel origClOrdID clOrdID symb now pool =
    (let (msg, pool) = allocate (new_FixMessage now) pool
     in if msg = 0 then (0, pool)
        else (msg, modify_at msg (\<lambda>m. (setField Tag_Symbol symb
            \<circ> setField Tag_ClOrdID clOrdID
            \<circ> setField Tag_OrigClOrdID origClOrdID
            \<circ> setField Tag_MsgType MsgTypes_OrderCancelRequest) m) pool))"

section \<open>Coherence of the caches\<close>

lemma getField_setField: "getField t (setField t' v m) = (if t = t' then Some v else getField t m)"
  by (simp add: getField_def setField_def setFieldInternal_def invalidateCache_def update_conv')

lemma getField_setField_int: "getField t (setField_int t' n m) = (if t = t' then Some (int_to_string n) else getField t m)"
  by (simp add: getField_def setField_int_def setFieldInternal_def invalidateCache_def update_conv')

lemma hasField_getField: "hasField t m \<longleftrightarrow> getField t m \<noteq> None"
  by (simp add: hasField_def getField_def)

lemma getField_invalidateCache [simp]: "getField t (invalidateCache m) = getField t m"
  by (simp add: getField_def invalidateCache_def)

definition serialise :: "(fields \<Rightarrow> fields) \<Rightarrow> fix_message \<Rightarrow> string" where
  "serialise ord m = toString_body ord m @ field_text (Tag_CheckSum, calculateChecksum ord m)"

definition msg_type_of :: "fix_message \<Rightarrow> FixMsgType" where
  "msg_type_of m = (case getField Tag_MsgType m of None \<Rightarrow> UNKNOWN | Some s \<Rightarrow> FixMsgType_fromString (Some s))"

text \<open>The tags are unique and the cached text is that of the fields; the cached message type is too.\<close>

definition text_coherent :: "(fields \<Rightarrow> fields) \<Rightarrow> fix_message \<Rightarrow> bool" where
  "text_coherent ord m \<longleftrightarrow>
     distinct (map fst (fm_fields m)) \<and> (fm_stringCacheValid m \<longrightarrow> fm_cachedString m = serialise ord m)"

definition type_coherent :: "fix_message \<Rightarrow> bool" where
  "type_coherent m \<longleftrightarrow> (fm_msgTypeCached m \<longrightarrow> fm_cachedMsgType m = msg_type_of m)"

definition coherent :: "(fields \<Rightarrow> fields) \<Rightarrow> fix_message \<Rightarrow> bool" where
  "coherent ord m \<longleftrightarrow>
     distinct (map fst (fm_fields m))
     \<and> (fm_stringCacheValid m \<longrightarrow> fm_cachedString m = serialise ord m)
     \<and> (fm_msgTypeCached m \<longrightarrow> fm_cachedMsgType m = msg_type_of m)"

lemma coherent_iff: "coherent ord m \<longleftrightarrow> text_coherent ord m \<and> type_coherent m"
  by (simp add: coherent_def text_coherent_def type_coherent_def)

text \<open>The operations on a message; after a move construction the sequence goes on with the new object or with the one that was moved from.\<close>

datatype msg_op =
    Op_setField int string
  | Op_setField_int int int
  | Op_setField_char int char
  | Op_removeField int
  | Op_setSendingTime nat
  | Op_parse string
  | Op_toString
  | Op_getMsgTypeEnum
  | Op_update
  | Op_assign fix_message
  | Op_move_assign fix_message
  | Op_copy
  | Op_move
  | Op_moved_from

fun apply_op :: "(fields \<Rightarrow> fields) \<Rightarrow> msg_op \<Rightarrow> fix_message \<Rightarrow> fix_message" where
  "apply_op ord (Op_setField t v) m = setField t v m"
| "apply_op ord (Op_setField_int t i) m = setField_int t i m"
| "apply_op ord (Op_setField_char t c) m = setField_char t c m"
| "apply_op ord (Op_removeField t) m = removeField t m"
| "apply_op ord (Op_setSendingTime now) m = setSendingTime now m"
| "apply_op ord (Op_parse raw) m = parseFromString raw m"
| "apply_op ord Op_toString m = snd (toString ord m)"
| "apply_op ord Op_getMsgTypeEnum m = snd (getMsgTypeEnum m)"
| "apply_op ord Op_update m = updateLengthAndChecksum m"
| "apply_op ord (Op_assign other) m = FixMessage_assign m other"
| "apply_op ord (Op_move_assign other) m = fst (FixMessage_move_assign m other)"
| "apply_op ord Op_copy m = FixMessage_copy m"
| "apply_op ord Op_move m = fst (FixMessage_move m)"
| "apply_op ord Op_moved_from m = snd (FixMessage_move m)"

fun op_ok :: "(fields \<Rightarrow> fields) \<Rightarrow> msg_op \<Rightarrow> bool" where
  "op_ok ord (Op_assign other) = distinct (map fst (fm_fields other))"
| "op_ok ord (Op_move_assign other) = text_coherent ord other"
| "op_ok ord _ = True"

text \<open>Whether the cached type can be relied on: not from a move assignment on, until an operation discards the cached type.\<close>

fun type_reliable :: "msg_op \<Rightarrow> bool \<Rightarrow> bool" where
  "type_reliable (Op_move_assign _) b = False"
| "type_reliable (Op_removeField _) b = b"
| "type_reliable Op_toString b = b"
| "type_reliable Op_getMsgTypeEnum b = b"
| "type_reliable _ b = True"

lemma serialise_cong: "fm_fields m' = fm_fields m \<Longrightarrow> serialise ord m' = serialise ord m"
  by (simp add: serialise_def toString_body_def calculateChecksum_def toStringWithoutChecksum_def
      calculateBodyLength_def hasField_def getFieldValue_def getMsgType_def)

lemma msg_type_of_cong: "fm_fields m' = fm_fields m \<Longrightarrow> msg_type_of m' = msg_type_of m"
  by (simp add: msg_type_of_def getField_def)

lemma coherent_distinct: "coherent ord m \<Longrightarrow> distinct (map fst (fm_fields m))"
  by (simp add: coherent_def)

lemma coherent_invalidate: "distinct (map fst (fm_fields m)) \<Longrightarrow> coherent ord (invalidateCache m)"
  by (simp add: coherent_def invalidateCache_def)

lemma fields_invalidate [simp]: "fm_fields (invalidateCache m) = fm_fields m"
  by (simp add: invalidateCache_def)

lemma distinct_parse_fields:
  "distinct (map fst fs) \<Longrightarrow> distinct (map fst (parse_fields raw pos fs))"
proof (induction raw pos fs rule: parse_fields.induct)
  case (1 raw pos fs)
  then show ?case
    by (subst parse_fields.simps) (auto simp: Let_def distinct_update split: option.split sum.split)
qed

lemma coherent_empty [simp]: "coherent ord empty_message"
  by (simp add: coherent_def empty_message_def)

lemma coherent_setField:
  "coherent ord m \<Longrightarrow> coherent ord (setFieldInternal t v m)"
  unfolding setFieldInternal_def by (rule coherent_invalidate) (simp add: coherent_def distinct_update)

lemma coherent_text: "coherent ord m \<Longrightarrow> text_coherent ord m"
  by (simp add: coherent_iff)

lemma text_coherent_distinct: "text_coherent ord m \<Longrightarrow> distinct (map fst (fm_fields m))"
  by (simp add: text_coherent_def)

text \<open>Operations that discard both caches.\<close>

lemma coherent_renewed:
  assumes "text_coherent ord m" "op_ok ord oper"
    and "case oper of Op_move_assign _ \<Rightarrow> False | Op_removeField _ \<Rightarrow> False | Op_toString \<Rightarrow> False | Op_getMsgTypeEnum \<Rightarrow> False | _ \<Rightarrow> True"
  shows "coherent ord (apply_op ord oper m)"
proof (cases oper)
  case (Op_parse raw)
  with assms show ?thesis
    by (simp add: parseFromString_def coherent_invalidate distinct_parse_fields text_coherent_distinct)
next
  case (Op_assign other)
  with assms show ?thesis by (auto simp: FixMessage_assign_def intro!: coherent_invalidate)
next
  case Op_move
  have "serialise ord (fst (FixMessage_move m)) = serialise ord m"
    by (rule serialise_cong) (simp add: FixMessage_move_def)
  with Op_move assms show ?thesis
    by (auto simp: coherent_def text_coherent_def FixMessage_move_def empty_message_def)
next
  case Op_moved_from
  then show ?thesis by (simp add: FixMessage_move_def coherent_invalidate)
next
  case Op_copy
  with assms show ?thesis by (simp add: FixMessage_copy_def coherent_def text_coherent_def empty_message_def)
qed (use assms in \<open>simp_all add: setField_def setField_int_def setField_char_def setSendingTime_def updateLengthAndChecksum_def
      setFieldInternal_def coherent_invalidate distinct_update text_coherent_distinct\<close>)

lemma getMsgTypeEnum_frame:
  "fm_fields (snd (getMsgTypeEnum m)) = fm_fields m" "fm_stringCacheValid (snd (getMsgTypeEnum m)) = fm_stringCacheValid m"
  "fm_cachedString (snd (getMsgTypeEnum m)) = fm_cachedString m"
  by (simp_all add: getMsgTypeEnum_def Let_def split: option.split)

lemma toString_frame:
  "fm_fields (snd (toString ord m)) = fm_fields m" "fm_msgTypeCached (snd (toString ord m)) = fm_msgTypeCached m"
  "fm_cachedMsgType (snd (toString ord m)) = fm_cachedMsgType m"
  by (simp_all add: toString_def Let_def)

lemma type_coherent_cong:
  "fm_fields m' = fm_fields m \<Longrightarrow> fm_msgTypeCached m' = fm_msgTypeCached m \<Longrightarrow> fm_cachedMsgType m' = fm_cachedMsgType m \<Longrightarrow> type_coherent m' = type_coherent m"
  by (simp add: type_coherent_def msg_type_of_cong [of m' m])

lemma text_coherent_cong:
  "fm_fields m' = fm_fields m \<Longrightarrow> fm_stringCacheValid m' = fm_stringCacheValid m \<Longrightarrow> fm_cachedString m' = fm_cachedString m
   \<Longrightarrow> text_coherent ord m' = text_coherent ord m"
  by (simp add: text_coherent_def serialise_cong [of m' m])

text \<open>Every operation keeps the text coherent, and the type as long as it can be relied on.\<close>

lemma coherent_apply_op:
  assumes "text_coherent ord m" "b \<longrightarrow> type_coherent m" "op_ok ord oper"
  shows "text_coherent ord (apply_op ord oper m) \<and> (type_reliable oper b \<longrightarrow> type_coherent (apply_op ord oper m))"
proof (cases oper)
  case (Op_removeField t)
  have "coherent ord (invalidateCache (m\<lparr>fm_fields := AList.delete t (fm_fields m)\<rparr>))"
    using assms(1) by (intro coherent_invalidate) (simp add: distinct_delete text_coherent_distinct)
  with Op_removeField assms(1,2) show ?thesis by (simp add: removeField_def coherent_iff)
next
  case Op_toString
  have "text_coherent ord (snd (toString ord m))"
    using assms(1) by (auto simp: toString_def text_coherent_def serialise_def Let_def toString_body_def
        calculateChecksum_def toStringWithoutChecksum_def calculateBodyLength_def hasField_def getFieldValue_def getMsgType_def)
  with Op_toString assms(2) show ?thesis by (simp add: type_coherent_cong [OF toString_frame])
next
  case Op_getMsgTypeEnum
  have "type_coherent (snd (getMsgTypeEnum m))" if "type_coherent m"
    using that msg_type_of_cong [OF getMsgTypeEnum_frame(1), of m]
    by (auto simp: type_coherent_def getMsgTypeEnum_def msg_type_of_def Let_def split: option.split)
  with Op_getMsgTypeEnum assms(1,2) show ?thesis by (simp add: text_coherent_cong [OF getMsgTypeEnum_frame])
next
  case (Op_move_assign other)
  have "text_coherent ord (fst (FixMessage_move_assign m other)) = text_coherent ord other"
    by (rule text_coherent_cong) (simp_all add: FixMessage_move_assign_def)
  with Op_move_assign assms(3) show ?thesis by simp
qed (use coherent_renewed [OF assms(1,3)] in \<open>simp_all add: coherent_iff\<close>)

lemma coherent_fold:
  assumes "text_coherent ord m" "b \<longrightarrow> type_coherent m" "list_all (op_ok ord) ops"
  shows "text_coherent ord (fold (apply_op ord) ops m) \<and> (fold type_reliable ops b \<longrightarrow> type_coherent (fold (apply_op ord) ops m))"
  using assms
proof (induction ops arbitrary: m b)
  case (Cons oper ops)
  from coherent_apply_op [OF Cons.prems(1,2), of oper] Cons.prems(3) Cons.IH [of "apply_op ord oper m" "type_reliable oper b"]
  show ?case by simp
qed simp

lemma type_coherent_query: "type_coherent m \<Longrightarrow> fst (getMsgTypeEnum m) = msg_type_of m"
  by (auto simp: type_coherent_def getMsgTypeEnum_def msg_type_of_def Let_def split: option.split)

lemma coherent_new: "coherent ord (new_FixMessage now)"
  by (simp add: new_FixMessage_def setSendingTime_def setField_def coherent_setField)

text \<open>C26: The cached serialisation is never stale: after any sequence of field updates, removals, parses, copies, assignments and moves of both kinds
  and queries on a new message, \<open>toString()\<close> returns the serialisation of the current fields, and every tag occurs once. The cached message type is
  not stale either, \<open>getMsgTypeEnum()\<close> returns the type of the current MsgType field, unless there was a move assignment
  since the last operation that discards the cache. A move assignment keeps a cached type of the target: the query then returns
  what it returned before, whatever was moved in, and the type of the message moved in when no type was cached. The messages assigned from
  have unique tags, and those moved from a text cache that is not stale.\<close>

theorem caches_coherent:
  assumes "list_all (op_ok ord) ops"
  shows "let m = fold (apply_op ord) ops (new_FixMessage now) in
    fst (toString ord m) = serialise ord m \<and> distinct (map fst (fm_fields m))
    \<and> (fold type_reliable ops True \<longrightarrow> fst (getMsgTypeEnum m) = msg_type_of m)
    \<and> fst (getMsgTypeEnum (apply_op ord (Op_move_assign other) m)) = (if fm_msgTypeCached m then fst (getMsgTypeEnum m) else msg_type_of other)"
proof -
  let ?m = "fold (apply_op ord) ops (new_FixMessage now)"
  have c: "text_coherent ord ?m" "fold type_reliable ops True \<longrightarrow> type_coherent ?m"
    using coherent_fold [of ord "new_FixMessage now" True ops] coherent_new [of ord now] assms by (simp_all add: coherent_iff)
  have "fst (toString ord ?m) = serialise ord ?m" "distinct (map fst (fm_fields ?m))"
    using c(1) by (simp_all add: text_coherent_def toString_def serialise_def Let_def)
  moreover have "fst (getMsgTypeEnum (fst (FixMessage_move_assign m other))) = (if fm_msgTypeCached m then fst (getMsgTypeEnum m) else msg_type_of other)" for m
    by (simp add: FixMessage_move_assign_def getMsgTypeEnum_def msg_type_of_def getField_def Let_def split: option.split)
  ultimately show ?thesis using c(2) type_coherent_query by (simp add: Let_def)
qed

lemma caches_coherent_witness:
  "let ops = [Op_setField 35 ''0'', Op_getMsgTypeEnum, Op_toString, Op_move_assign (setField 35 ''A'' empty_message), Op_setField 35 ''5''];
       m = fold (apply_op id) ops (new_FixMessage 0)
   in fst (toString id m) = serialise id m \<and> distinct (map fst (fm_fields m)) \<and> fst (getMsgTypeEnum m) = msg_type_of m
     \<and> fold type_reliable ops True"
proof -
  let ?ops = "[Op_setField 35 ''0'', Op_getMsgTypeEnum, Op_toString, Op_move_assign (setField 35 ''A'' empty_message), Op_setField 35 ''5'']"
  have "text_coherent id (setField 35 ''A'' empty_message)" by (rule coherent_text) (simp add: setField_def coherent_setField)
  then have "list_all (op_ok id) ?ops" by simp
  from caches_coherent [OF this, of 0] show ?thesis by (simp add: Let_def)
qed

text \<open>Move assignment keeps the target's cached message type: after the type of the target has been queried, moving
  another message into it makes \<open>getMsgTypeEnum()\<close> return the old type, not the type of the fields it now holds.\<close>

lemma move_assign_stale_type:
  assumes "coherent ord m" "msg_type_of m \<noteq> msg_type_of other"
  shows "let target = fst (FixMessage_move_assign (snd (getMsgTypeEnum m)) other)
    in fst (getMsgTypeEnum target) = msg_type_of m \<and> msg_type_of target = msg_type_of other \<and> \<not> coherent ord target"
proof -
  define q where "q = snd (getMsgTypeEnum m)"
  define target where "target = fst (FixMessage_move_assign q other)"
  have "fm_msgTypeCached q \<and> fm_cachedMsgType q = msg_type_of m"
    using assms(1) by (auto simp: q_def getMsgTypeEnum_def coherent_def msg_type_of_def Let_def split: option.split)
  then have "fm_msgTypeCached target" "fm_cachedMsgType target = msg_type_of m"
    by (simp_all add: target_def FixMessage_move_assign_def)
  moreover have "msg_type_of target = msg_type_of other"
    by (rule msg_type_of_cong) (simp add: target_def FixMessage_move_assign_def)
  ultimately show ?thesis
    using assms(2) unfolding q_def [symmetric] target_def [symmetric]
    by (simp add: getMsgTypeEnum_def coherent_def)
qed

lemma move_assign_stale_type_witness:
  "fst (getMsgTypeEnum (fst (FixMessage_move_assign (snd (getMsgTypeEnum (setField 35 ''0'' empty_message))) (setField 35 ''A'' empty_message))))
   = HEARTBEAT"
proof -
  have "msg_type_of (setField 35 ''0'' empty_message) = HEARTBEAT" "msg_type_of (setField 35 ''A'' empty_message) = LOGON"
    by code_simp+
  moreover have "coherent id (setField 35 ''0'' empty_message)" by (simp add: setField_def coherent_setField)
  ultimately show ?thesis
    using move_assign_stale_type [of id "setField 35 ''0'' empty_message" "setField 35 ''A'' empty_message"]
    by (simp add: Let_def)
qed

end
