(* ===== verification/Parser_Types.thy ===== *)
theory Parser_Types
  imports Fix_Message
begin

text \<open>
  Vocabulary of \<open>StreamFixParser\<close> (include/protocol/stream_fix_parser.h): states, statuses, results, statistics, the parse
  context and the parser object, reading bytes through a pointer, and \<open>parseInteger\<close>.

  A pointer with a length is the list of the bytes that may be read from it on, which can be longer
  than the stated length; reading past that list, and overflow of an \<open>int\<close>, have no defined meaning in C++ and
  give \<open>Undefined\<close>. The debugging text \<open>error_detail\<close> is not modelled. The clocks are arguments:
  a steady clock in nanoseconds, the system clock in milliseconds, and the measured parse time; one reading of each is used per call.
\<close>

section \<open>Outcomes\<close>

datatype 'a outcome = Returns 'a | Throws std_exception | Undefined

section \<open>States, statuses and results\<close>

datatype parse_state =
    IDLE
  | PARSING_BEGIN_STRING
  | PARSING_BODY_LENGTH
  | PARSING_TAG
  | EXPECTING_EQUALS
  | PARSING_VALUE
  | EXPECTING_SOH
  | PARSING_CHECKSUM
  | MESSAGE_COMPLETE
  | ERROR_RECOVERY
  | CORRUPTED_SKIP

datatype parse_status =
    Success
  | NeedMoreData
  | FinishedParsingFields
  | InvalidFormat
  | ChecksumError
  | AllocationFailed
  | MessageTooLarge
  | UnsupportedVersion
  | StateTransitionError
  | FieldParseError
  | RecoverySuccess
  | CorruptedData

record parse_result =
  pr_status :: parse_status
  pr_bytes :: nat
  pr_message :: addr
  pr_state :: parse_state
  pr_error_pos :: nat

definition result :: "parse_status \<Rightarrow> nat \<Rightarrow> addr \<Rightarrow> parse_state \<Rightarrow> nat \<Rightarrow> parse_result" where
  "result st n a s e = \<lparr> pr_status = st, pr_bytes = n, pr_message = a, pr_state = s, pr_error_pos = e \<rparr>"

lemma result_sel [simp]:
  "pr_status (result st n a s e) = st" "pr_bytes (result st n a s e) = n" "pr_message (result st n a s e) = a"
  "pr_state (result st n a s e) = s" "pr_error_pos (result st n a s e) = e"
  by (simp_all add: result_def)

section \<open>The parser object\<close>

record parser_stats =
  st_messages_parsed :: uint64
  st_parse_errors :: uint64
  st_checksum_errors :: uint64
  st_allocation_failures :: uint64
  st_total_parse_time :: uint64
  st_max_parse_time :: uint64
  st_min_parse_time :: uint64
  st_state_transitions :: uint64
  st_partial_handled :: uint64
  st_error_recoveries :: uint64
  st_corrupted_skipped :: uint64
  st_field_parse_errors :: uint64
  st_errors_by_state :: "parse_state \<Rightarrow> uint64"
  st_error_frequency :: "parse_status \<Rightarrow> uint64"

definition reset_stats :: parser_stats where
  "reset_stats =
    \<lparr> st_messages_parsed = 0, st_parse_errors = 0, st_checksum_errors = 0, st_allocation_failures = 0,
      st_total_parse_time = 0, st_max_parse_time = 0, st_min_parse_time = - 1,
      st_state_transitions = 0, st_partial_handled = 0, st_error_recoveries = 0,
      st_corrupted_skipped = 0, st_field_parse_errors = 0,
      st_errors_by_state = (\<lambda>_. 0), st_error_frequency = (\<lambda>_. 0) \<rparr>"

record parse_context =
  cx_state :: parse_state
  cx_buffer_position :: nat
  cx_message_start :: nat
  cx_expected_body_length :: nat
  cx_current_message_length :: nat
  cx_msg_type :: string
  cx_field_tag :: int
  cx_partial_value :: string
  cx_field_start :: nat
  cx_parsed_fields :: fields
  cx_body_bytes :: nat
  cx_error_count :: nat
  cx_consecutive_errors :: nat
  cx_last_error_time :: nat

text \<open>The error counters survive a reset.\<close>

definition reset_context :: "parse_context \<Rightarrow> parse_context" where
  "reset_context c =
    c\<lparr>cx_state := IDLE, cx_buffer_position := 0, cx_message_start := 0, cx_expected_body_length := 0,
      cx_current_message_length := 0, cx_msg_type := [], cx_field_tag := 0, cx_partial_value := [],
      cx_field_start := 0, cx_parsed_fields := [], cx_body_bytes := 0\<rparr>"

definition initial_context :: parse_context where
  "initial_context =
    \<lparr> cx_state = IDLE, cx_buffer_position = 0, cx_message_start = 0, cx_expected_body_length = 0,
      cx_current_message_length = 0, cx_msg_type = [], cx_field_tag = 0, cx_partial_value = [],
      cx_field_start = 0, cx_parsed_fields = [], cx_body_bytes = 0,
      cx_error_count = 0, cx_consecutive_errors = 0, cx_last_error_time = 0 \<rparr>"

record clock =
  ck_steady :: nat
  ck_system :: nat
  ck_parse_time :: uint64

definition PARTIAL_BUFFER_SIZE :: nat where
  "PARTIAL_BUFFER_SIZE = 65536"

record parser =
  ps_pool :: "fix_message pool"
  ps_max_message_size :: nat
  ps_validate_checksum :: bool
  ps_strict_validation :: bool
  ps_max_consecutive_errors :: nat
  ps_error_recovery_enabled :: bool
  ps_partial :: string
  ps_partial_size :: nat
  ps_stats :: parser_stats
  ps_ctx :: parse_context
  ps_breaker_last_reset :: nat
  ps_breaker_active :: bool

text \<open>A parser on a pool; \<open>garbage\<close> is the uninitialised content of the partial buffer.\<close>

definition new_parser :: "string \<Rightarrow> clock \<Rightarrow> fix_message pool \<Rightarrow> parser" where
  "new_parser garbage ck pool =
    \<lparr> ps_pool = pool, ps_max_message_size = 8192, ps_validate_checksum = True, ps_strict_validation = True,
      ps_max_consecutive_errors = 10, ps_error_recovery_enabled = True,
      ps_partial = garbage, ps_partial_size = 0, ps_stats = reset_stats,
      ps_ctx = reset_context initial_context,
      ps_breaker_last_reset = ck_steady ck, ps_breaker_active = False \<rparr>"

section \<open>Reading bytes\<close>

text \<open>\<open>memchr(mem + pos, c, n)\<close>: bytes are read in order until the byte is found.\<close>

datatype search_result = Found nat | NotFound | OutOfBounds

definition memchr :: "string \<Rightarrow> nat \<Rightarrow> nat \<Rightarrow> char \<Rightarrow> search_result" where
  "memchr mem pos n c =
    (case index_of c (take n (drop pos mem)) of
       Some i \<Rightarrow> Found (pos + i)
     | None \<Rightarrow> if pos + n > length mem then OutOfBounds else NotFound)"

text \<open>\<open>std::search\<close> for a non-empty pattern.\<close>

primrec search :: "string \<Rightarrow> string \<Rightarrow> nat option" where
  "search pat [] = None"
| "search pat (x # xs) = (if take (length pat) (x # xs) = pat then Some 0 else map_option Suc (search pat xs))"

text \<open>Comparing with a pattern byte by byte, with short-circuit evaluation; \<open>None\<close> when a byte outside the readable memory is needed.\<close>

fun match_at :: "string \<Rightarrow> string \<Rightarrow> bool option" where
  "match_at [] mem = Some True"
| "match_at (c # cs) [] = None"
| "match_at (c # cs) (x # xs) = (if x = c then match_at cs xs else Some False)"

lemma match_at_append [simp]: "match_at pat (pat @ xs) = Some True"
  by (induction pat) simp_all

lemma match_at_cut: "k < length pat \<Longrightarrow> match_at pat (take k pat) = None"
  by (induction pat arbitrary: k) (auto simp: take_Cons split: nat.split)

section \<open>parseInteger\<close>

datatype int_result = Int_Ok int | Int_Fail | Int_Overflow

fun parse_int_loop :: "int \<Rightarrow> string \<Rightarrow> int_result" where
  "parse_int_loop acc [] = Int_Ok acc"
| "parse_int_loop acc (c # cs) =
    (if \<not> is_digit c then Int_Fail
     else let v = acc * 10 + int (digit_value c)
          in if v > INT_MAX then Int_Overflow else parse_int_loop v cs)"

definition parseInteger :: "string \<Rightarrow> int_result" where
  "parseInteger s = (if s = [] then Int_Fail else parse_int_loop 0 s)"

lemma foldl_digits_mono: "m \<le> foldl (\<lambda>v c. v * 10 + digit_value c) m ds"
proof (induction ds arbitrary: m)
  case (Cons c ds)
  have "m \<le> m * 10 + digit_value c" by simp
  also have "\<dots> \<le> foldl (\<lambda>v c. v * 10 + digit_value c) (m * 10 + digit_value c) ds" by (rule Cons.IH)
  finally show ?case by simp
qed simp

lemma parse_int_loop_digits:
  assumes "\<forall>c \<in> set ds. is_digit c" "int (foldl (\<lambda>v c. v * 10 + digit_value c) n ds) \<le> INT_MAX"
  shows "parse_int_loop (int n) ds = Int_Ok (int (foldl (\<lambda>v c. v * 10 + digit_value c) n ds))"
  using assms
proof (induction ds arbitrary: n)
  case (Cons c cs)
  have "int (n * 10 + digit_value c) \<le> INT_MAX"
    using foldl_digits_mono [of "n * 10 + digit_value c" cs] Cons.prems(2) by simp
  with Cons.IH [of "n * 10 + digit_value c"] Cons.prems show ?case
    by (simp add: Let_def)
qed simp

lemma parseInteger_digits:
  assumes "ds \<noteq> []" "\<forall>c \<in> set ds. is_digit c" "int (digits_value ds) \<le> INT_MAX"
  shows "parseInteger ds = Int_Ok (int (digits_value ds))"
  using assms parse_int_loop_digits [of ds 0] by (simp add: parseInteger_def digits_value_def)

lemma parseInteger_to_string_nat [simp]:
  "int n \<le> INT_MAX \<Longrightarrow> parseInteger (to_string_nat n) = Int_Ok (int n)"
  using parseInteger_digits [of "to_string_nat n"] to_string_nat_digits [of n] by simp

lemma parse_int_loop_sound:
  "parse_int_loop (int a) s = Int_Ok v \<Longrightarrow> int a \<le> INT_MAX \<Longrightarrow>
    (\<forall>c \<in> set s. is_digit c) \<and> v = int (foldl (\<lambda>v c. v * 10 + digit_value c) a s) \<and> v \<le> INT_MAX"
proof (induction s arbitrary: a)
  case (Cons c cs)
  then have c: "is_digit c" "int (a * 10 + digit_value c) \<le> INT_MAX"
    "parse_int_loop (int (a * 10 + digit_value c)) cs = Int_Ok v"
    by (auto simp: Let_def split: if_splits)
  with Cons.IH [OF c(3) c(2)] show ?case by simp
qed simp

lemma parseInteger_sound:
  "parseInteger s = Int_Ok v \<Longrightarrow> s \<noteq> [] \<and> (\<forall>c \<in> set s. is_digit c) \<and> v = int (digits_value s) \<and> v \<le> INT_MAX"
  using parse_int_loop_sound [of 0 s v] by (auto simp: parseInteger_def digits_value_def INT_MAX_def split: if_splits)

end
