(* ===== verification/Parser_Framing.thy ===== *)
theory Parser_Framing
  imports Parser_Types
begin

text \<open>
  Stage 1 of \<open>StreamFixParser\<close> (src/protocol/stream_fix_parser.cpp): \<open>findCompleteMessage\<close> locates the boundaries of
  one message from its BeginString and BodyLength fields. The last check of the function
  only selects the wording of the result and is not represented.
\<close>

definition FIX_BEGIN_STRING :: string where
  "FIX_BEGIN_STRING = ''8=FIX.4.4''"

text \<open>The bytes \<open>buffer[0..length)\<close> are the argument; the results are the status record, the message start and
  the message end.\<close>

definition findCompleteMessage :: "string \<Rightarrow> parser \<Rightarrow> (parse_result \<times> nat \<times> nat) outcome \<times> parser" where
  "findCompleteMessage buf p =
    (if length buf < 10 then (Returns (result NeedMoreData 0 0 IDLE 0, 0, 0), p)
     else case search ''8='' buf of
       None \<Rightarrow> (Returns (result InvalidFormat 0 0 IDLE 0, 0, 0), p)
     | Some tag8 \<Rightarrow>
       if length buf - tag8 < length FIX_BEGIN_STRING
       then (Returns (result NeedMoreData 0 0 PARSING_BEGIN_STRING 0, 0, 0), p)
       else if substr buf tag8 (length FIX_BEGIN_STRING) \<noteq> FIX_BEGIN_STRING
       then (Returns (result InvalidFormat tag8 0 ERROR_RECOVERY 0, 0, 0), p)
       else case find_char FIX_SOH buf tag8 of
         None \<Rightarrow> (Returns (result NeedMoreData 0 0 PARSING_BEGIN_STRING 0, tag8, 0), p)
       | Some soh \<Rightarrow>
         let cur = soh + 1
         in if cur + 4 > length buf
            then (Returns (result NeedMoreData 0 0 PARSING_BODY_LENGTH 0, tag8, 0), p)
            else if buf ! cur \<noteq> CHR ''9'' \<or> buf ! (cur + 1) \<noteq> CHR ''=''
            then (Returns (result InvalidFormat cur 0 ERROR_RECOVERY 0, tag8, 0), p)
            else let body_length_start = cur + 2
                 in case find_char FIX_SOH buf body_length_start of
                      None \<Rightarrow> (Returns (result NeedMoreData 0 0 PARSING_BODY_LENGTH 0, tag8, 0), p)
                    | Some body_length_end \<Rightarrow>
                      (case parseInteger (substr buf body_length_start (body_length_end - body_length_start)) of
                         Int_Overflow \<Rightarrow> (Undefined, p)
                       | Int_Fail \<Rightarrow> (Returns (result InvalidFormat body_length_start 0 ERROR_RECOVERY 0, tag8, 0), p)
                       | Int_Ok body_length \<Rightarrow>
                         if body_length \<le> 0 \<or> body_length > to_int32 (ps_max_message_size p)
                         then (Returns (result InvalidFormat body_length_start 0 ERROR_RECOVERY 0, tag8, 0), p)
                         else let p = p\<lparr>ps_ctx := (ps_ctx p)\<lparr>cx_expected_body_length := nat body_length\<rparr>\<rparr>;
                                  header_size = (body_length_end + 1) - tag8;
                                  message_end = tag8 + header_size + nat body_length
                              in if message_end > length buf
                                 then (Returns (result NeedMoreData 0 0 PARSING_TAG 0, tag8, message_end), p)
                                 else (Returns (result Success 0 0 IDLE 0, tag8, message_end), p)))"

lemma findCompleteMessage_bounds:
  assumes "findCompleteMessage buf p = (Returns (r, st, en), q)" "pr_status r = Success"
  shows "st < en \<and> en \<le> length buf"
  using assms
  by (auto simp: findCompleteMessage_def Let_def result_def split: if_splits option.splits int_result.splits)

lemma findCompleteMessage_frame:
  assumes "findCompleteMessage buf p = (out, q)"
  shows "\<exists>n. q = p\<lparr>ps_ctx := (ps_ctx p)\<lparr>cx_expected_body_length := n\<rparr>\<rparr>"
proof -
  have same: "\<exists>n. p = p\<lparr>ps_ctx := (ps_ctx p)\<lparr>cx_expected_body_length := n\<rparr>\<rparr>" for p :: parser
    by (rule exI [of _ "cx_expected_body_length (ps_ctx p)"]) simp
  show ?thesis
    using assms same by (auto simp: findCompleteMessage_def Let_def split: if_splits option.splits int_result.splits)
qed

lemma findCompleteMessage_message:
  "findCompleteMessage buf p = (Returns (r, st, en), q) \<Longrightarrow> pr_message r = 0"
  by (auto simp: findCompleteMessage_def Let_def result_def split: if_splits option.splits int_result.splits)

section \<open>Frames\<close>

text \<open>A frame as the framing stage understands it: BeginString, BodyLength announcing the body, and the body.\<close>

definition frame_header :: "nat \<Rightarrow> string" where
  "frame_header n = FIX_BEGIN_STRING @ [FIX_SOH] @ ''9='' @ to_string_nat n @ [FIX_SOH]"

definition frame :: "string \<Rightarrow> string" where
  "frame body = frame_header (length body) @ body"

lemma frame_expand:
  "frame body @ rest = ''8=FIX.4.4'' @ FIX_SOH # ''9='' @ to_string_nat (length body) @ FIX_SOH # body @ rest"
  by (simp add: frame_def frame_header_def FIX_BEGIN_STRING_def)

lemma length_frame: "length (frame body) = 13 + length (to_string_nat (length body)) + length body"
  by (simp add: frame_def frame_header_def FIX_BEGIN_STRING_def)

lemma length_begin_string [simp]: "length FIX_BEGIN_STRING = 9"
  by (simp add: FIX_BEGIN_STRING_def)

lemma soh_not_in_begin: "FIX_SOH \<notin> set ''8=FIX.4.4''"
  by (simp add: FIX_SOH_def)

lemma soh_not_in_digits: "FIX_SOH \<notin> set (to_string_nat n)"
  unfolding FIX_SOH_def by (rule digits_avoid [OF to_string_nat_digits]) simp

text \<open>One equation covers every way the first \<open>k\<close> bytes of a frame, and what follows it, can be presented.\<close>

lemma findCompleteMessage_take:
  assumes s_def: "s = frame body @ rest" and k: "k \<le> length s"
    and len: "0 < length body" "int (length body) \<le> to_int32 (ps_max_message_size p)" "int (length body) \<le> INT_MAX"
  shows "findCompleteMessage (take k s) p =
    (if k < 10 then (Returns (result NeedMoreData 0 0 IDLE 0, 0, 0), p)
     else if k < 14 \<or> k \<le> 12 + length (to_string_nat (length body))
     then (Returns (result NeedMoreData 0 0 PARSING_BODY_LENGTH 0, 0, 0), p)
     else (Returns (result (if k < length (frame body) then NeedMoreData else Success) 0 0
                      (if k < length (frame body) then PARSING_TAG else IDLE) 0, 0, length (frame body)),
           p\<lparr>ps_ctx := (ps_ctx p)\<lparr>cx_expected_body_length := length body\<rparr>\<rparr>))"
proof -
  let ?ds = "to_string_nat (length body)"
  have s: "s = ''8=FIX.4.4'' @ FIX_SOH # ''9='' @ ?ds @ FIX_SOH # body @ rest"
    unfolding s_def by (rule frame_expand)
  have lf: "length (frame body) = 13 + length ?ds + length body" by (rule length_frame)
  define buf where "buf = take k s"
  have lb: "length buf = k" using k by (simp add: buf_def)
  note fcm = findCompleteMessage_def [of buf p]
  show ?thesis
  proof (cases "k < 10")
    case True
    then show ?thesis by (simp add: buf_def [symmetric] fcm lb)
  next
    case k10: False
    have pre9: "take 9 buf = ''8=FIX.4.4''" using k10 by (simp add: buf_def s min_def)
    then have b0: "search ''8='' buf = Some 0" using k10 lb by (cases buf; cases "tl buf") (auto simp: eval_nat_numeral)
    have sub: "substr buf 0 9 = FIX_BEGIN_STRING" using pre9 by (simp add: substr_def FIX_BEGIN_STRING_def)
    have soh1: "find_char FIX_SOH buf 0 = Some 9"
      using find_char_take [OF soh_not_in_begin, of "[]" 0 k] k10 by (simp add: buf_def s)
    show ?thesis
    proof (cases "k < 14")
      case True
      then show ?thesis using k10 by (simp add: buf_def [symmetric] fcm lb b0 sub soh1)
    next
      case k14: False
      have nine: "buf ! 10 = CHR ''9''" "buf ! 11 = CHR ''=''"
        using k14 by (simp_all add: buf_def s)
      have soh2: "find_char FIX_SOH buf 12 = (if k \<le> 12 + length ?ds then None else Some (12 + length ?ds))"
        using find_char_take [OF soh_not_in_digits, of "''8=FIX.4.4'' @ FIX_SOH # ''9=''" 12 k]
        by (simp add: buf_def s)
      have val: "substr buf 12 (length ?ds) = ?ds" if "12 + length ?ds < k"
        using that by (simp add: substr_def buf_def s drop_take min_def)
      show ?thesis
        using k14 k10 val len by (simp add: buf_def [symmetric] fcm lb b0 sub soh1 nine soh2 lf Let_def)
    qed
  qed
qed

end
