(* ===== verification/Parser_Decode.thy ===== *)
theory Parser_Decode
  imports Parser_Framing
begin

text \<open>
  Stage 2 of \<open>StreamFixParser\<close>: decoding one framed message. \<open>parseMessage\<close> is the generic decoder of
  src/protocol/stream_fix_parser.cpp; the six specialisations of \<open>OptimizedParser\<close> in include/protocol/stream_fix_parser.h share one body that differs in
  the minimum length, the treatment of a missing terminator, whether the MsgType is checked and whether errors carry a position;
  \<open>parseIntelligent\<close> and \<open>parseCompleteMessage\<close> dispatch to them.

  The object a message pointer refers to is modified as a local value and written back to its slot before the function returns or throws;
  on the error paths the slot is deallocated.
\<close>

section \<open>Messages in the pool\<close>

definition new_message :: "clock \<Rightarrow> parser \<Rightarrow> addr \<times> parser" where
  "new_message ck p =
    (let (a, pool) = allocate (new_FixMessage (ck_system ck)) (ps_pool p) in (a, p\<lparr>ps_pool := pool\<rparr>))"

definition store_message :: "addr \<Rightarrow> fix_message \<Rightarrow> parser \<Rightarrow> parser" where
  "store_message a m p = p\<lparr>ps_pool := modify_at a (\<lambda>_. m) (ps_pool p)\<rparr>"

definition free_message :: "addr \<Rightarrow> parser \<Rightarrow> parser" where
  "free_message a p = p\<lparr>ps_pool := deallocate a (ps_pool p)\<rparr>"

section \<open>The generic decoder\<close>

definition validateParsedMessage :: "fix_message \<Rightarrow> bool" where
  "validateParsedMessage m \<longleftrightarrow>
     hasField Tag_BeginString m \<and> hasField Tag_BodyLength m \<and> hasField Tag_MsgType m \<and> hasField Tag_CheckSum m"

text \<open>The argument is \<open>buffer[0..length)\<close>.\<close>

definition validateMessageChecksum :: "string \<Rightarrow> bool" where
  "validateMessageChecksum buf =
    (if length buf < 7 then False
     else let pos = length buf - 7
          in if buf ! pos \<noteq> CHR ''1'' \<or> buf ! (pos + 1) \<noteq> CHR ''0'' \<or> buf ! (pos + 2) \<noteq> CHR ''='' then False
             else let calculated = byte_sum (take pos buf)
                  in case parseInteger (substr buf (pos + 3) 3) of
                       Int_Ok expected \<Rightarrow> calculated = of_int expected
                     | _ \<Rightarrow> False)"

datatype field_loop = Fields_Done fix_message | Fields_Error parse_status nat | Fields_Undefined

lemma find_char_lt: "find_char c s pos = Some i \<Longrightarrow> pos \<le> i \<and> i < length s"
  using find_char_bounds by blast

function message_fields :: "string \<Rightarrow> nat \<Rightarrow> fix_message \<Rightarrow> field_loop" where
  "message_fields buf cur m =
    (if cur < length buf then
       case find_char (CHR ''='') buf cur of
         None \<Rightarrow> Fields_Error InvalidFormat cur
       | Some eq \<Rightarrow>
         (case parseInteger (substr buf cur (eq - cur)) of
            Int_Overflow \<Rightarrow> Fields_Undefined
          | Int_Fail \<Rightarrow> Fields_Error InvalidFormat cur
          | Int_Ok field_tag \<Rightarrow>
            (case find_char FIX_SOH buf (eq + 1) of
               None \<Rightarrow> Fields_Error InvalidFormat (eq + 1)
             | Some soh \<Rightarrow>
               let m = setField field_tag (substr buf (eq + 1) (soh - (eq + 1))) m
               in if field_tag = Tag_CheckSum then Fields_Done m
                  else message_fields buf (soh + 1) m))
     else Fields_Done m)"
  by pat_completeness auto
termination
  by (relation "measure (\<lambda>(buf, cur, m). length buf - cur)") (auto dest!: find_char_lt)

declare message_fields.simps [simp del]

text \<open>The buffer is \<open>buffer[0..end_pos)\<close>.\<close>

definition parseMessage :: "clock \<Rightarrow> string \<Rightarrow> nat \<Rightarrow> parser \<Rightarrow> parse_result outcome \<times> parser" where
  "parseMessage ck buf start_pos p =
    (let (message, p) = new_message ck p
     in if message = 0 then (Returns (result AllocationFailed 0 0 IDLE 0), p)
        else case message_fields buf start_pos (new_FixMessage (ck_system ck)) of
               Fields_Undefined \<Rightarrow> (Undefined, p)
             | Fields_Error st pos \<Rightarrow> (Returns (result st pos 0 IDLE 0), free_message message p)
             | Fields_Done m \<Rightarrow>
               let p = store_message message m p
               in if ps_strict_validation p \<and> \<not> validateParsedMessage m
                  then (Returns (result InvalidFormat 0 0 IDLE 0), free_message message p)
                  else if ps_validate_checksum p \<and> \<not> validateMessageChecksum (drop start_pos buf)
                  then (Returns (result ChecksumError 0 0 IDLE 0), free_message message p)
                  else (Returns (result Success (length buf - start_pos) message IDLE 0), p))"

section \<open>The optimised decoders\<close>

lemma memchr_Found: "memchr mem pos n c = Found i \<Longrightarrow> pos \<le> i \<and> i < pos + n \<and> i < length mem \<and> mem ! i = c"
  by (auto simp: memchr_def split: option.splits if_splits dest!: index_of_Some_less)

function optimized_fields :: "string \<Rightarrow> nat \<Rightarrow> nat \<Rightarrow> fix_message \<Rightarrow> field_loop" where
  "optimized_fields mem cur body_end m =
    (if cur < body_end then
       case memchr mem cur (body_end - cur) (CHR ''='') of
         OutOfBounds \<Rightarrow> Fields_Undefined
       | NotFound \<Rightarrow> Fields_Error InvalidFormat cur
       | Found eq \<Rightarrow>
         (case parseInteger (substr mem cur (eq - cur)) of
            Int_Overflow \<Rightarrow> Fields_Undefined
          | Int_Fail \<Rightarrow> Fields_Error FieldParseError cur
          | Int_Ok field_tag \<Rightarrow>
            (case memchr mem (eq + 1) (body_end - (eq + 1)) FIX_SOH of
               OutOfBounds \<Rightarrow> Fields_Undefined
             | NotFound \<Rightarrow> Fields_Error InvalidFormat (eq + 1)
             | Found soh \<Rightarrow> optimized_fields mem (soh + 1) body_end (setField field_tag (substr mem (eq + 1) (soh - (eq + 1))) m)))
     else Fields_Done m)"
  by pat_completeness auto
termination
  by (relation "measure (\<lambda>(mem, cur, body_end, m). body_end - cur)") (auto dest!: memchr_Found)

declare optimized_fields.simps [simp del]

text \<open>From the start of the checksum field to the result.\<close>

definition optimized_trailer :: "bool \<Rightarrow> string \<Rightarrow> nat \<Rightarrow> addr \<Rightarrow> fix_message \<Rightarrow> parser \<Rightarrow> parse_result outcome \<times> parser" where
  "optimized_trailer positions mem body_end message m p =
    (if ps_validate_checksum p then
       case match_at ''10='' (drop body_end mem) of
         None \<Rightarrow> (Undefined, p)
       | Some False \<Rightarrow>
           (Returns (result ChecksumError (if positions then body_end else 0) 0 ERROR_RECOVERY 0), free_message message p)
       | Some True \<Rightarrow>
           if body_end + 6 > length mem then (Undefined, p)
           else let checksum_value = substr mem (body_end + 3) 3;
                    p = store_message message (setField Tag_CheckSum checksum_value m) p;
                    calculated = byte_sum (take body_end mem)
                in case stoi checksum_value of
                     Inl e \<Rightarrow> (Throws e, p)
                   | Inr received \<Rightarrow>
                     if calculated \<noteq> of_int received
                     then (Returns (result ChecksumError (if positions then body_end else 0) 0 ERROR_RECOVERY 0), free_message message p)
                     else (Returns (result Success (body_end + 7) message IDLE 0), p)
     else if body_end + 6 > length mem then (Undefined, p)
     else (Returns (result Success (body_end + 7) message IDLE 0),
           store_message message (setField Tag_CheckSum (substr mem (body_end + 3) 3) m) p))"

definition parse_optimized ::
  "nat \<Rightarrow> bool \<Rightarrow> bool \<Rightarrow> bool \<Rightarrow> string \<Rightarrow> clock \<Rightarrow> string \<Rightarrow> nat \<Rightarrow> parser \<Rightarrow> parse_result outcome \<times> parser" where
  "parse_optimized min_length soh_incomplete positions check_type msg_type ck mem len p =
    (if len < min_length then (Returns (result InvalidFormat 0 0 IDLE 0), p)
     else if mem ! (len - 1) \<noteq> FIX_SOH
     then (Returns (if soh_incomplete then result NeedMoreData 0 0 PARSING_TAG 0 else result InvalidFormat 0 0 ERROR_RECOVERY 0), p)
     else if len < 9 \<or> substr mem 0 9 \<noteq> FIX_BEGIN_STRING
     then (Returns (result InvalidFormat 0 0 ERROR_RECOVERY 0), p)
     else let (message, p) = new_message ck p
          in if message = 0 then (Returns (result AllocationFailed 0 0 ERROR_RECOVERY 0), p)
             else let m = setField Tag_MsgType msg_type (setField Tag_BeginString ''FIX.4.4'' (new_FixMessage (ck_system ck)))
                  in case memchr mem 12 (len - 12) FIX_SOH of
                       OutOfBounds \<Rightarrow> (Undefined, p)
                     | NotFound \<Rightarrow> (Returns (result NeedMoreData 0 0 PARSING_BODY_LENGTH 0), free_message message p)
                     | Found body_length_end \<Rightarrow>
                       (case parseInteger (substr mem 12 (body_length_end - 12)) of
                          Int_Overflow \<Rightarrow> (Undefined, p)
                        | Int_Fail \<Rightarrow> (Returns (result InvalidFormat 0 0 ERROR_RECOVERY 0), free_message message p)
                        | Int_Ok body_length \<Rightarrow>
                          let m = setField Tag_BodyLength (int_to_string body_length) m;
                              body_end = body_length_end + 1 + nat body_length
                          in (case optimized_fields mem (body_length_end + 1) body_end m of
                                Fields_Undefined \<Rightarrow> (Undefined, p)
                              | Fields_Error st pos \<Rightarrow>
                                  (Returns (result st (if positions then pos else 0) 0 ERROR_RECOVERY 0), free_message message p)
                              | Fields_Done m \<Rightarrow>
                                  if check_type \<and> \<not> hasField Tag_MsgType m
                                  then (Returns (result InvalidFormat 0 0 ERROR_RECOVERY 0), free_message message p)
                                  else optimized_trailer positions mem body_end message m p)))"

definition parseExecutionReport :: "clock \<Rightarrow> string \<Rightarrow> nat \<Rightarrow> parser \<Rightarrow> parse_result outcome \<times> parser" where
  "parseExecutionReport = parse_optimized 40 True True True ''8''"

definition parseHeartbeat :: "clock \<Rightarrow> string \<Rightarrow> nat \<Rightarrow> parser \<Rightarrow> parse_result outcome \<times> parser" where
  "parseHeartbeat = parse_optimized 30 True True False ''0''"

definition parseOrderCancelReject :: "clock \<Rightarrow> string \<Rightarrow> nat \<Rightarrow> parser \<Rightarrow> parse_result outcome \<times> parser" where
  "parseOrderCancelReject = parse_optimized 30 True True True ''9''"

definition parseReject :: "clock \<Rightarrow> string \<Rightarrow> nat \<Rightarrow> parser \<Rightarrow> parse_result outcome \<times> parser" where
  "parseReject = parse_optimized 25 True True False ''3''"

definition parseTestRequest :: "clock \<Rightarrow> string \<Rightarrow> nat \<Rightarrow> parser \<Rightarrow> parse_result outcome \<times> parser" where
  "parseTestRequest = parse_optimized 25 False False False ''1''"

definition parseResendRequest :: "clock \<Rightarrow> string \<Rightarrow> nat \<Rightarrow> parser \<Rightarrow> parse_result outcome \<times> parser" where
  "parseResendRequest = parse_optimized 25 False False False ''2''"

section \<open>Dispatch\<close>

text \<open>An empty result stands for both a missing and an unterminated MsgType.\<close>

definition extractMsgType :: "string \<Rightarrow> string" where
  "extractMsgType buf =
    (case search ''35='' buf of
       None \<Rightarrow> []
     | Some i \<Rightarrow> (case find_char FIX_SOH buf (i + 3) of None \<Rightarrow> [] | Some soh \<Rightarrow> substr buf (i + 3) (soh - (i + 3))))"

definition parseIntelligent :: "clock \<Rightarrow> string \<Rightarrow> nat \<Rightarrow> parser \<Rightarrow> parse_result outcome \<times> parser" where
  "parseIntelligent ck mem len p =
    (let msg_type = extractMsgType (take len mem)
     in if msg_type = [] then parseMessage ck (take len mem) 0 p
        else if msg_type = ''8'' then parseExecutionReport ck mem len p
        else if msg_type = ''0'' then parseHeartbeat ck mem len p
        else if msg_type = ''9'' then parseOrderCancelReject ck mem len p
        else if msg_type = ''3'' then parseReject ck mem len p
        else if msg_type = ''1'' then parseTestRequest ck mem len p
        else if msg_type = ''2'' then parseResendRequest ck mem len p
        else parseMessage ck (take len mem) 0 p)"

definition parseCompleteMessage :: "clock \<Rightarrow> string \<Rightarrow> nat \<Rightarrow> parser \<Rightarrow> parse_result outcome \<times> parser" where
  "parseCompleteMessage ck mem len p =
    (if len = 0 then (Returns (result InvalidFormat 0 0 IDLE 0), p)
     else case parseIntelligent ck mem len p of
            (Returns r, p) \<Rightarrow>
              if pr_status r = Success then (Returns r, p)
              else (case parseMessage ck (take len mem) 0 p of
                      (Returns f, p) \<Rightarrow>
                        (Returns (if pr_status f = Success then f\<lparr>pr_bytes := len, pr_state := IDLE\<rparr> else f), p)
                    | (out, p) \<Rightarrow> (out, p))
          | (out, p) \<Rightarrow> (out, p))"

section \<open>Pool accounting\<close>

abbreviation parser_heap :: "parser \<Rightarrow> addr \<rightharpoonup> fix_message" where
  "parser_heap p \<equiv> pool_heap (ps_pool p)"

text \<open>What a decoding step may do to the pool: a success hands out one fresh live message, any other
  result leaves the live messages as they were, and an exception leaves one fresh message that nobody refers to.\<close>

definition only_pool :: "parser \<Rightarrow> parser \<Rightarrow> bool" where
  "only_pool p p1 \<longleftrightarrow> (\<exists>x. p1 = p\<lparr>ps_pool := x\<rparr> \<and> p_size x = p_size (ps_pool p) \<and> p_shutdown x = p_shutdown (ps_pool p))"

definition accounts :: "parser \<Rightarrow> parse_result outcome \<times> parser \<Rightarrow> bool" where
  "accounts p res \<longleftrightarrow> pool_inv (ps_pool (snd res)) \<and> only_pool p (snd res) \<and>
    (case fst res of
       Returns r \<Rightarrow>
         if pr_status r = Success
         then pr_message r \<noteq> 0 \<and> pr_message r \<notin> dom (parser_heap p)
              \<and> (\<exists>m. parser_heap (snd res) = (parser_heap p)(pr_message r \<mapsto> m))
         else pr_message r = 0 \<and> parser_heap (snd res) = parser_heap p
     | Throws e \<Rightarrow> \<exists>a m. a \<notin> dom (parser_heap p) \<and> parser_heap (snd res) = (parser_heap p)(a \<mapsto> m)
     | Undefined \<Rightarrow> True)"

lemma only_pool_refl [simp]: "only_pool p p"
  unfolding only_pool_def by (rule exI [of _ "ps_pool p"]) simp

lemma only_pool_trans: "only_pool p q \<Longrightarrow> only_pool q r \<Longrightarrow> only_pool p r"
  by (auto simp: only_pool_def)

lemma only_pool_upd:
  assumes "only_pool p q" "p_size x = p_size (ps_pool q)" "p_shutdown x = p_shutdown (ps_pool q)"
  shows "only_pool p (q\<lparr>ps_pool := x\<rparr>)"
  using assms by (auto simp: only_pool_def)

lemma only_poolD:
  assumes "only_pool p q"
  shows "ps_validate_checksum q = ps_validate_checksum p" "ps_strict_validation q = ps_strict_validation p"
    "ps_ctx q = ps_ctx p" "ps_stats q = ps_stats p" "ps_partial q = ps_partial p" "ps_partial_size q = ps_partial_size p"
    "ps_error_recovery_enabled q = ps_error_recovery_enabled p" "ps_max_message_size q = ps_max_message_size p"
    "ps_breaker_active q = ps_breaker_active p" "ps_max_consecutive_errors q = ps_max_consecutive_errors p"
    "ps_breaker_last_reset q = ps_breaker_last_reset p" "p_size (ps_pool q) = p_size (ps_pool p)" "p_shutdown (ps_pool q) = p_shutdown (ps_pool p)"
  using assms by (auto simp: only_pool_def)

definition holds_new :: "parser \<Rightarrow> addr \<Rightarrow> parser \<Rightarrow> bool" where
  "holds_new p a p1 \<longleftrightarrow> a \<noteq> 0 \<and> a \<notin> dom (parser_heap p) \<and> pool_inv (ps_pool p1) \<and> only_pool p p1
     \<and> (\<exists>m. parser_heap p1 = (parser_heap p)(a \<mapsto> m))"

lemma new_message_laws:
  assumes "pool_inv (ps_pool p)" "new_message ck p = (a, p1)"
  shows "a \<noteq> 0 \<Longrightarrow> holds_new p a p1"
    and "a = 0 \<Longrightarrow> pool_inv (ps_pool p1) \<and> parser_heap p1 = parser_heap p \<and> only_pool p p1"
    and "a \<noteq> 0 \<longleftrightarrow> \<not> p_shutdown (ps_pool p) \<and> card (dom (parser_heap p)) < unat (p_size (ps_pool p))"
proof -
  let ?x = "new_FixMessage (ck_system ck)"
  have e: "a = fst (allocate ?x (ps_pool p))" "p1 = p\<lparr>ps_pool := snd (allocate ?x (ps_pool p))\<rparr>"
    using assms(2) by (auto simp: new_message_def split: prod.splits)
  note l = allocate_laws [OF assms(1), of ?x, folded e(1)]
  have only: "only_pool p p1" using l(2,3) unfolding e(2) by (intro only_pool_upd) (simp_all add: word_unat_eq_iff)
  show "a \<noteq> 0 \<Longrightarrow> holds_new p a p1"
    using l(1,5,6) only by (auto simp: holds_new_def e(2))
  show "a = 0 \<Longrightarrow> pool_inv (ps_pool p1) \<and> parser_heap p1 = parser_heap p \<and> only_pool p p1"
    using l(1,6) only by (auto simp: e(2))
  show "a \<noteq> 0 \<longleftrightarrow> \<not> p_shutdown (ps_pool p) \<and> card (dom (parser_heap p)) < unat (p_size (ps_pool p))"
    by (rule l(4))
qed

lemma holds_new_store: "holds_new p a p1 \<Longrightarrow> holds_new p a (store_message a m p1)"
  using modify_at_laws [of "ps_pool p1" a "\<lambda>_. m"]
  by (auto simp: holds_new_def store_message_def intro!: only_pool_upd)

lemma store_message_heap: "holds_new p a p1 \<Longrightarrow> parser_heap (store_message a m p1) = (parser_heap p)(a \<mapsto> m)"
  using modify_at_laws(2) [of "ps_pool p1" a "\<lambda>_. m"] by (auto simp: holds_new_def store_message_def)

lemma holds_new_free:
  assumes "holds_new p a p1" "st \<noteq> Success"
  shows "accounts p (Returns (result st n 0 s e), free_message a p1)"
proof -
  have "a \<in> dom (parser_heap p1)" "pool_inv (ps_pool p1)" using assms(1) by (auto simp: holds_new_def)
  then have d: "pool_inv (ps_pool (free_message a p1))" "parser_heap (free_message a p1) = (parser_heap p1)(a := None)"
    using deallocate_laws(1,4) [of "ps_pool p1" a] by (simp_all add: free_message_def)
  moreover have "(parser_heap p1)(a := None) = parser_heap p"
    using assms(1) by (auto simp: holds_new_def fun_eq_iff domIff)
  moreover have "only_pool p (free_message a p1)"
    using assms(1) deallocate_laws(2,3) [of "ps_pool p1" a] by (auto simp: holds_new_def free_message_def word_unat_eq_iff intro!: only_pool_upd)
  ultimately show ?thesis
    using assms(2) by (simp add: accounts_def result_def)
qed

lemma holds_new_success: "holds_new p a p1 \<Longrightarrow> accounts p (Returns (result Success n a s e), p1)"
  by (auto simp: holds_new_def accounts_def result_def)

lemma holds_new_throws: "holds_new p a p1 \<Longrightarrow> accounts p (Throws e, p1)"
  by (auto simp: holds_new_def accounts_def)

lemma holds_new_undefined: "holds_new p a p1 \<Longrightarrow> accounts p (Undefined, p1)"
  by (auto simp: holds_new_def accounts_def)

lemma accounts_unchanged:
  "pool_inv (ps_pool p) \<Longrightarrow> st \<noteq> Success \<Longrightarrow> accounts p (Returns (result st n 0 s e), p)"
  by (simp add: accounts_def result_def only_pool_refl)

lemma message_fields_error: "message_fields buf cur m = Fields_Error st pos \<Longrightarrow> st \<noteq> Success"
proof (induction buf cur m rule: message_fields.induct)
  case (1 buf cur m)
  show ?case
    using 1(2) by (subst (asm) message_fields.simps)
      (auto simp: Let_def split: if_splits option.splits int_result.splits dest: 1(1))
qed

lemma optimized_fields_error: "optimized_fields mem cur body_end m = Fields_Error st pos \<Longrightarrow> st \<noteq> Success"
proof (induction mem cur body_end m rule: optimized_fields.induct)
  case (1 mem cur body_end m)
  show ?case
    using 1(2) by (subst (asm) optimized_fields.simps)
      (auto simp: Let_def split: if_splits search_result.splits int_result.splits dest: 1(1))
qed

lemmas accounts_intros = holds_new_free holds_new_success holds_new_throws holds_new_undefined holds_new_store

lemma parseMessage_accounts:
  assumes "pool_inv (ps_pool p)"
  shows "accounts p (parseMessage ck buf start p)"
proof -
  obtain a p1 where n: "new_message ck p = (a, p1)" by (cases "new_message ck p")
  note laws = new_message_laws [OF assms n]
  show ?thesis
  proof (cases "a = 0")
    case True
    with laws(2) show ?thesis by (auto simp: parseMessage_def n accounts_def result_def)
  next
    case False
    note new = laws(1) [OF False]
    show ?thesis
    proof (cases "message_fields buf start (new_FixMessage (ck_system ck))")
      case (Fields_Done m)
      with False new show ?thesis
        by (simp add: parseMessage_def n Let_def accounts_intros)
    next
      case (Fields_Error st pos)
      with False new message_fields_error [OF this] show ?thesis
        by (simp add: parseMessage_def n accounts_intros)
    next
      case Fields_Undefined
      with False new show ?thesis by (simp add: parseMessage_def n accounts_intros)
    qed
  qed
qed

lemma optimized_trailer_accounts:
  assumes "holds_new p a p1"
  shows "accounts p (optimized_trailer positions mem body_end a m p1)"
  using assms
  by (auto simp: optimized_trailer_def Let_def intro!: accounts_intros split: option.split bool.split sum.split)

lemma parse_optimized_accounts:
  assumes "pool_inv (ps_pool p)"
  shows "accounts p (parse_optimized min_length soh positions check ty ck mem len p)"
proof -
  obtain a p1 where n: "new_message ck p = (a, p1)" by (cases "new_message ck p")
  note laws = new_message_laws [OF assms n]
  have new: "a \<noteq> 0 \<Longrightarrow> accounts p (Undefined, p1)"
    using laws(1) by (blast intro: accounts_intros)
  have zero: "a = 0 \<Longrightarrow> accounts p (Returns (result AllocationFailed 0 0 ERROR_RECOVERY 0), p1)"
    using laws(2) by (auto simp: accounts_def result_def)
  show ?thesis
    using assms
    by (auto simp: parse_optimized_def n Let_def zero new laws(1) dest: optimized_fields_error
        intro!: accounts_unchanged accounts_intros optimized_trailer_accounts
        split: search_result.split int_result.split field_loop.split)
qed

lemma parseIntelligent_accounts:
  "pool_inv (ps_pool p) \<Longrightarrow> accounts p (parseIntelligent ck mem len p)"
  by (simp add: parseIntelligent_def Let_def parseMessage_accounts parse_optimized_accounts parseExecutionReport_def
      parseHeartbeat_def parseOrderCancelReject_def parseReject_def parseTestRequest_def parseResendRequest_def)

lemma accounts_chain:
  assumes "accounts p (Returns r, q)" "pr_status r \<noteq> Success" "accounts q res"
  shows "accounts p res"
proof -
  have "parser_heap q = parser_heap p" "only_pool p q" using assms(1,2) by (auto simp: accounts_def)
  with assms(3) only_pool_trans [of p q "snd res"] show ?thesis
    by (auto simp: accounts_def split: outcome.splits if_splits)
qed

lemma parseCompleteMessage_accounts:
  assumes "pool_inv (ps_pool p)"
  shows "accounts p (parseCompleteMessage ck mem len p)"
proof (cases "len = 0")
  case True
  with assms show ?thesis by (simp add: parseCompleteMessage_def accounts_unchanged)
next
  case False
  obtain out q where i: "parseIntelligent ck mem len p = (out, q)" by (cases "parseIntelligent ck mem len p")
  have ai: "accounts p (out, q)" using parseIntelligent_accounts [OF assms, of ck mem len] i by simp
  show ?thesis
  proof (cases "\<exists>r. out = Returns r \<and> pr_status r \<noteq> Success")
    case True
    then obtain r where r: "out = Returns r" "pr_status r \<noteq> Success" by blast
    obtain out2 q2 where m: "parseMessage ck (take len mem) 0 q = (out2, q2)" by (cases "parseMessage ck (take len mem) 0 q")
    have "pool_inv (ps_pool q)" using ai by (simp add: accounts_def)
    then have "accounts p (out2, q2)"
      using accounts_chain [OF ai [unfolded r(1)] r(2)] parseMessage_accounts [of q ck "take len mem" 0] m by simp
    with False i m r show ?thesis
      by (auto simp: parseCompleteMessage_def accounts_def split: outcome.splits)
  next
    case no_fallback: False
    with False i ai show ?thesis
      by (auto simp: parseCompleteMessage_def split: outcome.splits)
  qed
qed

section \<open>Progress\<close>

lemma parseMessage_progress:
  "parseMessage ck buf start p = (Returns r, q) \<Longrightarrow> pr_status r = Success \<Longrightarrow> pr_bytes r = length buf - start"
  by (auto simp: parseMessage_def result_def Let_def split: prod.splits if_splits field_loop.splits dest: message_fields_error)

lemma optimized_trailer_progress:
  "optimized_trailer positions mem body_end a m p = (Returns r, q) \<Longrightarrow> pr_status r = Success \<Longrightarrow> pr_bytes r = body_end + 7"
  by (auto simp: optimized_trailer_def result_def Let_def split: if_splits option.splits bool.splits sum.splits)

lemma parse_optimized_progress:
  "parse_optimized min_length soh positions check ty ck mem len p = (Returns r, q) \<Longrightarrow> pr_status r = Success \<Longrightarrow> 0 < pr_bytes r"
  by (auto simp: parse_optimized_def Let_def dest: optimized_fields_error optimized_trailer_progress
      split: prod.splits if_splits search_result.splits int_result.splits field_loop.splits)

lemma parseCompleteMessage_progress:
  assumes "parseCompleteMessage ck mem len p = (Returns r, q)" "pr_status r = Success" "mem \<noteq> []"
  shows "0 < pr_bytes r"
proof -
  have len: "len \<noteq> 0" using assms(1,2) by (cases "len = 0") (auto simp: parseCompleteMessage_def result_def)
  have "0 < pr_bytes f" if "parseIntelligent ck mem len p = (Returns f, q)" "pr_status f = Success" for f
    using that assms(3) len
    by (auto simp: parseIntelligent_def Let_def parseExecutionReport_def parseHeartbeat_def parseOrderCancelReject_def
        parseReject_def parseTestRequest_def parseResendRequest_def
        split: if_splits dest: parseMessage_progress parse_optimized_progress)
  with assms(1,2) len show ?thesis
    by (auto simp: parseCompleteMessage_def split: prod.splits outcome.splits if_splits)
qed

end
