(* ===== verification/Parser_Recovery.thy ===== *)
theory Parser_Recovery
  imports Parser_Decode
begin

text \<open>
  State transitions, statistics, error recovery and the circuit breaker of \<open>StreamFixParser\<close>
  (src/protocol/stream_fix_parser.cpp).
\<close>

section \<open>State transitions\<close>

fun isValidStateTransition :: "parse_state \<Rightarrow> parse_state \<Rightarrow> bool" where
  "isValidStateTransition IDLE st = (st = PARSING_BEGIN_STRING \<or> st = PARSING_BODY_LENGTH \<or> st = ERROR_RECOVERY)"
| "isValidStateTransition PARSING_BEGIN_STRING st = (st = PARSING_BODY_LENGTH \<or> st = ERROR_RECOVERY)"
| "isValidStateTransition PARSING_BODY_LENGTH st = (st = PARSING_TAG \<or> st = ERROR_RECOVERY)"
| "isValidStateTransition PARSING_TAG st = (st = EXPECTING_EQUALS \<or> st = ERROR_RECOVERY)"
| "isValidStateTransition EXPECTING_EQUALS st = (st = PARSING_VALUE \<or> st = ERROR_RECOVERY)"
| "isValidStateTransition PARSING_VALUE st = (st = EXPECTING_SOH \<or> st = ERROR_RECOVERY)"
| "isValidStateTransition EXPECTING_SOH st = (st = PARSING_TAG \<or> st = PARSING_CHECKSUM \<or> st = ERROR_RECOVERY)"
| "isValidStateTransition PARSING_CHECKSUM st = (st = MESSAGE_COMPLETE \<or> st = ERROR_RECOVERY)"
| "isValidStateTransition MESSAGE_COMPLETE st = (st = IDLE)"
| "isValidStateTransition ERROR_RECOVERY st = (st = IDLE \<or> st = CORRUPTED_SKIP)"
| "isValidStateTransition CORRUPTED_SKIP st = (st = IDLE \<or> st = ERROR_RECOVERY)"

abbreviation upd_stats :: "(parser_stats \<Rightarrow> parser_stats) \<Rightarrow> parser \<Rightarrow> parser" where
  "upd_stats f p \<equiv> p\<lparr>ps_stats := f (ps_stats p)\<rparr>"

abbreviation upd_ctx :: "(parse_context \<Rightarrow> parse_context) \<Rightarrow> parser \<Rightarrow> parser" where
  "upd_ctx f p \<equiv> p\<lparr>ps_ctx := f (ps_ctx p)\<rparr>"

definition updateStateStatistics :: "parser \<Rightarrow> parser" where
  "updateStateStatistics = upd_stats (\<lambda>s. s\<lparr>st_state_transitions := st_state_transitions s + 1\<rparr>)"

text \<open>Every call passes the parser's own context.\<close>

definition transitionToState :: "parse_state \<Rightarrow> parser \<Rightarrow> bool \<times> parser" where
  "transitionToState new_state p =
    (if \<not> isValidStateTransition (cx_state (ps_ctx p)) new_state then (False, p)
     else (True, upd_ctx (\<lambda>c. c\<lparr>cx_state := new_state\<rparr>) (updateStateStatistics p)))"

section \<open>Statistics\<close>

definition updateStats :: "parse_status \<Rightarrow> uint64 \<Rightarrow> parser \<Rightarrow> parser" where
  "updateStats status parse_time p =
    (if status = Success then
       upd_stats (\<lambda>s. s\<lparr>st_messages_parsed := st_messages_parsed s + 1,
         st_total_parse_time := st_total_parse_time s + parse_time,
         st_max_parse_time := max (st_max_parse_time s) parse_time,
         st_min_parse_time := min (st_min_parse_time s) parse_time\<rparr>) p
     else
       let p = upd_stats (\<lambda>s. s\<lparr>st_parse_errors := st_parse_errors s + 1\<rparr>) p;
           p = (if status = ChecksumError then upd_stats (\<lambda>s. s\<lparr>st_checksum_errors := st_checksum_errors s + 1\<rparr>) p else p)
       in if status = AllocationFailed then upd_stats (\<lambda>s. s\<lparr>st_allocation_failures := st_allocation_failures s + 1\<rparr>) p else p)"

definition updateErrorStats :: "clock \<Rightarrow> parse_status \<Rightarrow> parse_state \<Rightarrow> parser \<Rightarrow> parser" where
  "updateErrorStats ck error_status error_state p =
    (let p = upd_stats (\<lambda>s. s\<lparr>st_error_frequency := (st_error_frequency s)(error_status := st_error_frequency s error_status + 1),
               st_errors_by_state := (st_errors_by_state s)(error_state := st_errors_by_state s error_state + 1)\<rparr>) p;
         p = upd_ctx (\<lambda>c. c\<lparr>cx_consecutive_errors := cx_consecutive_errors c + 1,
               cx_error_count := cx_error_count c + 1, cx_last_error_time := ck_steady ck\<rparr>) p
     in case error_status of
          FieldParseError \<Rightarrow> upd_stats (\<lambda>s. s\<lparr>st_field_parse_errors := st_field_parse_errors s + 1\<rparr>) p
        | ChecksumError \<Rightarrow> upd_stats (\<lambda>s. s\<lparr>st_checksum_errors := st_checksum_errors s + 1\<rparr>) p
        | AllocationFailed \<Rightarrow> upd_stats (\<lambda>s. s\<lparr>st_allocation_failures := st_allocation_failures s + 1\<rparr>) p
        | _ \<Rightarrow> upd_stats (\<lambda>s. s\<lparr>st_parse_errors := st_parse_errors s + 1\<rparr>) p)"

definition recordErrorRecovery :: "bool \<Rightarrow> parser \<Rightarrow> parser" where
  "recordErrorRecovery successful p =
    (if successful
     then upd_ctx (\<lambda>c. c\<lparr>cx_consecutive_errors := 0\<rparr>) (upd_stats (\<lambda>s. s\<lparr>st_error_recoveries := st_error_recoveries s + 1\<rparr>) p)
     else p)"

definition recordStateTransition :: "parser \<Rightarrow> parser" where
  "recordStateTransition = upd_stats (\<lambda>s. s\<lparr>st_state_transitions := st_state_transitions s + 1\<rparr>)"

definition recordPartialMessageHandled :: "parser \<Rightarrow> parser" where
  "recordPartialMessageHandled = upd_stats (\<lambda>s. s\<lparr>st_partial_handled := st_partial_handled s + 1\<rparr>)"

definition resetStats :: "parser \<Rightarrow> parser" where
  "resetStats = upd_stats (\<lambda>_. reset_stats)"

section \<open>The circuit breaker\<close>

definition shouldActivateCircuitBreaker :: "parser \<Rightarrow> bool" where
  "shouldActivateCircuitBreaker p =
    (if \<not> ps_error_recovery_enabled p then False
     else cx_consecutive_errors (ps_ctx p) \<ge> ps_max_consecutive_errors p)"

text \<open>The query resets the breaker when the cooling period of five seconds is over.\<close>

definition isCircuitBreakerActive :: "clock \<Rightarrow> parser \<Rightarrow> bool \<times> parser" where
  "isCircuitBreakerActive ck p =
    (if ps_breaker_active p \<and> int (ck_steady ck) - int (ps_breaker_last_reset p) > 5000000000
     then (False, upd_ctx (\<lambda>c. c\<lparr>cx_consecutive_errors := 0\<rparr>)
                    (p\<lparr>ps_breaker_active := False, ps_breaker_last_reset := ck_steady ck\<rparr>))
     else (ps_breaker_active p \<or> shouldActivateCircuitBreaker p, p))"

definition resetErrorRecovery :: "clock \<Rightarrow> parser \<Rightarrow> parser" where
  "resetErrorRecovery ck p =
    (upd_ctx (\<lambda>c. c\<lparr>cx_consecutive_errors := 0, cx_last_error_time := ck_steady ck\<rparr>) p)
      \<lparr>ps_breaker_active := False, ps_breaker_last_reset := ck_steady ck\<rparr>"

definition reset_parser :: "clock \<Rightarrow> parser \<Rightarrow> parser" where
  "reset_parser ck p =
    resetErrorRecovery ck (upd_ctx reset_context
      (p\<lparr>ps_partial_size := 0, ps_partial := replicate PARTIAL_BUFFER_SIZE (CHR 0x00)\<rparr>))"

section \<open>Error recovery\<close>

definition canRecoverFromError :: "parse_status \<Rightarrow> parse_state \<Rightarrow> parser \<Rightarrow> bool" where
  "canRecoverFromError error_status current_state p =
    (if \<not> ps_error_recovery_enabled p then False
     else (error_status = InvalidFormat \<or> error_status = FieldParseError \<or> error_status = ChecksumError)
          \<and> current_state \<noteq> MESSAGE_COMPLETE)"

text \<open>The loop bound \<open>length - 5\<close> is computed in \<open>size_t\<close>.\<close>

function skip_loop :: "string \<Rightarrow> nat \<Rightarrow> nat \<Rightarrow> search_result" where
  "skip_loop mem bound i =
    (if i < bound then
       case match_at ''8=FIX'' (drop i mem) of
         None \<Rightarrow> OutOfBounds
       | Some True \<Rightarrow> Found i
       | Some False \<Rightarrow> skip_loop mem bound (i + 1)
     else NotFound)"
  by pat_completeness auto
termination
  by (relation "measure (\<lambda>(mem, bound, i). bound - i)") auto

declare skip_loop.simps [simp del]

definition skipToNextPotentialMessage :: "string \<Rightarrow> nat \<Rightarrow> nat \<Rightarrow> nat option" where
  "skipToNextPotentialMessage mem len start_pos =
    (case skip_loop mem (unat (of_nat len - 5 :: size_t)) start_pos of
       OutOfBounds \<Rightarrow> None
     | Found i \<Rightarrow> Some i
     | NotFound \<Rightarrow> Some len)"

definition handleErrorRecovery :: "string \<Rightarrow> nat \<Rightarrow> parser \<Rightarrow> parse_result outcome \<times> parser" where
  "handleErrorRecovery mem len p =
    (case skipToNextPotentialMessage mem len 0 of
       None \<Rightarrow> (Undefined, p)
     | Some skip_bytes \<Rightarrow>
       if skip_bytes \<ge> len then
         (Returns (result NeedMoreData len 0 IDLE 0),
          upd_ctx reset_context (upd_stats (\<lambda>s. s\<lparr>st_corrupted_skipped := st_corrupted_skipped s + of_nat len\<rparr>) p))
       else
         let p = upd_ctx reset_context (upd_stats (\<lambda>s. s\<lparr>st_corrupted_skipped := st_corrupted_skipped s + of_nat skip_bytes\<rparr>) p);
             (ok, p) = transitionToState IDLE p
         in if \<not> ok then (Returns (result StateTransitionError skip_bytes 0 ERROR_RECOVERY skip_bytes), p)
            else (Returns (result RecoverySuccess skip_bytes 0 IDLE 0), p))"

definition attemptErrorRecovery :: "string \<Rightarrow> nat \<Rightarrow> parser \<Rightarrow> parse_result outcome \<times> parser" where
  "attemptErrorRecovery mem len p =
    (let (ok, p) = transitionToState ERROR_RECOVERY p
     in if \<not> ok then (Returns (result StateTransitionError 0 0 (cx_state (ps_ctx p)) 0), p)
        else handleErrorRecovery mem len p)"

definition handleCorruptedSkip :: "string \<Rightarrow> nat \<Rightarrow> parser \<Rightarrow> parse_result outcome \<times> parser" where
  "handleCorruptedSkip mem len p = handleErrorRecovery mem len p"

section \<open>What recovery does\<close>

definition bookkeeping_only :: "parser \<Rightarrow> parser \<Rightarrow> bool" where
  "bookkeeping_only p q \<longleftrightarrow> q\<lparr>ps_stats := ps_stats p, ps_ctx := ps_ctx p\<rparr> = p"

lemma bookkeeping_only_refl [simp]: "bookkeeping_only p p"
  by (simp add: bookkeeping_only_def)

lemma bookkeeping_only_upd:
  "bookkeeping_only p q \<Longrightarrow> bookkeeping_only p (upd_stats f q)"
  "bookkeeping_only p q \<Longrightarrow> bookkeeping_only p (upd_ctx g q)"
  by (cases p; cases q; simp add: bookkeeping_only_def)+

lemma bookkeeping_only_trans: "bookkeeping_only p q \<Longrightarrow> bookkeeping_only q r \<Longrightarrow> bookkeeping_only p r"
  by (cases p; cases q; cases r) (simp add: bookkeeping_only_def)

lemma bookkeepingD:
  assumes "bookkeeping_only p q"
  shows "ps_pool q = ps_pool p" "ps_partial q = ps_partial p" "ps_partial_size q = ps_partial_size p"
    "ps_max_message_size q = ps_max_message_size p" "ps_validate_checksum q = ps_validate_checksum p"
    "ps_strict_validation q = ps_strict_validation p" "ps_error_recovery_enabled q = ps_error_recovery_enabled p"
    "ps_max_consecutive_errors q = ps_max_consecutive_errors p" "ps_breaker_active q = ps_breaker_active p"
    "ps_breaker_last_reset q = ps_breaker_last_reset p"
  using assms by (cases p; cases q; simp add: bookkeeping_only_def)+

lemma transition_bookkeeping: "bookkeeping_only p (snd (transitionToState st p))"
  unfolding transitionToState_def updateStateStatistics_def
  by (simp, intro impI bookkeeping_only_upd(2) [where q = "upd_stats _ p", simplified] bookkeeping_only_upd(1) bookkeeping_only_refl)

lemma errors_bookkeeping: "bookkeeping_only p (updateErrorStats ck st s p)" "bookkeeping_only p (updateStats st t p)"
    "bookkeeping_only p (recordErrorRecovery b p)"
  by (auto simp: updateErrorStats_def updateStats_def recordErrorRecovery_def Let_def intro!: bookkeeping_only_upd split: parse_status.split)

text \<open>After the reset the state is already \<open>IDLE\<close>, from which \<open>IDLE\<close> is not a legal successor.\<close>

lemma handleErrorRecovery_result:
  assumes "handleErrorRecovery mem len p = (out, q)"
  shows "bookkeeping_only p q"
    and "st_error_recoveries (ps_stats q) = st_error_recoveries (ps_stats p)"
    and "cx_consecutive_errors (ps_ctx q) = cx_consecutive_errors (ps_ctx p)"
    and "out = Returns r \<Longrightarrow> (pr_status r = NeedMoreData \<or> pr_status r = StateTransitionError) \<and> pr_message r = 0 \<and> cx_state (ps_ctx q) = IDLE"
    and "out \<noteq> Throws e"
  using assms
  by (auto simp: handleErrorRecovery_def transitionToState_def reset_context_def result_def Let_def
      intro!: bookkeeping_only_upd split: option.splits if_splits)

lemma attemptErrorRecovery_result:
  assumes "attemptErrorRecovery mem len p = (out, q)"
  shows "bookkeeping_only p q"
    and "st_error_recoveries (ps_stats q) = st_error_recoveries (ps_stats p)"
    and "cx_consecutive_errors (ps_ctx q) = cx_consecutive_errors (ps_ctx p)"
    and "out = Returns r \<Longrightarrow> (pr_status r = NeedMoreData \<or> pr_status r = StateTransitionError) \<and> pr_message r = 0"
    and "out \<noteq> Throws e"
proof -
  obtain ok p1 where t: "transitionToState ERROR_RECOVERY p = (ok, p1)" by (cases "transitionToState ERROR_RECOVERY p")
  have p1: "bookkeeping_only p p1" "st_error_recoveries (ps_stats p1) = st_error_recoveries (ps_stats p)"
    "cx_consecutive_errors (ps_ctx p1) = cx_consecutive_errors (ps_ctx p)"
    using transition_bookkeeping [of p ERROR_RECOVERY] t
    by (auto simp: transitionToState_def updateStateStatistics_def split: if_splits)
  have c: "(\<not> ok \<and> (out, q) = (Returns (result StateTransitionError 0 0 (cx_state (ps_ctx p1)) 0), p1))
      \<or> (ok \<and> handleErrorRecovery mem len p1 = (out, q))"
    using assms t by (auto simp: attemptErrorRecovery_def split: if_splits)
  show "bookkeeping_only p q" using c p1(1) bookkeeping_only_trans handleErrorRecovery_result(1) by blast
  show "st_error_recoveries (ps_stats q) = st_error_recoveries (ps_stats p)"
    using c p1(2) handleErrorRecovery_result(2) [of mem len p1] by auto
  show "cx_consecutive_errors (ps_ctx q) = cx_consecutive_errors (ps_ctx p)"
    using c p1(3) handleErrorRecovery_result(3) [of mem len p1] by auto
  show "out = Returns r \<Longrightarrow> (pr_status r = NeedMoreData \<or> pr_status r = StateTransitionError) \<and> pr_message r = 0"
    using c handleErrorRecovery_result(4) [of mem len p1] by (auto simp: result_def)
  show "out \<noteq> Throws e"
    using c handleErrorRecovery_result(5) [of mem len p1] by (auto simp: result_def)
qed

lemma skip_loop_defined:
  assumes "bound + 5 \<le> length mem"
  shows "skip_loop mem bound i \<noteq> OutOfBounds"
  using assms
proof (induction mem bound i rule: skip_loop.induct)
  case (1 mem bound i)
  have m: "k \<le> length xs \<Longrightarrow> match_at (take k ''8=FIX'') xs \<noteq> None" for k and xs :: string
  proof -
    have "length pat \<le> length xs \<Longrightarrow> match_at pat xs \<noteq> None" for pat xs :: string
      by (induction pat xs rule: match_at.induct) auto
    then show "k \<le> length xs \<Longrightarrow> match_at (take k ''8=FIX'') xs \<noteq> None" by simp
  qed
  have "i < bound \<Longrightarrow> match_at ''8=FIX'' (drop i mem) \<noteq> None"
    using m [of 5 "drop i mem"] 1(2) by simp
  then show ?case
    using 1(1,2) by (subst skip_loop.simps) (auto split: option.split bool.split)
qed

lemma skipToNext_defined:
  assumes "5 \<le> len" "len \<le> length mem" "len < 2 ^ 64"
  shows "skipToNextPotentialMessage mem len 0 \<noteq> None"
proof -
  have "unat (of_nat len :: size_t) = len" using assms(3) by (simp add: unat_of_nat)
  then have "unat (of_nat len - 5 :: size_t) = len - 5"
    using assms(1) by (simp add: unat_sub word_le_nat_alt)
  then show ?thesis
    using skip_loop_defined [of "len - 5" mem 0] assms(1,2) by (auto simp: skipToNextPotentialMessage_def split: search_result.split)
qed

end
