(* ===== verification/Fix_Serialisation.thy ===== *)
theory Fix_Serialisation
  imports Fix_Message "HOL-Library.Multiset"
begin

text \<open>
  What \<open>FixMessage::toString()\<close> of src/protocol/fix_message.cpp emits: the announced body length, the
  checksum against the bytes it is meant to cover, and reading the text back with
  \<open>parseFromString\<close>. The iteration order of the field table is any permutation.
\<close>

definition iteration_order :: "(fields \<Rightarrow> fields) \<Rightarrow> bool" where
  "iteration_order ord \<longleftrightarrow> (\<forall>fs. mset (ord fs) = mset fs)"

definition clean_fields :: "fields \<Rightarrow> bool" where
  "clean_fields fs \<longleftrightarrow> (\<forall>(t, v) \<in> set fs. in_int t \<and> FIX_SOH \<notin> set v)"

section \<open>Sums over the field table\<close>

lemma byte_sum_sum_list: "byte_sum s = sum_list (map of_char s)"
proof -
  have "foldl (\<lambda>a c. a + of_char c) a s = a + sum_list (map of_char s)" for a :: uint8
    by (induction s arbitrary: a) (auto simp: ac_simps)
  then show ?thesis by (simp add: byte_sum_def)
qed

lemma byte_sum_append [simp]: "byte_sum (s @ t) = byte_sum s + byte_sum t"
  by (simp add: byte_sum_sum_list)

lemma byte_sum_Nil [simp]: "byte_sum [] = 0"
  by (simp add: byte_sum_def)

lemma byte_sum_concat: "byte_sum (concat ss) = sum_list (map byte_sum ss)"
  by (induction ss) simp_all

lemma sum_list_ord:
  fixes f :: "int \<times> string \<Rightarrow> 'b::comm_monoid_add"
  assumes "iteration_order ord"
  shows "sum_list (map f (ord fs)) = sum_list (map f fs)"
  using assms by (metis iteration_order_def mset_map sum_mset_sum_list)

lemma sum_list_key:
  fixes f :: "int \<times> string \<Rightarrow> 'b::comm_monoid_add"
  assumes "distinct (map fst fs)"
  shows "sum_list (map (\<lambda>p. if fst p = k then f p else 0) fs) = (case map_of fs k of None \<Rightarrow> 0 | Some v \<Rightarrow> f (k, v))"
  using assms
proof (induction fs)
  case (Cons p fs)
  show ?case
  proof (cases "fst p = k")
    case True
    with Cons have "map_of fs k = None" by (auto simp: map_of_eq_None_iff)
    with Cons True show ?thesis by (cases p) auto
  next
    case False
    with Cons show ?thesis by (cases p) auto
  qed
qed simp

text \<open>Splitting a sum over the entries that are not a checksum into the three header tags and the rest.\<close>

lemma sum_list_header_split:
  fixes f :: "int \<times> string \<Rightarrow> 'b::comm_monoid_add"
  assumes "distinct (map fst fs)"
  shows "sum_list (map (\<lambda>p. if fst p \<noteq> Tag_CheckSum then f p else 0) fs) =
    sum_list (map (\<lambda>p. if fst p \<noteq> Tag_BeginString \<and> fst p \<noteq> Tag_BodyLength \<and> fst p \<noteq> Tag_MsgType \<and> fst p \<noteq> Tag_CheckSum then f p else 0) fs)
    + (case map_of fs Tag_BeginString of None \<Rightarrow> 0 | Some v \<Rightarrow> f (Tag_BeginString, v))
    + (case map_of fs Tag_BodyLength of None \<Rightarrow> 0 | Some v \<Rightarrow> f (Tag_BodyLength, v))
    + (case map_of fs Tag_MsgType of None \<Rightarrow> 0 | Some v \<Rightarrow> f (Tag_MsgType, v))"
proof -
  have "(\<lambda>p. if fst p \<noteq> Tag_CheckSum then f p else 0) =
    (\<lambda>p. (if fst p \<noteq> Tag_BeginString \<and> fst p \<noteq> Tag_BodyLength \<and> fst p \<noteq> Tag_MsgType \<and> fst p \<noteq> Tag_CheckSum then f p else 0)
      + (if fst p = Tag_BeginString then f p else 0) + (if fst p = Tag_BodyLength then f p else 0)
      + (if fst p = Tag_MsgType then f p else 0))"
    by (auto simp: fun_eq_iff tag_defs)
  then show ?thesis
    by (simp only: sum_list_addf sum_list_key [OF assms])
qed

section \<open>Body length\<close>

definition body_part :: "(fields \<Rightarrow> fields) \<Rightarrow> fix_message \<Rightarrow> string" where
  "body_part ord m = field_text (Tag_MsgType, getMsgType m)
     @ concat (map (\<lambda>f. if fst f \<noteq> Tag_BeginString \<and> fst f \<noteq> Tag_BodyLength \<and> fst f \<noteq> Tag_MsgType \<and> fst f \<noteq> Tag_CheckSum
                          then field_text f else []) (ord (fm_fields m)))"

definition header_part :: "fix_message \<Rightarrow> string" where
  "header_part m = field_text (Tag_BeginString,
     if hasField Tag_BeginString m then getFieldValue Tag_BeginString m else FIX_VERSION_44)"

lemma toString_body_parts:
  "toString_body ord m = header_part m @ field_text (Tag_BodyLength, to_string_nat (calculateBodyLength ord m)) @ body_part ord m"
  by (simp add: toString_body_def header_part_def body_part_def)

lemma calculateBodyLength_sum:
  "calculateBodyLength ord m = sum_list (map (\<lambda>p. if fst p \<noteq> Tag_BeginString \<and> fst p \<noteq> Tag_BodyLength \<and> fst p \<noteq> Tag_CheckSum
      then length (field_text p) else 0) (ord (fm_fields m)))"
proof -
  have "foldl (\<lambda>len (tag, value). if tag \<noteq> Tag_BeginString \<and> tag \<noteq> Tag_BodyLength \<and> tag \<noteq> Tag_CheckSum
              then len + (length (to_string_int tag) + 1 + length value + 1) else len) n fs
      = n + sum_list (map (\<lambda>p. if fst p \<noteq> Tag_BeginString \<and> fst p \<noteq> Tag_BodyLength \<and> fst p \<noteq> Tag_CheckSum
      then length (field_text p) else 0) fs)" for n and fs :: fields
    by (induction fs arbitrary: n) (auto simp: field_text_def)
  then show ?thesis by (simp add: calculateBodyLength_def)
qed

lemma length_body_part:
  assumes "iteration_order ord" "distinct (map fst (fm_fields m))"
  shows "length (body_part ord m) = calculateBodyLength ord m + (if hasField Tag_MsgType m then 0 else length (field_text (Tag_MsgType, [])))"
proof -
  let ?fs = "fm_fields m"
  let ?oth = "\<lambda>p. fst p \<noteq> Tag_BeginString \<and> fst p \<noteq> Tag_BodyLength \<and> fst p \<noteq> Tag_MsgType \<and> fst p \<noteq> Tag_CheckSum"
  have split: "(\<lambda>p. if fst p \<noteq> Tag_BeginString \<and> fst p \<noteq> Tag_BodyLength \<and> fst p \<noteq> Tag_CheckSum then length (field_text p) else 0) =
    (\<lambda>p. (if ?oth p then length (field_text p) else 0) + (if fst p = Tag_MsgType then length (field_text p) else 0))"
    by (auto simp: fun_eq_iff tag_defs)
  have "calculateBodyLength ord m = sum_list (map (\<lambda>p. if ?oth p then length (field_text p) else 0) ?fs)
      + (case map_of ?fs Tag_MsgType of None \<Rightarrow> 0 | Some v \<Rightarrow> length (field_text (Tag_MsgType, v)))"
    by (simp only: calculateBodyLength_sum sum_list_ord [OF assms(1)] split sum_list_addf sum_list_key [OF assms(2)])
  moreover have "length (concat (map (\<lambda>f. if ?oth f then field_text f else []) (ord ?fs)))
      = sum_list (map (\<lambda>p. if ?oth p then length (field_text p) else 0) ?fs)"
  proof -
    have "(\<lambda>p. length (if ?oth p then field_text p else [])) = (\<lambda>p. if ?oth p then length (field_text p) else 0)"
      by auto
    then show ?thesis
      using sum_list_ord [OF assms(1), of "\<lambda>p. length (if ?oth p then field_text p else [])" ?fs]
      by (simp only: length_concat map_map comp_def)
  qed
  ultimately show ?thesis
    by (auto simp: body_part_def hasField_def getMsgType_def getFieldValue_def split: option.split)
qed

text \<open>C30: For a message with a MsgType field, whatever order the field table is iterated in, the emitted text is the BeginString
  field, a BodyLength field announcing exactly the number of bytes up to the checksum field, those bytes, and the checksum field.\<close>

theorem toString_body_length:
  assumes "iteration_order ord" "coherent ord m" "hasField Tag_MsgType m"
  shows "\<exists>head body. fst (toString ord m) =
    head @ field_text (Tag_BodyLength, to_string_nat (length body)) @ body @ field_text (Tag_CheckSum, calculateChecksum ord m)
    \<and> head = header_part m"
proof -
  have "length (body_part ord m) = calculateBodyLength ord m"
    using length_body_part [OF assms(1)] assms(2,3) by (simp add: coherent_def)
  moreover have "fst (toString ord m) = serialise ord m"
    using assms(2) by (auto simp: toString_def coherent_def serialise_def Let_def)
  ultimately show ?thesis
    by (intro exI [of _ "header_part m"] exI [of _ "body_part ord m"]) (simp add: serialise_def toString_body_parts)
qed

lemma toString_body_length_witness:
  "\<exists>head body. fst (toString rev (setField Tag_MsgType ''0'' (new_FixMessage 0))) =
    head @ field_text (Tag_BodyLength, to_string_nat (length body)) @ body
      @ field_text (Tag_CheckSum, calculateChecksum rev (setField Tag_MsgType ''0'' (new_FixMessage 0)))
    \<and> head = header_part (setField Tag_MsgType ''0'' (new_FixMessage 0))"
proof (rule toString_body_length)
  show "iteration_order rev" by (simp add: iteration_order_def)
  show "coherent rev (setField Tag_MsgType ''0'' (new_FixMessage 0))"
    by (simp add: setField_def coherent_setField coherent_new)
  show "hasField Tag_MsgType (setField Tag_MsgType ''0'' (new_FixMessage 0))"
    by (simp add: hasField_def setField_def setFieldInternal_def update_conv')
qed

section \<open>Checksum\<close>

lemma of_char_uint8: "(of_char c :: uint8) = of_nat (of_char c)"
  by (simp add: of_nat_of_char)

lemma of_char_uint8_inject: "(of_char c :: uint8) = of_char d \<longleftrightarrow> c = d"
proof -
  have "(of_char c :: nat) < 256" "(of_char d :: nat) < 256" by simp_all
  then have "(of_nat (of_char c) :: uint8) = of_nat (of_char d) \<longleftrightarrow> (of_char c :: nat) = of_char d"
    by (simp add: word_of_nat_eq_iff take_bit_nat_eq_self)
  then show ?thesis by (simp add: of_char_uint8)
qed

lemma digits_value_padded [simp]: "digits_value (padded w n) = n"
proof -
  have "foldl (\<lambda>v c. v * 10 + digit_value c) 0 (replicate k (CHR ''0'') @ ds) = foldl (\<lambda>v c. v * 10 + digit_value c) 0 ds" for k ds
    by (induction k) (auto simp: digit_value_def)
  then show ?thesis
    using digits_value_to_string_nat [of n] by (simp add: padded_def digits_value_def)
qed

lemma padded_inject: "padded w m = padded w n \<longleftrightarrow> m = n"
  by (metis digits_value_padded)

lemma padded_digits: "\<forall>c \<in> set (padded w n). is_digit c"
  using to_string_nat_digits [of n] by (auto simp: padded_def is_digit_def)

lemma rfind_append_None: "rfind pat ys = None \<Longrightarrow> (\<And>k. k < length xs \<Longrightarrow> take (length pat) (drop k xs @ ys) \<noteq> pat) \<Longrightarrow> rfind pat (xs @ ys) = None"
proof (induction xs)
  case (Cons x xs)
  have "rfind pat (xs @ ys) = None"
    using Cons.prems(2) [of "Suc k" for k] by (intro Cons.IH Cons.prems(1)) auto
  then show ?case using Cons.prems(2) [of 0] by simp
qed simp

lemma rfind_append_Some: "rfind pat ys = Some i \<Longrightarrow> rfind pat (xs @ ys) = Some (length xs + i)"
  by (induction xs) auto

lemma rfind_trailer:
  assumes "CHR ''='' \<notin> set v"
  shows "rfind ''10='' (xs @ ''10='' @ v) = Some (length xs)"
proof -
  have "rfind ''10='' v = None"
    using assms
  proof (induction v)
    case (Cons c v)
    then have "take (length ''10='') (c # v) \<noteq> ''10=''" by (metis in_set_takeD list.set_intros(1,2))
    with Cons show ?case by simp
  qed simp
  moreover have "take 3 (CHR ''0'' # CHR ''='' # v) \<noteq> ''10=''" "take 3 (CHR ''='' # v) \<noteq> ''10=''" by auto
  ultimately have "rfind ''10='' (''10='' @ v) = Some 0" by (simp add: numeral_3_eq_3)
  then show ?thesis using rfind_append_Some [of "''10=''" "''10='' @ v" 0 xs] by simp
qed

lemma field_text_CheckSum: "field_text (Tag_CheckSum, v) = ''10='' @ v @ [FIX_SOH]"
proof -
  have "to_string_int Tag_CheckSum = ''10''" by code_simp
  then show ?thesis by (simp add: field_text_def)
qed

lemma verifyChecksum_trailer:
  "verifyChecksum (body @ field_text (Tag_CheckSum, padded 3 n)) \<longleftrightarrow> n = unat (byte_sum body)"
proof -
  let ?v = "padded 3 n"
  have nd: "CHR ''='' \<notin> set ?v" "FIX_SOH \<notin> set ?v"
    using padded_digits [of 3 n] by (auto simp: FIX_SOH_def dest: digits_avoid)
  have r: "rfind ''10='' (body @ ''10='' @ ?v @ [FIX_SOH]) = Some (length body)"
    using nd by (intro rfind_trailer) (auto simp: FIX_SOH_def)
  have f: "find_char FIX_SOH (body @ ''10='' @ ?v @ [FIX_SOH]) (length body + 3) = Some (length body + 3 + length ?v)"
    using nd(2) index_of_append [of FIX_SOH ?v "[]"] by (simp add: find_char_def)
  show ?thesis
    unfolding verifyChecksum_def field_text_CheckSum r option.case Let_def f
    by (simp add: utils_calculateChecksum_def substr_def padded_inject) auto
qed

text \<open>C31: A text closed with the checksum computed over it passes \<open>verifyChecksum\<close>, and replacing the byte \<open>c\<close> anywhere in it by a
  different byte makes it fail, as does any other three-digit checksum value.\<close>

theorem verifyChecksum_detects:
  "verifyChecksum (xs @ c # ys @ field_text (Tag_CheckSum, utils_calculateChecksum (xs @ c # ys)))
   \<and> (verifyChecksum (xs @ c' # ys @ field_text (Tag_CheckSum, utils_calculateChecksum (xs @ c # ys))) \<longleftrightarrow> c' = c)
   \<and> (verifyChecksum (xs @ c # ys @ field_text (Tag_CheckSum, padded 3 n)) \<longleftrightarrow> padded 3 n = utils_calculateChecksum (xs @ c # ys))"
proof -
  have "byte_sum (xs @ c' # ys) = byte_sum (xs @ c # ys) \<longleftrightarrow> (of_char c' :: uint8) = of_char c"
    by (simp add: byte_sum_sum_list)
  also have "\<dots> \<longleftrightarrow> c' = c" by (rule of_char_uint8_inject)
  finally have inj: "unat (byte_sum (xs @ c # ys)) = unat (byte_sum (xs @ c' # ys)) \<longleftrightarrow> c' = c"
    by (metis word_unat_eq_iff)
  show ?thesis
    using verifyChecksum_trailer [of "xs @ c # ys"] verifyChecksum_trailer [of "xs @ c' # ys"] inj
    by (auto simp: utils_calculateChecksum_def padded_inject)
qed

lemma serialise_checksum_gap:
  assumes "iteration_order ord" "distinct (map fst (fm_fields m))"
  shows "byte_sum (toString_body ord m) + (case map_of (fm_fields m) Tag_BodyLength of None \<Rightarrow> 0 | Some v \<Rightarrow> byte_sum (field_text (Tag_BodyLength, v)))
    = byte_sum (toStringWithoutChecksum ord m)
      + (if hasField Tag_BeginString m then 0 else byte_sum (field_text (Tag_BeginString, FIX_VERSION_44)))
      + byte_sum (field_text (Tag_BodyLength, to_string_nat (calculateBodyLength ord m)))
      + (if hasField Tag_MsgType m then 0 else byte_sum (field_text (Tag_MsgType, [])))"
proof -
  let ?fs = "fm_fields m"
  let ?oth = "\<lambda>p. fst p \<noteq> Tag_BeginString \<and> fst p \<noteq> Tag_BodyLength \<and> fst p \<noteq> Tag_MsgType \<and> fst p \<noteq> Tag_CheckSum"
  have c: "byte_sum (concat (map (\<lambda>f. if P f then field_text f else []) (ord ?fs)))
      = sum_list (map (\<lambda>p. if P p then byte_sum (field_text p) else 0) ?fs)" for P
  proof -
    have "(\<lambda>p. byte_sum (if P p then field_text p else [])) = (\<lambda>p. if P p then byte_sum (field_text p) else 0)" by auto
    then show ?thesis
      using sum_list_ord [OF assms(1), of "\<lambda>p. byte_sum (if P p then field_text p else [])" ?fs]
      by (simp only: byte_sum_concat map_map comp_def)
  qed
  have "byte_sum (toStringWithoutChecksum ord m) =
      sum_list (map (\<lambda>p. if ?oth p then byte_sum (field_text p) else 0) ?fs)
      + (case map_of ?fs Tag_BeginString of None \<Rightarrow> 0 | Some v \<Rightarrow> byte_sum (field_text (Tag_BeginString, v)))
      + (case map_of ?fs Tag_BodyLength of None \<Rightarrow> 0 | Some v \<Rightarrow> byte_sum (field_text (Tag_BodyLength, v)))
      + (case map_of ?fs Tag_MsgType of None \<Rightarrow> 0 | Some v \<Rightarrow> byte_sum (field_text (Tag_MsgType, v)))"
    by (simp only: toStringWithoutChecksum_def c sum_list_header_split [OF assms(2)])
  moreover have "byte_sum (toString_body ord m) = byte_sum (header_part m)
      + byte_sum (field_text (Tag_BodyLength, to_string_nat (calculateBodyLength ord m)))
      + byte_sum (field_text (Tag_MsgType, getMsgType m))
      + sum_list (map (\<lambda>p. if ?oth p then byte_sum (field_text p) else 0) ?fs)"
    by (simp only: toString_body_parts body_part_def byte_sum_append c add.assoc)
  ultimately show ?thesis
    by (simp add: header_part_def hasField_def getMsgType_def getFieldValue_def split: option.split)
qed

lemma to_string_nat_rec: "10 \<le> n \<Longrightarrow> to_string_nat n = to_string_nat (n div 10) @ [digit_char (n mod 10)]"
  by (subst to_string_nat.simps) simp

lemma length_to_string_nat_upper: "n < 10 ^ Suc k \<Longrightarrow> length (to_string_nat n) \<le> Suc k"
proof (induction k arbitrary: n)
  case 0
  then show ?case by (subst to_string_nat.simps) simp
next
  case (Suc k)
  show ?case
  proof (cases "n < 10")
    case True
    then show ?thesis by (subst to_string_nat.simps) simp
  next
    case False
    have "n div 10 < 10 ^ Suc k" using Suc.prems by (simp add: less_mult_imp_div_less mult.commute)
    with Suc.IH False show ?thesis by (simp add: to_string_nat_rec)
  qed
qed

lemma length_to_string_nat_lower: "10 ^ k \<le> n \<Longrightarrow> Suc k \<le> length (to_string_nat n)"
proof (induction k arbitrary: n)
  case 0
  then show ?case by (simp add: Suc_le_eq)
next
  case (Suc k)
  have "10 ^ k \<le> n div 10" using Suc.prems by (simp add: less_eq_div_iff_mult_less_eq mult.commute)
  moreover have "10 \<le> n" using Suc.prems by (metis le_trans mult.right_neutral mult_le_mono2 one_le_numeral one_le_power power_Suc)
  ultimately show ?case using Suc.IH [of "n div 10"] by (simp add: to_string_nat_rec)
qed

definition code_sum :: "string \<Rightarrow> nat" where
  "code_sum s = sum_list (map of_char s)"

lemma byte_sum_code_sum: "byte_sum s = of_nat (code_sum s)"
proof -
  have "(of_char c :: uint8) = of_nat (of_char c)" for c by (rule of_char_uint8)
  then show ?thesis by (induction s) (simp_all add: byte_sum_sum_list code_sum_def)
qed

lemma code_sum_digits: "\<forall>c \<in> set ds. is_digit c \<Longrightarrow> 48 * length ds \<le> code_sum ds \<and> code_sum ds \<le> 57 * length ds"
  by (induction ds) (auto simp: code_sum_def is_digit_def)

lemma byte_sum_eq_0_iff: "byte_sum s = 0 \<longleftrightarrow> 256 dvd code_sum s"
  by (simp add: byte_sum_code_sum word_of_nat_eq_0_iff)

lemma header_code_sums:
  "code_sum (field_text (Tag_BeginString, FIX_VERSION_44)) = 545"
  "code_sum (field_text (Tag_BodyLength, v)) = 119 + code_sum v"
proof -
  have "to_string_int Tag_BeginString = ''8''" "to_string_int Tag_BodyLength = ''9''" by code_simp+
  then show "code_sum (field_text (Tag_BeginString, FIX_VERSION_44)) = 545"
    "code_sum (field_text (Tag_BodyLength, v)) = 119 + code_sum v"
    by (simp_all add: field_text_def code_sum_def FIX_VERSION_44_def FIX_SOH_def)
qed

text \<open>The checksum that \<open>toString()\<close> emits is computed over the stored fields instead of the emitted text, so it misses the
  BodyLength field (and a defaulted BeginString): for a message with a MsgType and no stored BodyLength, whose body is shorter than a million bytes, and which stores
  its BeginString or has a body of at least 100 bytes, the emitted text never passes \<open>verifyChecksum\<close>.\<close>

lemma toString_unverifiable:
  assumes "iteration_order ord" "coherent ord m"
    and "hasField Tag_MsgType m" "\<not> hasField Tag_BodyLength m"
    and "calculateBodyLength ord m < 1000000"
    and "hasField Tag_BeginString m \<or> 100 \<le> calculateBodyLength ord m"
  shows "\<not> verifyChecksum (fst (toString ord m))"
proof -
  let ?len = "to_string_nat (calculateBodyLength ord m)"
  have d: "distinct (map fst (fm_fields m))" using assms(2) by (simp add: coherent_def)
  define g where "g = (if hasField Tag_BeginString m then 0 else 545) + (119 + code_sum ?len)"
  have gap: "byte_sum (toString_body ord m) = byte_sum (toStringWithoutChecksum ord m) + of_nat g"
    using serialise_checksum_gap [OF assms(1) d] assms(3,4)
    by (simp add: hasField_def g_def byte_sum_code_sum header_code_sums split: if_splits)
  have up: "length ?len \<le> 6"
    using length_to_string_nat_upper [of "calculateBodyLength ord m" 5] assms(5) by simp
  have lo: "1 \<le> length ?len" by (simp add: Suc_le_eq)
  have lo3: "3 \<le> length ?len" if "100 \<le> calculateBodyLength ord m"
    using length_to_string_nat_lower [of 2 "calculateBodyLength ord m"] that by simp
  have cs: "48 * length ?len \<le> code_sum ?len" "code_sum ?len \<le> 57 * length ?len"
    using code_sum_digits [OF to_string_nat_digits] by auto
  have between: "\<not> 256 dvd g" if "256 * k < g" "g < 256 * k + 256" for k
    using that by (auto elim!: dvdE)
  have "\<not> 256 dvd g"
  proof (cases "hasField Tag_BeginString m")
    case True
    then have g: "g = 119 + code_sum ?len" by (simp add: g_def)
    show ?thesis
    proof (cases "length ?len \<le> 2")
      case True
      with g cs lo have "0 < g" "g < 256" by linarith+
      then show ?thesis using between [of 0] by simp
    next
      case False
      with g cs up have "256 < g" "g < 512" by linarith+
      then show ?thesis using between [of 1] by simp
    qed
  next
    case False
    then have "g = 664 + code_sum ?len" "3 \<le> length ?len" using lo3 assms(6) by (simp_all add: g_def)
    with cs up have "768 < g" "g < 1024" by linarith+
    then show ?thesis using between [of 3] by simp
  qed
  then have "(of_nat g :: uint8) \<noteq> 0" by (simp add: word_of_nat_eq_0_iff)
  with gap have "byte_sum (toStringWithoutChecksum ord m) \<noteq> byte_sum (toString_body ord m)" by simp
  moreover have "fst (toString ord m) = serialise ord m"
    using assms(2) by (auto simp: toString_def coherent_def serialise_def Let_def)
  ultimately show ?thesis
    using verifyChecksum_trailer [of "toString_body ord m" "unat (byte_sum (toStringWithoutChecksum ord m))"]
    by (simp add: serialise_def calculateChecksum_def utils_calculateChecksum_def word_unat_eq_iff)
qed

section \<open>Reading the text back\<close>

lemma to_string_int_avoid: "CHR ''='' \<notin> set (to_string_int t)" "CHR 0x01 \<notin> set (to_string_int t)"
  using digits_avoid [OF to_string_nat_digits [of "nat t"]] digits_avoid [OF to_string_nat_digits [of "nat (- t)"]]
  by (simp_all add: to_string_int_def)

lemma parse_fields_step:
  assumes "in_int t" "FIX_SOH \<notin> set v" "raw = pre @ field_text (t, v) @ rest"
  shows "parse_fields raw (length pre) fs = parse_fields raw (length pre + length (field_text (t, v))) (AList.update t v fs)"
proof -
  let ?ts = "to_string_int t" and ?p = "length pre"
  have d: "drop ?p raw = ?ts @ CHR ''='' # v @ FIX_SOH # rest"
    by (simp add: assms(3) field_text_def)
  have lt: "?p < length raw" by (simp add: assms(3) field_text_def)
  have eq: "find_char (CHR ''='') raw ?p = Some (?p + length ?ts)"
    using to_string_int_avoid(1) by (simp add: find_char_def d index_of_append)
  have d2: "drop (?p + length ?ts) raw = CHR ''='' # v @ FIX_SOH # rest"
  proof -
    have "drop (?p + length ?ts) raw = drop (length ?ts) (drop ?p raw)" by (simp add: add.commute)
    then show ?thesis by (simp only: d) simp
  qed
  have soh: "find_char FIX_SOH raw (?p + length ?ts) = Some (?p + length ?ts + Suc (length v))"
    using assms(2) by (simp add: find_char_def d2 index_of_append) (simp add: FIX_SOH_def)
  have tag: "substr raw ?p (?p + length ?ts - ?p) = ?ts"
    by (simp add: substr_def d)
  have val: "substr raw (?p + length ?ts + 1) (?p + length ?ts + Suc (length v) - (?p + length ?ts) - 1) = v"
    using arg_cong [OF d2, of "drop 1"] by (simp add: substr_def)
  show ?thesis
    by (subst parse_fields.simps)
      (simp add: lt eq soh tag [simplified] val [simplified] stoi_to_string_int assms(1) field_text_def Let_def add.assoc)
qed

lemma parse_fields_concat:
  assumes "clean_fields l"
  shows "parse_fields (pre @ concat (map field_text l)) (length pre) fs = fold (\<lambda>(t, v). AList.update t v) l fs"
  using assms
proof (induction l arbitrary: pre fs)
  case Nil
  then show ?case by (simp add: parse_fields.simps)
next
  case (Cons p l)
  obtain t v where p: "p = (t, v)" by (cases p)
  have "parse_fields (pre @ concat (map field_text (p # l))) (length pre) fs =
      parse_fields ((pre @ field_text (t, v)) @ concat (map field_text l)) (length (pre @ field_text (t, v))) (AList.update t v fs)"
    using Cons.prems parse_fields_step [of t v "pre @ concat (map field_text (p # l))" pre "concat (map field_text l)" fs]
    by (simp add: p clean_fields_def)
  also have "\<dots> = fold (\<lambda>(t, v). AList.update t v) l (AList.update t v fs)"
    using Cons.prems by (intro Cons.IH) (simp add: clean_fields_def)
  finally show ?case by (simp add: p)
qed

lemma map_of_fold_update:
  "map_of (fold (\<lambda>(t, v). AList.update t v) l fs) t = (case map_of (rev l) t of None \<Rightarrow> map_of fs t | Some v \<Rightarrow> Some v)"
proof (induction l arbitrary: fs)
  case (Cons p l)
  then show ?case
    by (cases p) (auto simp: map_of_append map_add_def update_conv' split: option.split)
qed simp

text \<open>The entries in the order in which \<open>toString()\<close> writes them.\<close>

definition emitted :: "(fields \<Rightarrow> fields) \<Rightarrow> fix_message \<Rightarrow> fields" where
  "emitted ord m =
     (Tag_BeginString, if hasField Tag_BeginString m then getFieldValue Tag_BeginString m else FIX_VERSION_44)
     # (Tag_BodyLength, to_string_nat (calculateBodyLength ord m)) # (Tag_MsgType, getMsgType m)
     # filter (\<lambda>f. fst f \<noteq> Tag_BeginString \<and> fst f \<noteq> Tag_BodyLength \<and> fst f \<noteq> Tag_MsgType \<and> fst f \<noteq> Tag_CheckSum) (ord (fm_fields m))
     @ [(Tag_CheckSum, calculateChecksum ord m)]"

lemma concat_map_filter: "concat (map (\<lambda>f. if P f then g f else []) xs) = concat (map g (filter P xs))"
  by (induction xs) auto

lemma serialise_emitted: "serialise ord m = concat (map field_text (emitted ord m))"
  by (simp add: serialise_def toString_body_def emitted_def concat_map_filter)

lemma in_int_tags: "in_int Tag_BeginString" "in_int Tag_BodyLength" "in_int Tag_MsgType" "in_int Tag_CheckSum"
  by (simp_all add: in_int_def INT_MIN_def INT_MAX_def tag_defs)

lemma clean_emitted:
  assumes "iteration_order ord" "clean_fields (fm_fields m)"
  shows "clean_fields (emitted ord m)"
proof -
  have "set (ord (fm_fields m)) = set (fm_fields m)"
    using assms(1) by (metis iteration_order_def set_mset_mset)
  moreover have "FIX_SOH \<notin> set (getFieldValue t m)" for t
  proof (cases "map_of (fm_fields m) t")
    case (Some v)
    then have "(t, v) \<in> set (fm_fields m)" by (rule map_of_SomeD)
    with Some assms(2) show ?thesis by (auto simp: getFieldValue_def clean_fields_def)
  qed (simp add: getFieldValue_def)
  moreover have "FIX_SOH \<notin> set (to_string_nat n)" "FIX_SOH \<notin> set (padded w n)" for n w
    unfolding FIX_SOH_def by (rule digits_avoid; simp add: to_string_nat_digits padded_digits)+
  moreover have "FIX_SOH \<notin> set FIX_VERSION_44" by (simp add: FIX_SOH_def FIX_VERSION_44_def)
  ultimately show ?thesis
    using assms(2)
    by (auto simp: clean_fields_def emitted_def in_int_tags getMsgType_def calculateChecksum_def utils_calculateChecksum_def)
qed

lemma map_of_framed:
  "map_of ((k0, v0) # l @ [(k1, v1), (k2, v2), (k3, v3)]) t =
    (if t = k0 then Some v0
     else case map_of l t of Some v \<Rightarrow> Some v
        | None \<Rightarrow> if t = k1 then Some v1 else if t = k2 then Some v2 else if t = k3 then Some v3 else None)"
  by (induction l) auto

lemma map_of_emitted:
  assumes "iteration_order ord" "distinct (map fst (fm_fields m))"
  shows "map_of (rev (emitted ord m)) t =
    (if t = Tag_BeginString then Some (if hasField Tag_BeginString m then getFieldValue Tag_BeginString m else FIX_VERSION_44)
     else if t = Tag_BodyLength then Some (to_string_nat (calculateBodyLength ord m))
     else if t = Tag_MsgType then Some (getMsgType m)
     else if t = Tag_CheckSum then Some (calculateChecksum ord m)
     else map_of (fm_fields m) t)"
proof -
  let ?l = "rev (filter (\<lambda>f. fst f \<noteq> Tag_BeginString \<and> fst f \<noteq> Tag_BodyLength \<and> fst f \<noteq> Tag_MsgType \<and> fst f \<noteq> Tag_CheckSum) (ord (fm_fields m)))"
  have ms: "mset (ord (fm_fields m)) = mset (fm_fields m)" using assms(1) by (simp add: iteration_order_def)
  then have s: "set (ord (fm_fields m)) = set (fm_fields m)" by (metis set_mset_mset)
  have "mset (map fst (ord (fm_fields m))) = mset (map fst (fm_fields m))" using ms by (metis mset_map)
  then have "distinct (map fst (ord (fm_fields m)))" using assms(2) by (metis mset_eq_imp_distinct_iff)
  then have dl: "distinct (map fst ?l)" by (simp add: rev_map [symmetric] distinct_map_filter)
  have ml: "map_of ?l t = (if t \<in> {Tag_BeginString, Tag_BodyLength, Tag_MsgType, Tag_CheckSum} then None else map_of (fm_fields m) t)"
  proof (cases "map_of ?l t")
    case None
    then have "t \<notin> fst ` set ?l" by (simp only: map_of_eq_None_iff not_False_eq_True)
    then have "t \<notin> {Tag_BeginString, Tag_BodyLength, Tag_MsgType, Tag_CheckSum} \<Longrightarrow> t \<notin> fst ` set (fm_fields m)"
      using s by auto
    then show ?thesis unfolding None by (simp add: map_of_eq_None_iff [symmetric])
  next
    case (Some v)
    then have "(t, v) \<in> set ?l" by (rule map_of_SomeD)
    then have "t \<notin> {Tag_BeginString, Tag_BodyLength, Tag_MsgType, Tag_CheckSum}" "(t, v) \<in> set (fm_fields m)"
      using s by auto
    then show ?thesis unfolding Some using assms(2) by (simp add: map_of_is_SomeI)
  qed
  define l where "l = ?l"
  have "rev (emitted ord m) = (Tag_CheckSum, calculateChecksum ord m) # l @ [(Tag_MsgType, getMsgType m),
      (Tag_BodyLength, to_string_nat (calculateBodyLength ord m)),
      (Tag_BeginString, if hasField Tag_BeginString m then getFieldValue Tag_BeginString m else FIX_VERSION_44)]"
    by (simp add: emitted_def l_def)
  then have "map_of (rev (emitted ord m)) t = (if t = Tag_CheckSum then Some (calculateChecksum ord m)
      else case map_of l t of Some v \<Rightarrow> Some v
        | None \<Rightarrow> if t = Tag_MsgType then Some (getMsgType m)
                  else if t = Tag_BodyLength then Some (to_string_nat (calculateBodyLength ord m))
                  else if t = Tag_BeginString then Some (if hasField Tag_BeginString m then getFieldValue Tag_BeginString m else FIX_VERSION_44)
                  else None)"
    by (simp only: map_of_framed)
  also have "\<dots> = (if t = Tag_BeginString then Some (if hasField Tag_BeginString m then getFieldValue Tag_BeginString m else FIX_VERSION_44)
     else if t = Tag_BodyLength then Some (to_string_nat (calculateBodyLength ord m))
     else if t = Tag_MsgType then Some (getMsgType m)
     else if t = Tag_CheckSum then Some (calculateChecksum ord m)
     else map_of (fm_fields m) t)"
    unfolding ml [folded l_def] by (simp add: tag_defs split: option.split)
  finally show ?thesis .
qed

lemma parse_toString:
  assumes "iteration_order ord" "coherent ord m" "clean_fields (fm_fields m)"
  shows "getField t (FixMessage_of_string now (fst (toString ord m))) =
    (if t = Tag_BeginString then Some (if hasField Tag_BeginString m then getFieldValue Tag_BeginString m else FIX_VERSION_44)
     else if t = Tag_BodyLength then Some (to_string_nat (calculateBodyLength ord m))
     else if t = Tag_MsgType then Some (getMsgType m)
     else if t = Tag_CheckSum then Some (calculateChecksum ord m)
     else case getField t m of
            Some v \<Rightarrow> Some v
          | None \<Rightarrow> if t = Tag_SendingTime then Some (formatSendingTime now) else None)"
proof -
  let ?new = "fm_fields (new_FixMessage now)"
  have s: "fst (toString ord m) = serialise ord m" "distinct (map fst (fm_fields m))"
    using assms(2) by (auto simp: toString_def coherent_def serialise_def Let_def)
  have ne: "serialise ord m \<noteq> []" by (simp add: serialise_def field_text_def)
  have "parse_fields (serialise ord m) 0 ?new = fold (\<lambda>(t, v). AList.update t v) (emitted ord m) ?new"
    using parse_fields_concat [OF clean_emitted [OF assms(1,3)], of "[]"] by (simp add: serialise_emitted)
  then have "getField t (FixMessage_of_string now (fst (toString ord m))) =
      (case map_of (rev (emitted ord m)) t of None \<Rightarrow> map_of ?new t | Some v \<Rightarrow> Some v)"
    by (simp add: s(1) ne FixMessage_of_string_def parseFromString_def getField_def map_of_fold_update Let_def)
  also have new: "map_of ?new t = (if t = Tag_SendingTime then Some (formatSendingTime now) else None)"
    by (simp add: new_FixMessage_def setSendingTime_def setField_def setFieldInternal_def update_conv' empty_message_def)
  finally show ?thesis
    unfolding map_of_emitted [OF assms(1) s(2)] getField_def by (simp split: option.split)
qed

text \<open>C5: Constructing a message from the text of another gives back its fields: every tag of the original with its value,
  except that BeginString is defaulted, BodyLength and CheckSum are the emitted ones, MsgType is always present, and a SendingTime stamp is
  added when the original has none. Values must not contain the field delimiter.\<close>

theorem parse_toString_roundtrip:
  assumes "iteration_order ord" "coherent ord m" "clean_fields (fm_fields m)"
  shows "getField t (FixMessage_of_string now (fst (toString ord m))) =
    (if t = Tag_BeginString then Some (if hasField Tag_BeginString m then getFieldValue Tag_BeginString m else FIX_VERSION_44)
     else if t = Tag_BodyLength then Some (to_string_nat (calculateBodyLength ord m))
     else if t = Tag_MsgType then Some (getMsgType m)
     else if t = Tag_CheckSum then Some (calculateChecksum ord m)
     else case getField t m of
            Some v \<Rightarrow> Some v
          | None \<Rightarrow> if t = Tag_SendingTime then Some (formatSendingTime now) else None)"
  using assms by (rule parse_toString)

lemma parse_toString_roundtrip_witness:
  "getField Tag_SenderCompID (FixMessage_of_string 0 (fst (toString rev (setField Tag_MsgType ''0'' (setField Tag_SenderCompID ''GW'' empty_message)))))
    = Some ''GW''"
proof -
  let ?m = "setField Tag_MsgType ''0'' (setField Tag_SenderCompID ''GW'' empty_message)"
  have "iteration_order rev" "coherent rev ?m"
    by (simp_all add: iteration_order_def setField_def coherent_setField)
  moreover have "clean_fields (fm_fields ?m)"
    by (simp add: clean_fields_def setField_def setFieldInternal_def empty_message_def in_int_def INT_MIN_def INT_MAX_def tag_defs FIX_SOH_def)
  moreover have "getField Tag_SenderCompID ?m = Some ''GW''" by code_simp
  ultimately show ?thesis
    using parse_toString_roundtrip [of rev ?m Tag_SenderCompID 0] by (simp add: tag_defs)
qed

end
