(* ===== verification/Parser_Wire.thy ===== *)
theory Parser_Wire
  imports Parser_Decode Fix_Serialisation
begin

text \<open>
  Decoding of well-formed FIX messages by stage 2 of \<open>StreamFixParser\<close>: a message whose BodyLength counts the bytes between
  its own field and the checksum field, as FIX defines it, closed with the checksum of everything before it.
\<close>

section \<open>Decoding well-formed fields\<close>

definition wire_fields :: "fields \<Rightarrow> bool" where
  "wire_fields fs \<longleftrightarrow> (\<forall>(t, v) \<in> set fs. 0 \<le> t \<and> t \<le> INT_MAX \<and> FIX_SOH \<notin> set v)"

definition fields_text :: "fields \<Rightarrow> string" where
  "fields_text fs = concat (map field_text fs)"

definition set_fields :: "fields \<Rightarrow> fix_message \<Rightarrow> fix_message" where
  "set_fields fs m = fold (\<lambda>(t, v). setField t v) fs m"

lemma parseInteger_tag: "0 \<le> t \<Longrightarrow> t \<le> INT_MAX \<Longrightarrow> parseInteger (to_string_int t) = Int_Ok t"
  by (simp add: to_string_int_def)

lemma tag_text_avoid: "0 \<le> t \<Longrightarrow> CHR ''='' \<notin> set (to_string_int t)"
  using digits_avoid [OF to_string_nat_digits [of "nat t"]] by (simp add: to_string_int_def)

lemma memchr_hit:
  assumes "drop pos mem = xs @ c # ys" "c \<notin> set xs" "length xs < n"
  shows "memchr mem pos n c = Found (pos + length xs)"
  using assms index_of_take_append [of c xs n ys] by (simp add: memchr_def)

lemma optimized_fields_step:
  assumes "drop cur mem = field_text (t, v) @ rest" "0 \<le> t" "t \<le> INT_MAX" "FIX_SOH \<notin> set v"
    "cur + length (field_text (t, v)) \<le> body_end"
  shows "optimized_fields mem cur body_end m = optimized_fields mem (cur + length (field_text (t, v))) body_end (setField t v m)"
proof -
  let ?ts = "to_string_int t"
  have d: "drop cur mem = ?ts @ CHR ''='' # v @ FIX_SOH # rest" using assms(1) by (simp add: field_text_def)
  have l: "length (field_text (t, v)) = length ?ts + length v + 2" by (simp add: field_text_def)
  have eq: "memchr mem cur (body_end - cur) (CHR ''='') = Found (cur + length ?ts)"
    using d tag_text_avoid [OF assms(2)] assms(5) l by (intro memchr_hit) auto
  have "drop (cur + length ?ts + 1) mem = drop (length ?ts + 1) (drop cur mem)" by (simp add: ac_simps)
  then have d2: "drop (cur + length ?ts + 1) mem = v @ FIX_SOH # rest" by (simp only: d) simp
  have soh: "memchr mem (cur + length ?ts + 1) (body_end - (cur + length ?ts + 1)) FIX_SOH = Found (cur + length ?ts + 1 + length v)"
    using d2 assms(4,5) l by (intro memchr_hit) auto
  have tag: "substr mem cur (cur + length ?ts - cur) = ?ts" by (simp add: substr_def d)
  have val: "substr mem (cur + length ?ts + 1) (cur + length ?ts + 1 + length v - (cur + length ?ts + 1)) = v"
    unfolding substr_def d2 by simp
  have lt: "cur < body_end" using assms(5) l by simp
  show ?thesis
    by (subst optimized_fields.simps) (simp add: lt eq tag [simplified] soh [simplified] val [simplified] parseInteger_tag assms(2,3) l ac_simps)
qed

lemma optimized_fields_wire:
  assumes "wire_fields fs" "drop cur mem = fields_text fs @ rest"
  shows "optimized_fields mem cur (cur + length (fields_text fs)) m = Fields_Done (set_fields fs m)"
  using assms
proof (induction fs arbitrary: cur m)
  case Nil
  then show ?case by (simp add: optimized_fields.simps fields_text_def set_fields_def)
next
  case (Cons f fs)
  obtain t v where f: "f = (t, v)" by (cases f)
  have d: "drop cur mem = field_text (t, v) @ fields_text fs @ rest"
    using Cons.prems(2) by (simp add: fields_text_def f)
  have "drop (cur + length (field_text (t, v))) mem = drop (length (field_text (t, v))) (drop cur mem)"
    by (simp add: add.commute)
  then have d2: "drop (cur + length (field_text (t, v))) mem = fields_text fs @ rest" by (simp only: d) simp
  have len: "cur + length (fields_text (f # fs)) = cur + length (field_text (t, v)) + length (fields_text fs)"
    by (simp add: fields_text_def f)
  have "optimized_fields mem cur (cur + length (fields_text (f # fs))) m
      = optimized_fields mem (cur + length (field_text (t, v))) (cur + length (fields_text (f # fs))) (setField t v m)"
    using Cons.prems(1) by (intro optimized_fields_step [OF d]) (auto simp: wire_fields_def f fields_text_def)
  also note len
  also have "optimized_fields mem (cur + length (field_text (t, v))) (cur + length (field_text (t, v)) + length (fields_text fs)) (setField t v m)
      = Fields_Done (set_fields fs (setField t v m))"
    using Cons.prems(1) d2 by (intro Cons.IH) (auto simp: wire_fields_def)
  finally show ?case by (simp add: set_fields_def f split_def len [unfolded f])
qed

lemma message_fields_step:
  assumes "drop cur buf = field_text (t, v) @ rest" "0 \<le> t" "t \<le> INT_MAX" "FIX_SOH \<notin> set v" "t \<noteq> Tag_CheckSum"
  shows "message_fields buf cur m = message_fields buf (cur + length (field_text (t, v))) (setField t v m)"
proof -
  let ?ts = "to_string_int t"
  have d: "drop cur buf = ?ts @ CHR ''='' # v @ FIX_SOH # rest" using assms(1) by (simp add: field_text_def)
  have l: "length (field_text (t, v)) = length ?ts + length v + 2" by (simp add: field_text_def)
  have lt: "cur < length buf" using d by (metis drop_all append_is_Nil_conv list.distinct(1) not_le)
  have eq: "find_char (CHR ''='') buf cur = Some (cur + length ?ts)"
    using index_of_append [OF tag_text_avoid [OF assms(2)], of "v @ FIX_SOH # rest"] by (simp add: find_char_def d)
  have "drop (cur + length ?ts + 1) buf = drop (length ?ts + 1) (drop cur buf)" by (simp add: ac_simps)
  then have d2: "drop (cur + length ?ts + 1) buf = v @ FIX_SOH # rest" by (simp only: d) simp
  have soh: "find_char FIX_SOH buf (cur + length ?ts + 1) = Some (cur + length ?ts + 1 + length v)"
    using index_of_append [OF assms(4), of rest] d2 by (simp only: find_char_def) simp
  have tag: "substr buf cur (cur + length ?ts - cur) = ?ts" by (simp add: substr_def d)
  have val: "substr buf (cur + length ?ts + 1) (cur + length ?ts + 1 + length v - (cur + length ?ts + 1)) = v"
    unfolding substr_def d2 by simp
  show ?thesis
    by (subst message_fields.simps)
      (simp add: lt eq tag [simplified] soh [simplified] val [simplified] parseInteger_tag assms(2,3,5) l ac_simps Let_def)
qed

lemma message_fields_wire:
  assumes "wire_fields fs" "Tag_CheckSum \<notin> fst ` set fs" "drop cur buf = fields_text fs"
  shows "message_fields buf cur m = Fields_Done (set_fields fs m)"
  using assms
proof (induction fs arbitrary: cur m)
  case Nil
  then show ?case by (simp add: message_fields.simps fields_text_def set_fields_def)
next
  case (Cons f fs)
  obtain t v where f: "f = (t, v)" by (cases f)
  have d: "drop cur buf = field_text (t, v) @ fields_text fs"
    using Cons.prems(3) by (simp add: fields_text_def f)
  have "drop (cur + length (field_text (t, v))) buf = drop (length (field_text (t, v))) (drop cur buf)"
    by (simp add: add.commute)
  then have d2: "drop (cur + length (field_text (t, v))) buf = fields_text fs" by (simp only: d) simp
  have "message_fields buf cur m = message_fields buf (cur + length (field_text (t, v))) (setField t v m)"
    using Cons.prems(1,2) by (intro message_fields_step [OF d]) (auto simp: wire_fields_def f)
  also have "\<dots> = Fields_Done (set_fields fs (setField t v m))"
    using Cons.prems(1,2) d2 by (intro Cons.IH) (auto simp: wire_fields_def)
  finally show ?case by (simp add: set_fields_def f split_def)
qed

section \<open>Wire messages\<close>

definition wire_body :: "string \<Rightarrow> fields \<Rightarrow> string" where
  "wire_body ty fs = fields_text ((Tag_MsgType, ty) # fs)"

definition wire_frame :: "string \<Rightarrow> fields \<Rightarrow> string" where
  "wire_frame ty fs = frame (wire_body ty fs)"

definition wire_checksum :: "string \<Rightarrow> fields \<Rightarrow> string" where
  "wire_checksum ty fs = utils_calculateChecksum (wire_frame ty fs)"

definition wire_message :: "string \<Rightarrow> fields \<Rightarrow> string" where
  "wire_message ty fs = wire_frame ty fs @ field_text (Tag_CheckSum, wire_checksum ty fs)"

text \<open>The message types with a specialised decoder, and the shortest frame each of them accepts.\<close>

definition optimized_type :: "string \<Rightarrow> bool" where
  "optimized_type ty \<longleftrightarrow> ty \<in> {''8'', ''0'', ''9'', ''3'', ''1'', ''2''}"

definition min_frame :: "string \<Rightarrow> nat" where
  "min_frame ty = (if ty = ''8'' then 40 else if ty = ''0'' \<or> ty = ''9'' then 30 else 25)"

definition wire_ok :: "nat \<Rightarrow> string \<Rightarrow> fields \<Rightarrow> bool" where
  "wire_ok max_size ty fs \<longleftrightarrow> ty \<noteq> [] \<and> FIX_SOH \<notin> set ty \<and> wire_fields fs \<and> int (length (wire_body ty fs)) \<le> to_int32 max_size"

text \<open>The field values a decoded message holds.\<close>

definition decoded :: "clock \<Rightarrow> string \<Rightarrow> fields \<Rightarrow> fix_message" where
  "decoded ck ty fs =
    set_fields ([(Tag_BeginString, ''FIX.4.4''), (Tag_MsgType, ty), (Tag_BodyLength, int_to_string (int (length (wire_body ty fs)))),
      (Tag_MsgType, ty)] @ fs @ [(Tag_CheckSum, wire_checksum ty fs)]) (new_FixMessage (ck_system ck))"

lemma fields_text_simps [simp]:
  "fields_text [] = []" "fields_text (f # fs) = field_text f @ fields_text fs" "fields_text (fs @ gs) = fields_text fs @ fields_text gs"
  by (simp_all add: fields_text_def)

lemma set_fields_simps [simp]:
  "set_fields [] m = m" "set_fields ((t, v) # fs) m = set_fields fs (setField t v m)"
  "set_fields (fs @ gs) m = set_fields gs (set_fields fs m)"
  by (simp_all add: set_fields_def)

lemma getField_set_fields: "getField t (set_fields fs m) = (case map_of (rev fs) t of Some v \<Rightarrow> Some v | None \<Rightarrow> getField t m)"
  by (induction fs arbitrary: m rule: rev_induct) (auto simp: getField_setField split: option.split)

lemma length_checksum: "length (wire_checksum ty fs) = 3"
proof -
  have "unat (byte_sum s) < 10 ^ Suc 2" for s
    using unsigned_less [of "byte_sum s", where 'a = nat] by simp
  then have "length (to_string_nat (unat (byte_sum s))) \<le> 3" for s
    using length_to_string_nat_upper [of "unat (byte_sum s)" 2] by (simp add: numeral_3_eq_3)
  then show ?thesis by (simp add: wire_checksum_def utils_calculateChecksum_def padded_def)
qed

lemma stoi_checksum: "stoi (wire_checksum ty fs) = Inr (int (unat (byte_sum (wire_frame ty fs))))"
proof -
  let ?c = "wire_checksum ty fs"
  have "uint (byte_sum (wire_frame ty fs)) < 256"
    using unsigned_less [of "byte_sum (wire_frame ty fs)", where 'a = int] by simp
  then have "int (digits_value ?c) \<le> INT_MAX" by (simp add: wire_checksum_def utils_calculateChecksum_def INT_MAX_def)
  moreover have "?c \<noteq> []" using length_checksum [of ty fs] by auto
  ultimately show ?thesis
    using stoi_digits [of ?c "[]"] padded_digits [of 3]
    by (simp add: wire_checksum_def utils_calculateChecksum_def)
qed

lemma msgtype_text: "field_text (Tag_MsgType, v) = ''35='' @ v @ [FIX_SOH]"
proof -
  have "to_string_int Tag_MsgType = ''35''" by code_simp
  then show ?thesis by (simp add: field_text_def)
qed

lemma search_digits:
  "\<forall>c \<in> set ds. is_digit c \<Longrightarrow> search ''35='' (ds @ FIX_SOH # ''35='' @ r) = Some (length ds + 1)"
proof (induction ds)
  case (Cons d ds)
  have "take (Suc (Suc (Suc 0))) (d # ds @ FIX_SOH # ''35='' @ r) \<noteq> ''35=''"
    using Cons.prems by (cases ds; cases "tl ds") (auto simp: FIX_SOH_def is_digit_def)
  with Cons show ?case by simp
qed (simp add: FIX_SOH_def)

lemma extractMsgType_wire:
  assumes "FIX_SOH \<notin> set ty"
  shows "extractMsgType (wire_frame ty fs) = ty"
proof -
  let ?ds = "to_string_nat (length (wire_body ty fs))"
  define h where "h = ''8=FIX.4.4'' @ FIX_SOH # ''9='' @ ?ds @ [FIX_SOH] @ ''35=''"
  have w: "wire_frame ty fs = h @ ty @ FIX_SOH # fields_text fs"
    using frame_expand [of "wire_body ty fs" "[]"] by (simp add: wire_frame_def wire_body_def msgtype_text h_def)
  have l: "length h = 13 + length ?ds + 3" by (simp add: h_def)
  have "search ''35='' (wire_frame ty fs) = Some (13 + length ?ds)"
    unfolding w h_def using search_digits [OF to_string_nat_digits [of "length (wire_body ty fs)"], of "ty @ FIX_SOH # fields_text fs"]
    by (simp add: FIX_SOH_def)
  moreover have "find_char FIX_SOH (wire_frame ty fs) (length h) = Some (length h + length ty)"
    unfolding w using index_of_append [OF assms, of "fields_text fs"] by (simp add: find_char_def)
  moreover have "substr (wire_frame ty fs) (length h) (length ty) = ty"
    unfolding w by (simp add: substr_def)
  ultimately show ?thesis by (simp add: extractMsgType_def l)
qed

text \<open>The message before the checksum field is looked at.\<close>

definition decoded_body :: "clock \<Rightarrow> string \<Rightarrow> fields \<Rightarrow> fix_message" where
  "decoded_body ck ty fs =
    set_fields ([(Tag_BeginString, ''FIX.4.4''), (Tag_MsgType, ty), (Tag_BodyLength, int_to_string (int (length (wire_body ty fs)))),
      (Tag_MsgType, ty)] @ fs) (new_FixMessage (ck_system ck))"

lemma decoded_decoded_body: "decoded ck ty fs = setField Tag_CheckSum (wire_checksum ty fs) (decoded_body ck ty fs)"
  by (simp add: decoded_def decoded_body_def)

lemma hasField_decoded_body: "hasField Tag_MsgType (decoded_body ck ty fs)"
  by (auto simp: hasField_getField decoded_body_def getField_set_fields getField_setField split: option.splits)

lemma wire_body_not_Nil: "wire_body ty fs \<noteq> []"
  by (simp add: wire_body_def msgtype_text)

lemma last_fields_text: "fs \<noteq> [] \<Longrightarrow> last (fields_text fs) = FIX_SOH"
proof (induction fs rule: rev_induct)
  case (snoc f fs)
  then show ?case by (simp add: field_text_def)
qed simp

lemma last_wire_frame: "wire_frame ty fs ! (length (wire_frame ty fs) - 1) = FIX_SOH"
proof -
  have "wire_frame ty fs \<noteq> []" "last (wire_frame ty fs) = FIX_SOH"
    using wire_body_not_Nil last_fields_text [of "(Tag_MsgType, ty) # fs"] by (simp_all add: wire_frame_def frame_def wire_body_def)
  then show ?thesis by (simp add: last_conv_nth)
qed

lemma wire_ok_fields: "wire_ok mx ty fs \<Longrightarrow> wire_fields ((Tag_MsgType, ty) # fs)"
  by (simp add: wire_ok_def wire_fields_def Tag_MsgType_def INT_MAX_def)

lemma to_int32_le: "to_int32 n \<le> INT_MAX"
  by (simp add: to_int32_def INT_MAX_def)

lemma parse_optimized_frame:
  assumes ok: "wire_ok mx ty fs" and mem: "mem = wire_frame ty fs @ tail" and len: "len = length (wire_frame ty fs)"
    and min: "min_len \<le> len" and new: "new_message ck p = (a, p1)" "a \<noteq> 0"
  shows "parse_optimized min_len soh positions check ty ck mem len p = optimized_trailer positions mem len a (decoded_body ck ty fs) p1"
proof -
  let ?b = "wire_body ty fs" and ?ds = "to_string_nat (length (wire_body ty fs))"
  have w: "mem = ''8=FIX.4.4'' @ FIX_SOH # ''9='' @ ?ds @ FIX_SOH # ?b @ tail"
    using frame_expand [of ?b tail] by (simp add: mem wire_frame_def)
  have l: "len = 13 + length ?ds + length ?b" by (simp add: len wire_frame_def length_frame)
  have soh: "mem ! (len - 1) = FIX_SOH"
    using last_wire_frame [of ty fs] by (simp add: mem len nth_append wire_frame_def length_frame)
  have bs: "substr mem 0 9 = FIX_BEGIN_STRING" by (simp add: w substr_def FIX_BEGIN_STRING_def)
  have d12: "drop 12 mem = ?ds @ FIX_SOH # ?b @ tail" by (simp add: w)
  have blen: "memchr mem 12 (len - 12) FIX_SOH = Found (12 + length ?ds)"
    using soh_not_in_digits l by (intro memchr_hit [OF d12]) simp_all
  have val: "substr mem 12 (12 + length ?ds - 12) = ?ds" by (simp add: substr_def d12)
  have imax: "int (length ?b) \<le> INT_MAX" using ok to_int32_le [of mx] by (simp add: wire_ok_def)
  have "drop (12 + length ?ds + 1) mem = drop (length ?ds + 1) (drop 12 mem)" by (simp add: ac_simps)
  then have "drop (12 + length ?ds + 1) mem = fields_text ((Tag_MsgType, ty) # fs) @ tail"
    by (simp only: d12) (simp add: wire_body_def)
  from optimized_fields_wire [OF wire_ok_fields [OF ok] this]
  have fields: "optimized_fields mem (13 + length ?ds) len m
      = Fields_Done (set_fields ((Tag_MsgType, ty) # fs) m)" for m
    by (simp add: wire_body_def l add.assoc)
  have be: "13 + length ?ds + length ?b = len" and len9: "\<not> len < 9" by (simp_all add: l)
  show ?thesis
    using min new hasField_decoded_body [of ck ty fs]
    by (simp add: parse_optimized_def soh bs blen val [simplified] parseInteger_to_string_nat [OF imax]
        fields be len9 Let_def decoded_body_def del: One_nat_def)
qed

lemma optimized_trailer_wire:
  assumes "mem = wire_message ty fs @ rest" "len = length (wire_frame ty fs)"
  shows "optimized_trailer positions mem len a (decoded_body ck ty fs) p
    = (Returns (result Success (length (wire_message ty fs)) a IDLE 0), store_message a (decoded ck ty fs) p)"
proof -
  have d: "drop len mem = ''10='' @ wire_checksum ty fs @ FIX_SOH # rest"
    by (simp add: assms wire_message_def field_text_CheckSum)
  have m: "match_at ''10='' (drop len mem) = Some True" unfolding d by (rule match_at_append)
  have "drop (len + 3) mem = drop 3 (drop len mem)" by (simp add: add.commute)
  then have c: "substr mem (len + 3) 3 = wire_checksum ty fs"
    unfolding substr_def d by (simp add: length_checksum)
  have t: "take len mem = wire_frame ty fs" by (simp add: assms wire_message_def)
  have l: "length (wire_message ty fs) = len + 7" by (simp add: wire_message_def field_text_CheckSum assms(2) length_checksum)
  have lm: "\<not> len + 6 > length mem" by (simp add: assms(1) l)
  show ?thesis
    using lm by (simp add: optimized_trailer_def m c t stoi_checksum decoded_decoded_body l Let_def)
qed

lemma parseIntelligent_dispatch:
  assumes "extractMsgType (take len mem) = ty" "optimized_type ty"
  shows "parseIntelligent ck mem len p =
    parse_optimized (min_frame ty) (ty \<notin> {''1'', ''2''}) (ty \<notin> {''1'', ''2''}) (ty \<in> {''8'', ''9''}) ty ck mem len p"
  using assms(2) unfolding optimized_type_def
  by (auto simp: parseIntelligent_def assms(1) parseExecutionReport_def parseHeartbeat_def parseOrderCancelReject_def
      parseReject_def parseTestRequest_def parseResendRequest_def min_frame_def)

lemma parseIntelligent_frame:
  assumes "wire_ok mx ty fs" "optimized_type ty" "mem = wire_frame ty fs @ tail" "len = length (wire_frame ty fs)"
    "min_frame ty \<le> len" "new_message ck p = (a, p1)" "a \<noteq> 0"
  shows "\<exists>positions. parseIntelligent ck mem len p = optimized_trailer positions mem len a (decoded_body ck ty fs) p1"
proof -
  have "extractMsgType (take len mem) = ty"
    using extractMsgType_wire [of ty fs] assms(1,3,4) by (simp add: wire_ok_def)
  from parseIntelligent_dispatch [OF this assms(2)] parse_optimized_frame [OF assms(1,3-7)]
  show ?thesis by auto
qed

lemma parseCompleteMessage_wire:
  assumes "wire_ok mx ty fs" "optimized_type ty" "mem = wire_message ty fs @ rest" "len = length (wire_frame ty fs)"
    "min_frame ty \<le> len" "new_message ck p = (a, p1)" "a \<noteq> 0"
  shows "parseCompleteMessage ck mem len p
    = (Returns (result Success (length (wire_message ty fs)) a IDLE 0), store_message a (decoded ck ty fs) p1)"
proof -
  have mem: "mem = wire_frame ty fs @ (field_text (Tag_CheckSum, wire_checksum ty fs) @ rest)"
    by (simp add: assms(3) wire_message_def)
  have "len \<noteq> 0" by (simp add: assms(4) wire_frame_def frame_def frame_header_def)
  with parseIntelligent_frame [OF assms(1,2) mem assms(4-7)] optimized_trailer_wire [OF assms(3,4)]
  show ?thesis by (auto simp: parseCompleteMessage_def result_def)
qed

text \<open>Once the frame is in but its checksum field is not, the decoder reads past the end of the data.\<close>

lemma parseCompleteMessage_cut:
  assumes "wire_ok mx ty fs" "optimized_type ty" "mem = take (length (wire_frame ty fs) + k) (wire_message ty fs)" "k < 6"
    "len = length (wire_frame ty fs)" "min_frame ty \<le> len" "new_message ck p = (a, p1)" "a \<noteq> 0"
  shows "fst (parseCompleteMessage ck mem len p) = Undefined"
proof -
  let ?tail = "take k (''10='' @ wire_checksum ty fs @ [FIX_SOH])"
  have mem: "mem = wire_frame ty fs @ ?tail"
    by (simp add: assms(3) wire_message_def field_text_CheckSum)
  have d: "drop len mem = ?tail" by (simp add: mem assms(5))
  have lm: "length mem < len + 6" using assms(4) by (simp add: mem assms(5) length_checksum)
  have "k < 3 \<Longrightarrow> match_at ''10='' ?tail = None"
    using match_at_cut [of k "''10=''"] by (simp add: take_Cons split: nat.split)
  moreover have "\<not> k < 3 \<Longrightarrow> match_at ''10='' ?tail = Some True"
    by (cases k; cases "k - 1"; cases "k - 2") simp_all
  ultimately have "fst (optimized_trailer positions mem len a m p1) = Undefined" for positions m
    using lm by (cases "k < 3") (simp_all add: optimized_trailer_def d)
  moreover have "len \<noteq> 0" by (simp add: assms(5) wire_frame_def frame_def frame_header_def)
  ultimately show ?thesis
    using parseIntelligent_frame [OF assms(1,2) mem assms(5-8)]
    by (auto simp: parseCompleteMessage_def split: prod.splits outcome.splits)
      (metis fst_conv outcome.distinct(3,5))+
qed

section \<open>Types without a specialised decoder\<close>

lemma wire_frame_fields:
  "wire_frame ty fs = fields_text ((Tag_BeginString, ''FIX.4.4'') # (Tag_BodyLength, to_string_nat (length (wire_body ty fs))) # (Tag_MsgType, ty) # fs)"
proof -
  have "to_string_int Tag_BeginString = ''8''" "to_string_int Tag_BodyLength = ''9''" by code_simp+
  then show ?thesis
    by (simp add: wire_frame_def frame_def frame_header_def FIX_BEGIN_STRING_def field_text_def wire_body_def)
qed

lemma parseMessage_without_checksum:
  assumes "wire_ok mx ty fs" "Tag_CheckSum \<notin> fst ` set fs" "ps_strict_validation p" "pool_inv (ps_pool p)"
    "\<not> p_shutdown (ps_pool p)" "card (dom (parser_heap p)) < unat (p_size (ps_pool p))"
  shows "fst (parseMessage ck (wire_frame ty fs) 0 p) = Returns (result InvalidFormat 0 0 IDLE 0)"
proof -
  let ?all = "(Tag_BeginString, ''FIX.4.4'') # (Tag_BodyLength, to_string_nat (length (wire_body ty fs))) # (Tag_MsgType, ty) # fs"
  obtain a p1 where n: "new_message ck p = (a, p1)" by (cases "new_message ck p")
  have a: "a \<noteq> 0" using new_message_laws(3) [OF assms(4) n] assms(5,6) by simp
  have "wire_fields ?all"
    using wire_ok_fields [OF assms(1)] soh_not_in_digits
    by (simp add: wire_fields_def Tag_BeginString_def Tag_BodyLength_def INT_MAX_def FIX_SOH_def)
  moreover have no: "Tag_CheckSum \<notin> fst ` set ?all" using assms(2) by (simp add: tag_defs)
  ultimately have fields_done: "message_fields (wire_frame ty fs) 0 m = Fields_Done (set_fields ?all m)" for m
    by (intro message_fields_wire) (simp_all add: wire_frame_fields)
  have "map_of (rev ?all) Tag_CheckSum = None"
    using no unfolding map_of_eq_None_iff by (simp add: image_Un)
  moreover have "getField Tag_CheckSum (new_FixMessage (ck_system ck)) = None"
    by (simp add: new_FixMessage_def setSendingTime_def getField_setField tag_defs) (simp add: getField_def empty_message_def)
  ultimately have "\<not> hasField Tag_CheckSum (set_fields ?all (new_FixMessage (ck_system ck)))"
    unfolding hasField_getField getField_set_fields by (simp only: option.case not_not)
  moreover have "ps_strict_validation p1"
    using new_message_laws(1) [OF assms(4) n a] assms(3) only_poolD(2) [of p p1] by (simp add: holds_new_def)
  ultimately show ?thesis
    using a by (simp add: parseMessage_def n fields_done validateParsedMessage_def store_message_def Let_def del: set_fields_simps)
qed

lemma parseCompleteMessage_rejects:
  assumes "wire_ok mx ty fs" "\<not> optimized_type ty" "Tag_CheckSum \<notin> fst ` set fs"
    "mem = wire_message ty fs @ rest" "len = length (wire_frame ty fs)"
    "ps_strict_validation p" "pool_inv (ps_pool p)"
    "\<not> p_shutdown (ps_pool p)" "card (dom (parser_heap p)) < unat (p_size (ps_pool p))"
  shows "fst (parseCompleteMessage ck mem len p) = Returns (result InvalidFormat 0 0 IDLE 0)"
proof -
  have t: "take len mem = wire_frame ty fs" by (simp add: assms(4,5) wire_message_def)
  have e: "extractMsgType (wire_frame ty fs) = ty"
    using extractMsgType_wire [of ty fs] assms(1) by (simp add: wire_ok_def)
  have i: "parseIntelligent ck mem len p = parseMessage ck (wire_frame ty fs) 0 p"
    using assms(2) by (auto simp: parseIntelligent_def t e optimized_type_def)
  obtain q where q: "parseMessage ck (wire_frame ty fs) 0 p = (Returns (result InvalidFormat 0 0 IDLE 0), q)"
    using parseMessage_without_checksum [OF assms(1,3,6-9), of ck] by (cases "parseMessage ck (wire_frame ty fs) 0 p") auto
  have acc: "pool_inv (ps_pool q)" "only_pool p q" "parser_heap q = parser_heap p"
    using parseMessage_accounts [OF assms(7), of ck "wire_frame ty fs" 0] q by (simp_all add: accounts_def result_def)
  have "fst (parseMessage ck (wire_frame ty fs) 0 q) = Returns (result InvalidFormat 0 0 IDLE 0)"
    using parseMessage_without_checksum [OF assms(1,3), of q ck] assms(6-9) acc only_poolD [OF acc(2)] by simp
  moreover have "len \<noteq> 0" by (simp add: assms(5) wire_frame_def frame_def frame_header_def)
  ultimately show ?thesis
    by (auto simp: parseCompleteMessage_def i q t result_def split: prod.splits outcome.splits)
qed

end
