(* ===== verification/Stream_Parser.thy ===== *)
theory Stream_Parser
  imports Parser_Recovery Parser_Wire
begin

text \<open>
  The entry point \<open>StreamFixParser::parse\<close> of src/protocol/stream_fix_parser.cpp: leftover bytes are put in front of the new
  data, messages are framed and decoded one after the other, and an incomplete rest is kept for the next call.

  The caller's buffer is the list of the bytes that may be read from it, at least \<open>len\<close> many. Copying the rest is undefined when it
  does not fit the partial buffer or when source and destination overlap without being equal.
\<close>

section \<open>The loop body\<close>

datatype parse_iteration = Leave "parse_result outcome" | Again nat "parse_result option"

definition store_leftover :: "bool \<Rightarrow> string \<Rightarrow> nat \<Rightarrow> nat \<Rightarrow> parser \<Rightarrow> parser option" where
  "store_leftover own mem len cursor p =
    (let leftover = len - cursor
     in if leftover > 0 then
          if leftover > PARTIAL_BUFFER_SIZE \<or> (own \<and> 0 < cursor \<and> cursor < leftover) then None
          else Some (p\<lparr>ps_partial := substr mem cursor leftover @ drop leftover (ps_partial p), ps_partial_size := leftover\<rparr>)
        else Some p)"

definition frame_failure :: "clock \<Rightarrow> string \<Rightarrow> nat \<Rightarrow> nat \<Rightarrow> parse_result \<Rightarrow> parser \<Rightarrow> parse_iteration \<times> parser" where
  "frame_failure ck mem len cursor frameRes p =
    (if ps_error_recovery_enabled p \<and> canRecoverFromError (pr_status frameRes) (pr_state frameRes) p then
       case attemptErrorRecovery (drop cursor mem) (len - cursor) p of
         (Returns recovery, p) \<Rightarrow>
           if pr_status recovery = RecoverySuccess
           then (Again (cursor + pr_bytes recovery) None, recordErrorRecovery True p)
           else (Leave (Returns frameRes), updateErrorStats ck (pr_status frameRes) (pr_state frameRes) (recordErrorRecovery False p))
       | (Throws e, p) \<Rightarrow> (Leave (Throws e), p)
       | (Undefined, p) \<Rightarrow> (Leave Undefined, p)
     else (Leave (Returns frameRes), updateErrorStats ck (pr_status frameRes) (pr_state frameRes) p))"

definition decode_failure :: "clock \<Rightarrow> string \<Rightarrow> nat \<Rightarrow> nat \<Rightarrow> parse_result \<Rightarrow> parser \<Rightarrow> parse_result outcome \<times> parser" where
  "decode_failure ck msg msgLen consumed decodeRes p =
    (let p = updateStats (pr_status decodeRes) (ck_parse_time ck) (updateErrorStats ck (pr_status decodeRes) (pr_state decodeRes) p)
     in if ps_error_recovery_enabled p \<and> canRecoverFromError (pr_status decodeRes) (pr_state decodeRes) p then
          case attemptErrorRecovery msg msgLen p of
            (Returns recovery, p) \<Rightarrow>
              if pr_status recovery = RecoverySuccess
              then (Returns (recovery\<lparr>pr_bytes := consumed\<rparr>), recordErrorRecovery True p)
              else (Returns decodeRes, recordErrorRecovery False p)
          | (out, p) \<Rightarrow> (out, p)
        else (Returns decodeRes, p))"

definition decode_step :: "clock \<Rightarrow> string \<Rightarrow> nat \<Rightarrow> nat \<Rightarrow> nat \<Rightarrow> parser \<Rightarrow> parse_iteration \<times> parser" where
  "decode_step ck mem cursor msgStart msgEnd p =
    (let msg = drop (cursor + msgStart) mem; msgLen = msgEnd - msgStart
     in case parseCompleteMessage ck msg msgLen p of
          (Returns decodeRes, p) \<Rightarrow>
            let actual_bytes_consumed = pr_bytes decodeRes;
                decodeRes = decodeRes\<lparr>pr_bytes := cursor + actual_bytes_consumed\<rparr>
            in if pr_status decodeRes = Success
               then (Again (cursor + actual_bytes_consumed) (Some decodeRes),
                     updateStats Success (ck_parse_time ck) (recordPartialMessageHandled (resetErrorRecovery ck p)))
               else if pr_status decodeRes \<noteq> NeedMoreData
               then let (out, p) = decode_failure ck msg msgLen (cursor + msgEnd) decodeRes p in (Leave out, p)
               else (Leave (Returns decodeRes), p)
        | (Throws e, p) \<Rightarrow> (Leave (Throws e), p)
        | (Undefined, p) \<Rightarrow> (Leave Undefined, p))"

definition parse_step :: "clock \<Rightarrow> bool \<Rightarrow> string \<Rightarrow> nat \<Rightarrow> nat \<Rightarrow> parser \<Rightarrow> parse_iteration \<times> parser" where
  "parse_step ck own mem len cursor p =
    (case findCompleteMessage (drop cursor (take len mem)) p of
       (Returns (frameRes, msgStart, msgEnd), p) \<Rightarrow>
         if pr_status frameRes = NeedMoreData then
           (case store_leftover own mem len cursor p of
              None \<Rightarrow> (Leave Undefined, p)
            | Some p \<Rightarrow> (Leave (Returns frameRes), p))
         else if pr_status frameRes \<noteq> Success then frame_failure ck mem len cursor frameRes p
         else decode_step ck mem cursor msgStart msgEnd p
     | (Throws e, p) \<Rightarrow> (Leave (Throws e), p)
     | (Undefined, p) \<Rightarrow> (Leave Undefined, p))"

lemma decode_failure_leave_status:
  assumes "decode_failure ck msg msgLen consumed d p = (Returns r, q)" "pr_status d \<noteq> Success"
  shows "r = d"
  using assms
  by (auto simp: decode_failure_def Let_def split: if_splits prod.splits outcome.splits dest: attemptErrorRecovery_result(4) [OF _ refl])

lemma frame_failure_leaves: "\<exists>out q. frame_failure ck mem len cursor r p = (Leave out, q)"
  by (auto simp: frame_failure_def split: prod.split outcome.split dest: attemptErrorRecovery_result(4) [OF _ refl])

lemma parse_step_progress:
  assumes "parse_step ck own mem len cursor p = (Again c r, q)"
  shows "cursor < c"
proof -
  obtain out p1 where f: "findCompleteMessage (drop cursor (take len mem)) p = (out, p1)" by force
  from assms f obtain frameRes msgStart msgEnd where out: "out = Returns (frameRes, msgStart, msgEnd)"
    by (cases out) (auto simp: parse_step_def)
  have s: "pr_status frameRes = Success" and d: "decode_step ck mem cursor msgStart msgEnd p1 = (Again c r, q)"
    using assms f out frame_failure_leaves [of ck mem len cursor frameRes p1]
    by (auto simp: parse_step_def split: if_splits option.splits)
  have b: "msgStart < msgEnd \<and> msgEnd \<le> length (drop cursor (take len mem))"
    using findCompleteMessage_bounds f out s by blast
  then have ne: "drop (cursor + msgStart) mem \<noteq> []" by auto
  obtain out2 p2 where pc: "parseCompleteMessage ck (drop (cursor + msgStart) mem) (msgEnd - msgStart) p1 = (out2, p2)" by force
  with d obtain x where x: "out2 = Returns x" "pr_status x = Success" "c = cursor + pr_bytes x"
    by (cases out2) (auto simp: decode_step_def Let_def split: if_splits prod.splits)
  with parseCompleteMessage_progress [of ck "drop (cursor + msgStart) mem"] pc ne show ?thesis by fastforce
qed

section \<open>The loop and the entry point\<close>

function parse_loop :: "clock \<Rightarrow> bool \<Rightarrow> string \<Rightarrow> nat \<Rightarrow> nat \<Rightarrow> parse_result option \<Rightarrow> parser \<Rightarrow> parse_result outcome \<times> parser" where
  "parse_loop ck own mem len cursor lastSuccess p =
    (if cursor < len then
       case parse_step ck own mem len cursor p of
         (Leave out, p) \<Rightarrow> (out, p)
       | (Again c r, p) \<Rightarrow> parse_loop ck own mem len c (case r of None \<Rightarrow> lastSuccess | Some r \<Rightarrow> Some r) p
     else case lastSuccess of
            Some r \<Rightarrow> (Returns r, p)
          | None \<Rightarrow> (Returns (result NeedMoreData cursor 0 IDLE 0), p))"
  by pat_completeness auto
termination
  by (relation "measure (\<lambda>(ck, own, mem, len, cursor, last, p). len - cursor)") (auto dest: parse_step_progress [OF HOL.sym])

declare parse_loop.simps [simp del]

definition catch_exception :: "parse_result outcome \<times> parser \<Rightarrow> parse_result outcome \<times> parser" where
  "catch_exception res =
    (case res of
       (Throws e, p) \<Rightarrow> (Returns (result InvalidFormat 0 0 ERROR_RECOVERY 0),
          upd_ctx (\<lambda>c. c\<lparr>cx_error_count := cx_error_count c + 1\<rparr>) (updateStats InvalidFormat 0 p))
     | (out, p) \<Rightarrow> (out, p))"

definition parse :: "clock \<Rightarrow> string \<Rightarrow> nat \<Rightarrow> parser \<Rightarrow> parse_result outcome \<times> parser" where
  "parse ck mem len p =
    (if len = 0 then (Returns (result InvalidFormat 0 0 IDLE 0), p)
     else let (active, p) = isCircuitBreakerActive ck p
          in if active then (Returns (result CorruptedData 0 0 ERROR_RECOVERY 0), p)
             else if ps_partial_size p \<noteq> 0 then
               if ps_partial_size p + len > PARTIAL_BUFFER_SIZE
               then (Returns (result MessageTooLarge 0 0 ERROR_RECOVERY 0), p)
               else let buf = take (ps_partial_size p) (ps_partial p) @ take len mem @ drop (ps_partial_size p + len) (ps_partial p);
                        len = len + ps_partial_size p
                    in catch_exception (parse_loop ck True buf len 0 None (p\<lparr>ps_partial := buf, ps_partial_size := 0\<rparr>))
             else catch_exception (parse_loop ck False mem len 0 None p))"

section \<open>Bookkeeping of a success\<close>

definition count_success :: "clock \<Rightarrow> parser \<Rightarrow> parser" where
  "count_success ck p = updateStats Success (ck_parse_time ck) (recordPartialMessageHandled (resetErrorRecovery ck p))"

lemma count_success_simps [simp]:
  "ps_pool (count_success ck p) = ps_pool p" "ps_partial (count_success ck p) = ps_partial p"
  "ps_partial_size (count_success ck p) = ps_partial_size p" "ps_max_message_size (count_success ck p) = ps_max_message_size p"
  "ps_max_consecutive_errors (count_success ck p) = ps_max_consecutive_errors p" "ps_error_recovery_enabled (count_success ck p) = ps_error_recovery_enabled p"
  "ps_breaker_active (count_success ck p) = False" "cx_consecutive_errors (ps_ctx (count_success ck p)) = 0"
  "st_messages_parsed (ps_stats (count_success ck p)) = st_messages_parsed (ps_stats p) + 1"
  "st_error_recoveries (ps_stats (count_success ck p)) = st_error_recoveries (ps_stats p)"
  by (simp_all add: count_success_def updateStats_def recordPartialMessageHandled_def resetErrorRecovery_def)

lemma expected_length_simps [simp]:
  "ps_pool (upd_ctx f p) = ps_pool p" "ps_partial (upd_ctx f p) = ps_partial p" "ps_partial_size (upd_ctx f p) = ps_partial_size p"
  "ps_stats (upd_ctx f p) = ps_stats p"
  by simp_all

section \<open>One message\<close>

definition message_ok :: "nat \<Rightarrow> string \<times> fields \<Rightarrow> bool" where
  "message_ok max_size w \<longleftrightarrow> wire_ok max_size (fst w) (snd w) \<and> optimized_type (fst w) \<and> min_frame (fst w) \<le> length (wire_frame (fst w) (snd w))"

definition has_room :: "nat \<Rightarrow> parser \<Rightarrow> bool" where
  "has_room n p \<longleftrightarrow> pool_inv (ps_pool p) \<and> \<not> p_shutdown (ps_pool p) \<and> card (dom (parser_heap p)) + n \<le> unat (p_size (ps_pool p))"

lemma findCompleteMessage_wire:
  assumes "wire_ok (ps_max_message_size p) ty fs" "k \<le> length (wire_frame ty fs @ rest)" "length (wire_frame ty fs) \<le> k"
  shows "findCompleteMessage (take k (wire_frame ty fs @ rest)) p
    = (Returns (result Success 0 0 IDLE 0, 0, length (wire_frame ty fs)),
       upd_ctx (\<lambda>c. c\<lparr>cx_expected_body_length := length (wire_body ty fs)\<rparr>) p)"
proof -
  have len: "0 < length (wire_body ty fs)" "int (length (wire_body ty fs)) \<le> to_int32 (ps_max_message_size p)"
    using assms(1) wire_body_not_Nil [of ty fs] by (simp_all add: wire_ok_def)
  moreover have ds: "0 < length (to_string_nat (length (wire_body ty fs)))" by simp
  ultimately have "int (length (wire_body ty fs)) \<le> INT_MAX" using to_int32_le [of "ps_max_message_size p"] by simp
  moreover have k14: "\<not> k < 14" "\<not> k < 10"
    using assms(3) len(1) ds unfolding wire_frame_def length_frame by linarith+
  ultimately show ?thesis using findCompleteMessage_take [OF refl _ len, of k rest] assms(2,3) k14
    by (simp add: wire_frame_def length_frame)
qed

lemma parse_step_wire:
  assumes "message_ok (ps_max_message_size p) (ty, fs)" "has_room (Suc n) p"
    and mem: "drop cursor mem = wire_message ty fs @ rest" "len \<le> length mem" "cursor + length (wire_frame ty fs) \<le> len"
  obtains a q where "parse_step ck own mem len cursor p
      = (Again (cursor + length (wire_message ty fs)) (Some (result Success (cursor + length (wire_message ty fs)) a IDLE 0)), q)"
    "a \<noteq> 0" "a \<notin> dom (parser_heap p)" "parser_heap q = (parser_heap p)(a \<mapsto> decoded ck ty fs)" "has_room n q"
    "ps_max_message_size q = ps_max_message_size p" "ps_partial_size q = ps_partial_size p" "\<not> ps_breaker_active q"
    "cx_consecutive_errors (ps_ctx q) = 0" "ps_partial q = ps_partial p"
    "ps_max_consecutive_errors q = ps_max_consecutive_errors p" "ps_error_recovery_enabled q = ps_error_recovery_enabled p"
    "st_messages_parsed (ps_stats q) = st_messages_parsed (ps_stats p) + 1"
proof -
  let ?w = "wire_message ty fs" and ?f = "wire_frame ty fs"
  let ?p = "upd_ctx (\<lambda>c. c\<lparr>cx_expected_body_length := length (wire_body ty fs)\<rparr>) p"
  have ok: "wire_ok (ps_max_message_size p) ty fs" "optimized_type ty" "min_frame ty \<le> length ?f"
    using assms(1) by (simp_all add: message_ok_def)
  have inv: "pool_inv (ps_pool p)" using assms(2) by (simp add: has_room_def)
  have w: "drop cursor mem = ?f @ (field_text (Tag_CheckSum, wire_checksum ty fs) @ rest)"
    using mem(1) by (simp add: wire_message_def)
  have fcm: "findCompleteMessage (drop cursor (take len mem)) p = (Returns (result Success 0 0 IDLE 0, 0, length ?f), ?p)"
    unfolding drop_take w using mem(2,3) arg_cong [OF w, of length] by (intro findCompleteMessage_wire [OF ok(1)]) simp_all
  obtain a p1 where n: "new_message ck ?p = (a, p1)" by (cases "new_message ck ?p")
  have a: "a \<noteq> 0" using new_message_laws(3) [OF _ n] assms(2) by (simp add: has_room_def)
  have h: "holds_new ?p a p1" using new_message_laws(1) [OF _ n a] inv by simp
  have h2: "holds_new ?p a (store_message a (decoded ck ty fs) p1)" by (rule holds_new_store [OF h])
  define q where "q = count_success ck (store_message a (decoded ck ty fs) p1)"
  have heap: "parser_heap q = (parser_heap p)(a \<mapsto> decoded ck ty fs)"
    using store_message_heap [OF h, of "decoded ck ty fs"] by (simp add: q_def)
  have op: "only_pool ?p (store_message a (decoded ck ty fs) p1)" using h2 by (simp add: holds_new_def)
  have fresh: "a \<notin> dom (parser_heap p)" using h by (simp add: holds_new_def)
  have "finite (dom (parser_heap p))" using mp.finite_live [OF inv] by simp
  with fresh have "card (dom (parser_heap q)) = Suc (card (dom (parser_heap p)))" by (simp add: heap)
  then have room: "has_room n q"
    using assms(2) h2 only_poolD(12,13) [OF op] by (simp add: has_room_def q_def holds_new_def)
  have "parseCompleteMessage ck (drop cursor mem) (length ?f) ?p
      = (Returns (result Success (length ?w) a IDLE 0), store_message a (decoded ck ty fs) p1)"
    by (rule parseCompleteMessage_wire [OF ok(1,2) mem(1) refl ok(3) n a])
  then have "parse_step ck own mem len cursor p
      = (Again (cursor + length ?w) (Some (result Success (cursor + length ?w) a IDLE 0)), q)"
    by (simp add: parse_step_def fcm decode_step_def Let_def q_def count_success_def result_def)
  moreover have "ps_max_message_size q = ps_max_message_size p" "ps_partial_size q = ps_partial_size p" "\<not> ps_breaker_active q"
    "cx_consecutive_errors (ps_ctx q) = 0" "st_messages_parsed (ps_stats q) = st_messages_parsed (ps_stats p) + 1"
    "ps_partial q = ps_partial p" "ps_max_consecutive_errors q = ps_max_consecutive_errors p"
    "ps_error_recovery_enabled q = ps_error_recovery_enabled p"
    using only_poolD [OF op] by (simp_all add: q_def)
  ultimately show thesis using that a fresh heap room by blast
qed

end
