(* ===== verification/Stream_Correctness.thy ===== *)
theory Stream_Correctness
  imports Stream_Parser
begin

text \<open>
  What \<open>StreamFixParser::parse\<close> guarantees: batches of messages, messages cut into pieces by the network, arbitrary
  input, and the life cycle of the circuit breaker.
\<close>

section \<open>Several messages in one buffer\<close>

definition wire_stream :: "(string \<times> fields) list \<Rightarrow> string" where
  "wire_stream ws = concat (map (\<lambda>(ty, fs). wire_message ty fs) ws)"

lemma wire_stream_simps [simp]:
  "wire_stream [] = []" "wire_stream ((ty, fs) # ws) = wire_message ty fs @ wire_stream ws"
  by (simp_all add: wire_stream_def)

lemma length_wire_message: "length (wire_message ty fs) = length (wire_frame ty fs) + 7"
  by (simp add: wire_message_def field_text_CheckSum length_checksum)

definition breaker_closed :: "parser \<Rightarrow> bool" where
  "breaker_closed p \<longleftrightarrow> \<not> ps_breaker_active p \<and> \<not> shouldActivateCircuitBreaker p"

lemma breaker_closed_query: "breaker_closed p \<Longrightarrow> isCircuitBreakerActive ck p = (False, p)"
  by (simp add: breaker_closed_def isCircuitBreakerActive_def)

lemma breaker_closed_success:
  "breaker_closed p \<Longrightarrow> \<not> ps_breaker_active q \<Longrightarrow> cx_consecutive_errors (ps_ctx q) = 0 \<Longrightarrow> ps_max_consecutive_errors q = ps_max_consecutive_errors p \<Longrightarrow>
    ps_error_recovery_enabled q = ps_error_recovery_enabled p \<Longrightarrow> breaker_closed q"
  by (auto simp: breaker_closed_def shouldActivateCircuitBreaker_def split: if_splits)

text \<open>Between two states of the parser the messages \<open>vs\<close> were put into fresh objects at the addresses \<open>as\<close>, and nothing else changed in the pool.\<close>

definition stored :: "fix_message list \<Rightarrow> addr list \<Rightarrow> parser \<Rightarrow> parser \<Rightarrow> bool" where
  "stored vs as p q \<longleftrightarrow> distinct as \<and> length as = length vs \<and> 0 \<notin> set as \<and> set as \<inter> dom (parser_heap p) = {}
    \<and> parser_heap q = parser_heap p ++ map_of (zip as vs)"

lemma stored_Nil: "stored [] as p q \<longleftrightarrow> as = [] \<and> parser_heap q = parser_heap p"
  by (auto simp: stored_def)

lemma stored_one: "a \<noteq> 0 \<Longrightarrow> a \<notin> dom (parser_heap p) \<Longrightarrow> parser_heap q = (parser_heap p)(a \<mapsto> v) \<Longrightarrow> stored [v] [a] p q"
  by (auto simp: stored_def map_add_def fun_eq_iff)

lemma stored_append:
  assumes "stored vs as p q" "stored us bs q r"
  shows "stored (vs @ us) (as @ bs) p r"
proof -
  let ?m = "map_of (zip as vs)" and ?n = "map_of (zip bs us)"
  have a: "distinct as" "length as = length vs" "0 \<notin> set as" "set as \<inter> dom (parser_heap p) = {}" "parser_heap q = parser_heap p ++ ?m"
    and b: "distinct bs" "length bs = length us" "0 \<notin> set bs" "set bs \<inter> dom (parser_heap q) = {}" "parser_heap r = parser_heap q ++ ?n"
    using assms unfolding stored_def by blast+
  have m: "dom ?m = set as" "dom ?n = set bs" using a(2) b(2) by simp_all
  then have q: "dom (parser_heap q) = set as \<union> dom (parser_heap p)" by (simp only: a(5) dom_map_add)
  have disj: "set as \<inter> set bs = {}" "set bs \<inter> dom (parser_heap p) = {}" using b(4) unfolding q by blast+
  have "map_of (zip (as @ bs) (vs @ us)) = ?n ++ ?m" using a(2) by simp
  also have "\<dots> = ?m ++ ?n" by (rule map_add_comm) (use m disj(1) in blast)
  finally have "parser_heap r = parser_heap p ++ map_of (zip (as @ bs) (vs @ us))" by (simp only: b(5) a(5) map_add_assoc)
  with a(1-4) b(1-3) disj show ?thesis unfolding stored_def by auto
qed

abbreviation decode_all :: "clock \<Rightarrow> (string \<times> fields) list \<Rightarrow> fix_message list" where
  "decode_all ck ws \<equiv> map (\<lambda>(ty, fs). decoded ck ty fs) ws"

definition steady :: "parser \<Rightarrow> parser \<Rightarrow> bool" where
  "steady p q \<longleftrightarrow> ps_max_message_size q = ps_max_message_size p \<and> ps_partial q = ps_partial p \<and> ps_partial_size q = ps_partial_size p
    \<and> (breaker_closed p \<longrightarrow> breaker_closed q)"

lemma steady_trans: "steady p q \<Longrightarrow> steady q r \<Longrightarrow> steady p r"
  by (simp add: steady_def)

lemma parse_loop_end: "parse_loop ck own mem len len (Some r) p = (Returns r, p)"
  by (subst parse_loop.simps) simp

text \<open>The loop takes the messages at the cursor one after the other, whatever follows them.\<close>

lemma parse_loop_messages:
  assumes "\<forall>w \<in> set ws. message_ok (ps_max_message_size p) w" "has_room (length ws + n) p"
    "drop cursor mem = wire_stream ws @ rest" "len \<le> length mem" "cursor + length (wire_stream ws) \<le> len"
  shows "\<exists>as q. parse_loop ck own mem len cursor r p =
      parse_loop ck own mem len (cursor + length (wire_stream ws))
        (if ws = [] then r else Some (result Success (cursor + length (wire_stream ws)) (last as) IDLE 0)) q
    \<and> stored (decode_all ck ws) as p q \<and> has_room n q \<and> steady p q
    \<and> st_messages_parsed (ps_stats q) = st_messages_parsed (ps_stats p) + of_nat (length ws)"
  using assms
proof (induction ws arbitrary: p cursor r)
  case Nil
  then show ?case by (intro exI [of _ "[]"] exI [of _ p]) (simp add: stored_Nil steady_def)
next
  case (Cons w ws)
  obtain ty fs where w: "w = (ty, fs)" by (cases w)
  have d: "drop cursor mem = wire_message ty fs @ wire_stream ws @ rest" using Cons.prems(3) by (simp add: w)
  have lt: "cursor < len" "cursor + length (wire_frame ty fs) \<le> len" using Cons.prems(5) by (simp_all add: w length_wire_message)
  have mok: "message_ok (ps_max_message_size p) (ty, fs)" and room: "has_room (Suc (length ws + n)) p"
    using Cons.prems(1,2) by (simp_all add: w)
  obtain a q where step: "parse_step ck own mem len cursor p
      = (Again (cursor + length (wire_message ty fs)) (Some (result Success (cursor + length (wire_message ty fs)) a IDLE 0)), q)"
    and a: "a \<noteq> 0" "a \<notin> dom (parser_heap p)" "parser_heap q = (parser_heap p)(a \<mapsto> decoded ck ty fs)" "has_room (length ws + n) q"
    and q: "ps_max_message_size q = ps_max_message_size p" "ps_partial_size q = ps_partial_size p" "ps_partial q = ps_partial p"
    "st_messages_parsed (ps_stats q) = st_messages_parsed (ps_stats p) + 1"
    and b: "\<not> ps_breaker_active q" "cx_consecutive_errors (ps_ctx q) = 0" "ps_max_consecutive_errors q = ps_max_consecutive_errors p"
    "ps_error_recovery_enabled q = ps_error_recovery_enabled p"
    by (rule parse_step_wire [OF mok room d Cons.prems(4) lt(2)]) blast
  let ?c = "cursor + length (wire_message ty fs)"
  let ?r = "result Success ?c a IDLE 0"
  have loop: "parse_loop ck own mem len cursor r p = parse_loop ck own mem len ?c (Some ?r) q"
    by (subst parse_loop.simps) (simp add: lt(1) step)
  have pq: "stored [decoded ck ty fs] [a] p q" "steady p q"
    using stored_one [OF a(1-3)] q(1-3) breaker_closed_success [OF _ b] by (auto simp: steady_def)
  have "drop ?c mem = drop (length (wire_message ty fs)) (drop cursor mem)" by (simp add: add.commute)
  then have "drop ?c mem = wire_stream ws @ rest" by (simp only: d) simp
  with Cons.IH [of q ?c "Some ?r"] Cons.prems(1,4,5) a(4) q(1) obtain as q' where
    IH: "parse_loop ck own mem len ?c (Some ?r) q = parse_loop ck own mem len (?c + length (wire_stream ws))
          (if ws = [] then Some ?r else Some (result Success (?c + length (wire_stream ws)) (last as) IDLE 0)) q'"
    "stored (decode_all ck ws) as q q'" "has_room n q'" "steady q q'"
    "st_messages_parsed (ps_stats q') = st_messages_parsed (ps_stats q) + of_nat (length ws)"
    by (auto simp: w)
  have "as = [] \<longleftrightarrow> ws = []" using IH(2) by (auto simp: stored_def)
  with loop IH pq q(4) stored_append [OF pq(1) IH(2)] steady_trans [OF pq(2) IH(4)] show ?case
    by (intro exI [of _ "a # as"] exI [of _ q']) (simp add: w add.assoc)
qed

lemma wire_stream_not_Nil: "ws \<noteq> [] \<Longrightarrow> 0 < length (wire_stream ws)"
proof (cases ws)
  case (Cons w ws')
  then show ?thesis using length_wire_message [of "fst w" "snd w"] by (cases w) simp
qed simp

text \<open>A buffer holding any number of well-formed messages of the types with a specialised decoder is consumed completely: every message
  is decoded, field by field, into a fresh message of the pool, and the live messages are otherwise unchanged. The result
  carries only the last of them; the addresses of the others are not reported to the caller.\<close>

lemma parse_stream:
  assumes "\<forall>w \<in> set ws. message_ok (ps_max_message_size p) w" "ws \<noteq> []" "has_room (length ws) p"
    and "breaker_closed p" "ps_partial_size p = 0"
  shows "\<exists>as q. parse ck (wire_stream ws) (length (wire_stream ws)) p
      = (Returns (result Success (length (wire_stream ws)) (last as) IDLE 0), q)
    \<and> distinct as \<and> length as = length ws \<and> 0 \<notin> set as \<and> set as \<inter> dom (parser_heap p) = {}
    \<and> parser_heap q = parser_heap p ++ map_of (zip as (map (\<lambda>(ty, fs). decoded ck ty fs) ws))
    \<and> ps_partial_size q = 0
    \<and> st_messages_parsed (ps_stats q) = st_messages_parsed (ps_stats p) + of_nat (length ws)"
proof -
  let ?w = "wire_stream ws"
  have "has_room (length ws + 0) p" "drop 0 ?w = ?w @ []" "0 + length ?w \<le> length ?w" using assms(3) by simp_all
  from parse_loop_messages [OF assms(1) this(1,2) order.refl this(3), of ck False None] assms(2) obtain as q where
    r: "parse_loop ck False ?w (length ?w) 0 None p = parse_loop ck False ?w (length ?w) (length ?w) (Some (result Success (length ?w) (last as) IDLE 0)) q"
    and q: "stored (decode_all ck ws) as p q" "steady p q" "st_messages_parsed (ps_stats q) = st_messages_parsed (ps_stats p) + of_nat (length ws)"
    by auto
  have "parse ck ?w (length ?w) p = (Returns (result Success (length ?w) (last as) IDLE 0), q)"
    using wire_stream_not_Nil [OF assms(2)] breaker_closed_query [OF assms(4), of ck] assms(5)
    by (simp add: parse_def catch_exception_def r parse_loop_end)
  with q assms(5) show ?thesis
    by (intro exI [of _ as] exI [of _ q]) (simp add: stored_def steady_def)
qed

text \<open>Concrete data for the witnesses.\<close>

definition demo_clock :: clock where
  "demo_clock = \<lparr> ck_steady = 0, ck_system = 0, ck_parse_time = 0 \<rparr>"

lemma demo_parser:
  "\<exists>p. has_room 3 p \<and> breaker_closed p \<and> ps_partial_size p = 0 \<and> length (ps_partial p) = PARTIAL_BUFFER_SIZE
     \<and> ps_max_message_size p = 8192 \<and> ps_strict_validation p \<and> parser_heap p = Map.empty"
proof -
  obtain pool :: "fix_message pool" where pool: "newPool 4096 64 3 ''pool'' = Inr pool" by (simp add: newPool_def)
  have inv: "pool_inv pool" "pool_heap pool = Map.empty" "p_size pool = 3" "\<not> p_shutdown pool" using newPool_inv [OF pool] by auto
  let ?p = "new_parser (replicate PARTIAL_BUFFER_SIZE (CHR 0x00)) demo_clock pool"
  have "has_room 3 ?p" using inv by (simp add: has_room_def new_parser_def)
  moreover have "breaker_closed ?p"
    by (simp add: breaker_closed_def new_parser_def shouldActivateCircuitBreaker_def reset_context_def initial_context_def)
  ultimately show ?thesis using inv by (intro exI [of _ ?p]) (simp add: new_parser_def)
qed

lemma demo_messages: "message_ok 8192 (''0'', [(49, ''S''), (56, ''T'')])" "message_ok 8192 (''1'', [(112, ''ID'')])"
proof -
  have len: "length (wire_body ''0'' [(49, ''S''), (56, ''T'')]) = 15" "length (wire_frame ''0'' [(49, ''S''), (56, ''T'')]) = 30"
    "length (wire_body ''1'' [(112, ''ID'')]) = 12" "length (wire_frame ''1'' [(112, ''ID'')]) = 27"
    by code_simp+
  show "message_ok 8192 (''0'', [(49, ''S''), (56, ''T'')])" "message_ok 8192 (''1'', [(112, ''ID'')])"
    by (simp_all add: message_ok_def wire_ok_def len optimized_type_def min_frame_def wire_fields_def to_int32_def INT_MAX_def FIX_SOH_def)
qed

section \<open>Messages cut into pieces\<close>

definition pending :: "string \<Rightarrow> parser \<Rightarrow> bool" where
  "pending pre p \<longleftrightarrow> ps_partial_size p = length pre \<and> take (length pre) (ps_partial p) = pre \<and> length (ps_partial p) = PARTIAL_BUFFER_SIZE"

lemma parse_pending:
  assumes "pending pre p" "breaker_closed p" "chunk \<noteq> []" "pre = [] \<or> length (pre @ chunk) \<le> PARTIAL_BUFFER_SIZE"
  shows "\<exists>rest p'. parse ck chunk (length chunk) p = catch_exception (parse_loop ck (pre \<noteq> []) ((pre @ chunk) @ rest) (length (pre @ chunk)) 0 None p')
    \<and> pending [] p' \<and> breaker_closed p' \<and> ps_pool p' = ps_pool p \<and> ps_max_message_size p' = ps_max_message_size p"
proof (cases "pre = []")
  case True
  with assms show ?thesis
    by (intro exI [of _ "[]"] exI [of _ p]) (simp add: parse_def breaker_closed_query pending_def)
next
  case False
  let ?rest = "drop (length pre + length chunk) (ps_partial p)"
  let ?p = "p\<lparr>ps_partial := pre @ chunk @ ?rest, ps_partial_size := 0\<rparr>"
  have "pending [] ?p" using assms(1,4) False by (simp add: pending_def)
  moreover have "breaker_closed ?p" using assms(2) by (auto simp: breaker_closed_def shouldActivateCircuitBreaker_def)
  ultimately show ?thesis
    using assms False by (intro exI [of _ ?rest] exI [of _ ?p])
      (simp add: parse_def breaker_closed_query pending_def Let_def add.commute)
qed

lemma findCompleteMessage_prefix:
  assumes "wire_ok (ps_max_message_size p) ty fs" "k < length (wire_frame ty fs)"
  shows "\<exists>r i j q. findCompleteMessage (take k (wire_frame ty fs)) p = (Returns (r, i, j), q) \<and> pr_status r = NeedMoreData \<and> pr_message r = 0"
proof -
  have len: "0 < length (wire_body ty fs)" "int (length (wire_body ty fs)) \<le> to_int32 (ps_max_message_size p)"
    using assms(1) wire_body_not_Nil [of ty fs] by (simp_all add: wire_ok_def)
  then have imax: "int (length (wire_body ty fs)) \<le> INT_MAX" using to_int32_le [of "ps_max_message_size p"] by simp
  show ?thesis
    using findCompleteMessage_take [of "wire_frame ty fs" "wire_body ty fs" "[]" k p, OF _ _ len imax] assms(2)
    by (cases "k < 10"; cases "k < 14 \<or> k \<le> 12 + length (to_string_nat (length (wire_body ty fs)))")
      (simp_all add: wire_frame_def result_def)
qed

text \<open>Successive calls, each with its own clock readings and exactly the bytes of its chunk.\<close>

primrec feed :: "(clock \<times> string) list \<Rightarrow> parser \<Rightarrow> parse_result outcome list \<times> parser" where
  "feed [] p = ([], p)"
| "feed (c # cs) p =
    (let (out, p) = parse (fst c) (snd c) (length (snd c)) p; (outs, p) = feed cs p in (out # outs, p))"

definition needs_more :: "parse_result outcome \<Rightarrow> bool" where
  "needs_more out \<longleftrightarrow> (case out of Returns r \<Rightarrow> pr_status r = NeedMoreData \<and> pr_message r = 0 | _ \<Rightarrow> False)"

text \<open>The bytes at hand in one call are \<open>pre @ chunk\<close>: whole messages and a rest. The rest and, when bytes were kept from earlier calls, all of them have to
  fit the partial buffer, and the copy of the rest to the front of that buffer must not overlap its source.\<close>

definition chunk_fits :: "string \<Rightarrow> string \<Rightarrow> (string \<times> fields) list \<Rightarrow> string \<Rightarrow> bool" where
  "chunk_fits pre chunk ws tail \<longleftrightarrow> length tail \<le> PARTIAL_BUFFER_SIZE
    \<and> (pre = [] \<or> length (pre @ chunk) \<le> PARTIAL_BUFFER_SIZE \<and> (ws = [] \<or> length tail \<le> length (wire_stream ws)))"

text \<open>The rest ends before the checksum field of the message it belongs to.\<close>

definition starts_frame :: "string \<Rightarrow> (string \<times> fields) list \<Rightarrow> bool" where
  "starts_frame tail us \<longleftrightarrow>
    (case us of
       [] \<Rightarrow> tail = []
     | (ty, fs) # _ \<Rightarrow> length tail < length (wire_frame ty fs) \<and> tail = take (length tail) (wire_frame ty fs))"

text \<open>The answer to a call: the last message when the data end with one, and a request for more otherwise.\<close>

definition chunk_answer :: "nat \<Rightarrow> string \<Rightarrow> addr list \<Rightarrow> parse_result outcome \<Rightarrow> bool" where
  "chunk_answer len tail as out \<longleftrightarrow> (if tail = [] then out = Returns (result Success len (last as) IDLE 0) else needs_more out)"

lemma parse_loop_rest:
  assumes "starts_frame tail us" "tail \<noteq> []" "\<forall>w \<in> set us. message_ok (ps_max_message_size p) w" "length (ps_partial p) = PARTIAL_BUFFER_SIZE" "breaker_closed p"
    and "drop cursor (take len mem) = tail" "length tail \<le> PARTIAL_BUFFER_SIZE" "own \<longrightarrow> cursor = 0 \<or> length tail \<le> cursor" "len = cursor + length tail"
  shows "\<exists>out q. parse_loop ck own mem len cursor r p = (out, q) \<and> needs_more out \<and> pending tail q \<and> breaker_closed q
    \<and> ps_pool q = ps_pool p \<and> ps_max_message_size q = ps_max_message_size p"
proof -
  obtain ty fs us' where us: "us = (ty, fs) # us'" "length tail < length (wire_frame ty fs)" "tail = take (length tail) (wire_frame ty fs)"
    using assms(1,2) by (auto simp: starts_frame_def split: list.splits)
  have "wire_ok (ps_max_message_size p) ty fs" using assms(3) us(1) by (simp add: message_ok_def)
  from findCompleteMessage_prefix [OF this us(2)] obtain r' i j q where
    f: "findCompleteMessage tail p = (Returns (r', i, j), q)" and r': "pr_status r' = NeedMoreData" "pr_message r' = 0"
    by (auto simp: us(3) [symmetric])
  obtain n where q: "q = p\<lparr>ps_ctx := (ps_ctx p)\<lparr>cx_expected_body_length := n\<rparr>\<rparr>" using findCompleteMessage_frame [OF f] by blast
  let ?q = "q\<lparr>ps_partial := tail @ drop (length tail) (ps_partial q), ps_partial_size := length tail\<rparr>"
  have "substr mem cursor (length tail) = tail" using assms(6) by (simp add: substr_def take_drop assms(9) add.commute)
  then have "store_leftover own mem len cursor q = Some ?q"
    using assms(2,7,8,9) by (auto simp: store_leftover_def Let_def)
  then have "parse_step ck own mem len cursor p = (Leave (Returns r'), ?q)"
    by (simp add: parse_step_def assms(6) f r'(1))
  then have "parse_loop ck own mem len cursor r p = (Returns r', ?q)"
    using assms(2,9) by (subst parse_loop.simps) simp
  moreover have "pending tail ?q" using assms(4,7) by (simp add: pending_def q)
  moreover have "breaker_closed ?q" using assms(5) by (auto simp: breaker_closed_def shouldActivateCircuitBreaker_def q)
  ultimately show ?thesis using r' by (intro exI [of _ "Returns r'"] exI [of _ ?q]) (simp add: needs_more_def q)
qed

lemma parse_chunk:
  assumes "pending pre p" "breaker_closed p" "chunk \<noteq> []" "pre @ chunk = wire_stream ws @ tail" "chunk_fits pre chunk ws tail" "starts_frame tail us"
    and "\<forall>w \<in> set (ws @ us). message_ok (ps_max_message_size p) w" "has_room (length ws + n) p"
  shows "\<exists>out as q. parse ck chunk (length chunk) p = (out, q) \<and> chunk_answer (length (pre @ chunk)) tail as out \<and> stored (decode_all ck ws) as p q
    \<and> has_room n q \<and> pending tail q \<and> breaker_closed q \<and> ps_max_message_size q = ps_max_message_size p"
proof -
  let ?c = "length (wire_stream ws)" and ?len = "length (pre @ chunk)"
  have "pre = [] \<or> ?len \<le> PARTIAL_BUFFER_SIZE" using assms(5) by (auto simp: chunk_fits_def)
  from parse_pending [OF assms(1-3) this, of ck] obtain rest p' where
    run: "parse ck chunk (length chunk) p = catch_exception (parse_loop ck (pre \<noteq> []) ((pre @ chunk) @ rest) ?len 0 None p')"
    and p': "pending [] p'" "breaker_closed p'" "ps_pool p' = ps_pool p" "ps_max_message_size p' = ps_max_message_size p"
    by (elim exE conjE)
  let ?mem = "(pre @ chunk) @ rest"
  have len: "?len = ?c + length tail" using arg_cong [OF assms(4), of length] by simp
  have "\<forall>w \<in> set ws. message_ok (ps_max_message_size p') w" "has_room (length ws + n) p'" "drop 0 ?mem = wire_stream ws @ tail @ rest"
    "?len \<le> length ?mem" "0 + ?c \<le> ?len"
    using assms(4,7,8) p'(3,4) len by (simp_all add: has_room_def)
  from parse_loop_messages [OF this, of ck "pre \<noteq> []" None, unfolded add_0] obtain as q where
    loop: "parse_loop ck (pre \<noteq> []) ?mem ?len 0 None p' =
        parse_loop ck (pre \<noteq> []) ?mem ?len ?c (if ws = [] then None else Some (result Success ?c (last as) IDLE 0)) q"
    and q: "stored (decode_all ck ws) as p' q" "has_room n q" "steady p' q"
    by (elim exE conjE)
  have st: "stored (decode_all ck ws) as p q" using q(1) p'(3) by (simp add: stored_def)
  have sq: "length (ps_partial q) = PARTIAL_BUFFER_SIZE" "breaker_closed q" "ps_max_message_size q = ps_max_message_size p" "ps_partial_size q = 0"
    using q(3) p' by (simp_all add: steady_def pending_def)
  show ?thesis
  proof (cases "tail = []")
    case True
    then have "ws \<noteq> []" "?len = ?c" using assms(3,4) len by auto
    with loop have "parse_loop ck (pre \<noteq> []) ?mem ?len 0 None p' = (Returns (result Success ?len (last as) IDLE 0), q)"
      by (simp only: parse_loop_end if_False)
    with run have "parse ck chunk (length chunk) p = (Returns (result Success ?len (last as) IDLE 0), q)" by (simp add: catch_exception_def)
    then show ?thesis
      using True st q(2) sq by (intro exI [of _ "Returns (result Success ?len (last as) IDLE 0)"] exI [of _ as] exI [of _ q])
        (simp add: chunk_answer_def pending_def)
  next
    case False
    have t: "drop ?c (take ?len ?mem) = tail" using assms(4) by simp
    have fit: "length tail \<le> PARTIAL_BUFFER_SIZE" "pre \<noteq> [] \<longrightarrow> ?c = 0 \<or> length tail \<le> ?c" using assms(5) by (auto simp: chunk_fits_def)
    have us: "\<forall>w \<in> set us. message_ok (ps_max_message_size q) w" using assms(7) sq(3) by simp
    from parse_loop_rest [OF assms(6) False us sq(1,2) t fit len] obtain out q' where
      r: "parse_loop ck (pre \<noteq> []) ?mem ?len ?c (if ws = [] then None else Some (result Success ?c (last as) IDLE 0)) q = (out, q')" "needs_more out"
        "pending tail q'" "breaker_closed q'" "ps_pool q' = ps_pool q" "ps_max_message_size q' = ps_max_message_size q"
      by blast
    have "catch_exception (out, q') = (out, q')" using r(2) by (auto simp: catch_exception_def needs_more_def split: outcome.split)
    with run loop r(1) have "parse ck chunk (length chunk) p = (out, q')" by simp
    moreover have "stored (decode_all ck ws) as p q'" "has_room n q'" using st q(2) r(5) by (simp_all add: stored_def has_room_def)
    ultimately show ?thesis
      using False r sq(3) by (intro exI [of _ out] exI [of _ as] exI [of _ q']) (simp add: chunk_answer_def)
  qed
qed

text \<open>How the network cuts a stream: the call with the chunk \<open>c\<close> completes the messages \<open>ws\<close>.\<close>

fun chunked :: "string \<Rightarrow> (clock \<times> string) list \<Rightarrow> (string \<times> fields) list list \<Rightarrow> bool" where
  "chunked pre [] [] \<longleftrightarrow> pre = []"
| "chunked pre (c # cs) (ws # wss) \<longleftrightarrow>
    (let tail = drop (length (wire_stream ws)) (pre @ snd c)
     in snd c \<noteq> [] \<and> pre @ snd c = wire_stream ws @ tail \<and> chunk_fits pre (snd c) ws tail \<and> starts_frame tail (concat wss) \<and> chunked tail cs wss)"
| "chunked _ _ _ \<longleftrightarrow> False"

fun chunk_answers :: "string \<Rightarrow> (clock \<times> string) list \<Rightarrow> (string \<times> fields) list list \<Rightarrow> addr list list \<Rightarrow> parse_result outcome list \<Rightarrow> bool" where
  "chunk_answers pre [] [] [] [] \<longleftrightarrow> True"
| "chunk_answers pre (c # cs) (ws # wss) (as # ass) (out # outs) \<longleftrightarrow>
    (let tail = drop (length (wire_stream ws)) (pre @ snd c)
     in length as = length ws \<and> chunk_answer (length (pre @ snd c)) tail as out \<and> chunk_answers tail cs wss ass outs)"
| "chunk_answers _ _ _ _ _ \<longleftrightarrow> False"

abbreviation decode_chunks :: "(clock \<times> string) list \<Rightarrow> (string \<times> fields) list list \<Rightarrow> fix_message list" where
  "decode_chunks cs wss \<equiv> concat (map (\<lambda>(c, ws). decode_all (fst c) ws) (zip cs wss))"

lemma feed_chunks:
  assumes "chunked pre cs wss" "pending pre p" "breaker_closed p" "\<forall>w \<in> set (concat wss). message_ok (ps_max_message_size p) w"
    "has_room (length (concat wss)) p"
  shows "\<exists>outs ass q. feed cs p = (outs, q) \<and> chunk_answers pre cs wss ass outs \<and> stored (decode_chunks cs wss) (concat ass) p q \<and> ps_partial_size q = 0"
  using assms
proof (induction pre cs wss arbitrary: p rule: chunked.induct)
  case (1 pre)
  then show ?case by (intro exI [of _ "[]"] exI [of _ "[]"] exI [of _ p]) (simp add: stored_Nil pending_def)
next
  case (2 pre c cs ws wss)
  let ?tail = "drop (length (wire_stream ws)) (pre @ snd c)"
  have h: "snd c \<noteq> []" "pre @ snd c = wire_stream ws @ ?tail" "chunk_fits pre (snd c) ws ?tail" "starts_frame ?tail (concat wss)" "chunked ?tail cs wss"
    using 2(2) unfolding chunked.simps Let_def by blast+
  have ok: "\<forall>w \<in> set (ws @ concat wss). message_ok (ps_max_message_size p) w" "has_room (length ws + length (concat wss)) p"
    using 2(5,6) by simp_all
  from parse_chunk [OF 2(3,4) h(1-4) ok, of "fst c"] obtain out as q where
    q: "parse (fst c) (snd c) (length (snd c)) p = (out, q)" "chunk_answer (length (pre @ snd c)) ?tail as out" "stored (decode_all (fst c) ws) as p q"
    "has_room (length (concat wss)) q" "pending ?tail q" "breaker_closed q" "ps_max_message_size q = ps_max_message_size p"
    by (elim exE conjE)
  from 2(1) [OF refl h(5) q(5,6) _ q(4)] ok(1) q(7) obtain outs ass q' where
    r: "feed cs q = (outs, q')" "chunk_answers ?tail cs wss ass outs" "stored (decode_chunks cs wss) (concat ass) q q'" "ps_partial_size q' = 0"
    by auto
  have "stored (decode_chunks (c # cs) (ws # wss)) (concat (as # ass)) p q'" using stored_append [OF q(3) r(3)] by simp
  moreover have "length as = length ws" using q(3) by (simp add: stored_def)
  ultimately show ?case
    using q(1,2) r by (intro exI [of _ "out # outs"] exI [of _ "as # ass"] exI [of _ q']) (simp add: Let_def)
qed simp_all

text \<open>C1: A stream of well-formed messages of the six types with a specialised decoder is decoded completely, however it is cut into calls within three limits. No
  call ends inside a checksum field or right in front of one. The bytes kept from one call to the next, together with those of the call that takes them up,
  fit the partial buffer of 65536 bytes. When kept bytes are completed to one or more messages, the rest behind these is not longer than they
  are; a longer rest is copied between overlapping ranges. Then every message of the stream ends up, field by field, in a fresh object of the pool, in the order of the stream, and the live messages
  are otherwise unchanged. A call whose data end with a message returns the last message it completed. A call whose data end inside a message asks
  for more and returns none, so that the messages it completed are reported by no call. The pool has room for all messages, every
  message is within the size limit and has the 25 to 40 bytes its decoder asks for, and the circuit breaker is closed.\<close>

theorem parse_chunks:
  assumes "chunked [] cs wss" "\<forall>w \<in> set (concat wss). message_ok (ps_max_message_size p) w" "has_room (length (concat wss)) p"
    and "breaker_closed p" "ps_partial_size p = 0" "length (ps_partial p) = PARTIAL_BUFFER_SIZE"
  shows "\<exists>outs ass q. feed cs p = (outs, q) \<and> chunk_answers [] cs wss ass outs \<and> ps_partial_size q = 0
    \<and> distinct (concat ass) \<and> 0 \<notin> set (concat ass) \<and> set (concat ass) \<inter> dom (parser_heap p) = {}
    \<and> parser_heap q = parser_heap p ++ map_of (zip (concat ass) (decode_chunks cs wss))"
proof -
  have "pending [] p" using assms(5,6) by (simp add: pending_def)
  from feed_chunks [OF assms(1) this assms(4,2,3)] show ?thesis unfolding stored_def by blast
qed

lemma parse_chunks_witness:
  "\<exists>p outs b. (let v = wire_message ''0'' [(49, ''S''), (56, ''T'')]; w = wire_message ''1'' [(112, ''ID'')]
     in fst (feed [(demo_clock, v @ take 12 w), (demo_clock, drop 12 w)] p) = outs
        \<and> needs_more (outs ! 0) \<and> outs ! 1 = Returns (result Success (length w) b IDLE 0))"
proof -
  let ?x = "(''0'', [(49, ''S''), (56, ''T'')])" and ?y = "(''1'', [(112, ''ID'')])"
  let ?v = "wire_message ''0'' [(49, ''S''), (56, ''T'')]" and ?w = "wire_message ''1'' [(112, ''ID'')]"
  let ?cs = "[(demo_clock, ?v @ take 12 ?w), (demo_clock, drop 12 ?w)]" and ?wss = "[[?x], [?y]]"
  obtain p where p: "has_room 3 p" "breaker_closed p" "ps_partial_size p = 0" "length (ps_partial p) = PARTIAL_BUFFER_SIZE"
    "ps_max_message_size p = 8192" using demo_parser by blast
  have l: "length (wire_frame ''1'' [(112, ''ID'')]) = 27" by code_simp
  have lw: "length ?w = 34" using length_wire_message [of "''1''" "[(112, ''ID'')]"] l by simp
  then have nw: "?w \<noteq> []" by auto
  have t: "take 12 ?w = take 12 (wire_frame ''1'' [(112, ''ID'')])" using l by (simp add: wire_message_def)
  have ch: "chunked [] ?cs ?wss"
    using lw l nw by (simp add: chunk_fits_def starts_frame_def PARTIAL_BUFFER_SIZE_def t [symmetric])
  have ok: "\<forall>w \<in> set (concat ?wss). message_ok (ps_max_message_size p) w" "has_room (length (concat ?wss)) p"
    using p(1,5) demo_messages by (simp_all add: has_room_def)
  from parse_chunks [OF ch ok p(2-4)] obtain outs ass q where
    r: "feed ?cs p = (outs, q)" "chunk_answers [] ?cs ?wss ass outs" by (elim exE conjE)
  have "\<exists>b. needs_more (outs ! 0) \<and> outs ! 1 = Returns (result Success (length ?w) b IDLE 0)"
    using r(2) lw nw by (cases ass; cases outs; cases "tl ass"; cases "tl outs") (auto simp: chunk_answer_def Let_def)
  moreover have "fst (feed ?cs p) = outs" by (simp only: r(1) fst_conv)
  ultimately show ?thesis unfolding Let_def by blast
qed

text \<open>C32: The framing stage takes a message to end before its checksum field, so a buffer that ends inside that field is decoded at once and the decoder
  reads past the end of the data: with one of the specialised decoders the behaviour is undefined for every cut that leaves out
  the last checksum digit.\<close>

theorem parse_trailer_cut:
  assumes "message_ok (ps_max_message_size p) (ty, fs)" "has_room 1 p" "breaker_closed p" "ps_partial_size p = 0" "k < 6"
  shows "fst (parse ck (take (length (wire_frame ty fs) + k) (wire_message ty fs)) (length (wire_frame ty fs) + k) p) = Undefined"
proof -
  let ?mem = "take (length (wire_frame ty fs) + k) (wire_message ty fs)" and ?len = "length (wire_frame ty fs) + k"
  let ?p = "upd_ctx (\<lambda>c. c\<lparr>cx_expected_body_length := length (wire_body ty fs)\<rparr>) p"
  have ok: "wire_ok (ps_max_message_size p) ty fs" "optimized_type ty" "min_frame ty \<le> length (wire_frame ty fs)"
    using assms(1) by (simp_all add: message_ok_def)
  have pos: "0 < length (wire_frame ty fs)" by (simp add: wire_frame_def frame_def frame_header_def)
  have fcm: "findCompleteMessage ?mem p = (Returns (result Success 0 0 IDLE 0, 0, length (wire_frame ty fs)), ?p)"
    unfolding wire_message_def using assms(5)
    by (intro findCompleteMessage_wire [OF ok(1)]) (simp_all add: field_text_CheckSum length_checksum)
  obtain a p1 where n: "new_message ck ?p = (a, p1)" by (cases "new_message ck ?p")
  have a: "a \<noteq> 0" using new_message_laws(3) [OF _ n] assms(2) by (simp add: has_room_def)
  have "fst (parseCompleteMessage ck ?mem (length (wire_frame ty fs)) ?p) = Undefined"
    by (rule parseCompleteMessage_cut [OF ok(1,2) refl assms(5) refl ok(3) n a])
  then obtain q where "parseCompleteMessage ck ?mem (length (wire_frame ty fs)) ?p = (Undefined, q)"
    by (metis prod.collapse)
  then have "parse_step ck False ?mem ?len 0 p = (Leave Undefined, q)"
    by (simp add: parse_step_def fcm decode_step_def)
  then have "parse_loop ck False ?mem ?len 0 None p = (Undefined, q)"
    using pos by (subst parse_loop.simps) simp
  then show ?thesis
    using pos assms(4) breaker_closed_query [OF assms(3), of ck] by (simp add: parse_def catch_exception_def)
qed

lemma parse_trailer_cut_witness:
  "\<exists>p. fst (parse demo_clock (take 34 (wire_message ''0'' [(49, ''S''), (56, ''T'')])) 34 p) = Undefined"
proof -
  obtain p where p: "has_room 3 p" "breaker_closed p" "ps_partial_size p = 0" "ps_max_message_size p = 8192"
    using demo_parser by blast
  have ok: "message_ok (ps_max_message_size p) (''0'', [(49, ''S''), (56, ''T'')])" "has_room 1 p"
    using p demo_messages(1) by (simp_all add: has_room_def)
  have "length (wire_frame ''0'' [(49, ''S''), (56, ''T'')]) = 30" by code_simp
  with parse_trailer_cut [OF ok p(2,3), of 4 demo_clock] show ?thesis by auto
qed

section \<open>Types without a specialised decoder\<close>

text \<open>A well-formed message of any other type, with a free slot in the pool, is rejected with InvalidFormat, because the frame handed to the
  generic decoder lacks the checksum field that strict validation requires; the live messages stay as they were and the error is counted
  against the circuit breaker.\<close>

lemma parse_rejects_other_types:
  assumes "wire_ok (ps_max_message_size p) ty fs" "\<not> optimized_type ty" "Tag_CheckSum \<notin> fst ` set fs" "ps_strict_validation p"
    and "has_room 1 p" "breaker_closed p" "ps_partial_size p = 0" "length (wire_message ty fs) < 2 ^ 64"
  shows "\<exists>q. parse ck (wire_message ty fs) (length (wire_message ty fs)) p = (Returns (result InvalidFormat 0 0 IDLE 0), q)
    \<and> parser_heap q = parser_heap p \<and> pool_inv (ps_pool q)
    \<and> cx_consecutive_errors (ps_ctx q) = cx_consecutive_errors (ps_ctx p) + 1"
proof -
  let ?w = "wire_message ty fs" and ?l = "length (wire_frame ty fs)"
  let ?p = "upd_ctx (\<lambda>c. c\<lparr>cx_expected_body_length := length (wire_body ty fs)\<rparr>) p"
  have fcm: "findCompleteMessage ?w p = (Returns (result Success 0 0 IDLE 0, 0, ?l), ?p)"
    using findCompleteMessage_wire [OF assms(1), of "length ?w" "field_text (Tag_CheckSum, wire_checksum ty fs)"]
    by (simp add: wire_message_def)
  have inv: "pool_inv (ps_pool ?p)" using assms(5) by (simp add: has_room_def)
  have w: "?w = ?w @ []" by simp
  have rej: "fst (parseCompleteMessage ck ?w ?l ?p) = Returns (result InvalidFormat 0 0 IDLE 0)"
    using parseCompleteMessage_rejects [OF assms(1-3) w refl, of ?p ck] assms(4,5) inv by (simp add: has_room_def)
  then obtain q1 where d: "parseCompleteMessage ck ?w ?l ?p = (Returns (result InvalidFormat 0 0 IDLE 0), q1)"
    by (metis prod.collapse)
  have acc: "pool_inv (ps_pool q1)" "parser_heap q1 = parser_heap p" "only_pool ?p q1"
    using parseCompleteMessage_accounts [OF inv, of ck ?w ?l] d by (simp_all add: accounts_def)
  define q2 where "q2 = updateStats InvalidFormat (ck_parse_time ck) (updateErrorStats ck InvalidFormat IDLE q1)"
  have q2: "bookkeeping_only q1 q2" unfolding q2_def by (rule bookkeeping_only_trans [OF errors_bookkeeping(1,2)])
  have q2e: "cx_consecutive_errors (ps_ctx q2) = cx_consecutive_errors (ps_ctx p) + 1"
    using only_poolD(3) [OF acc(3)] by (simp add: q2_def updateStats_def updateErrorStats_def Let_def)
  obtain out q3 where r: "attemptErrorRecovery ?w ?l q2 = (out, q3)" by (cases "attemptErrorRecovery ?w ?l q2")
  have "out \<noteq> Undefined"
    using skipToNext_defined [of ?l ?w] assms(8) r length_wire_message [of ty fs]
    by (auto simp: attemptErrorRecovery_def handleErrorRecovery_def Let_def wire_frame_def length_frame split: prod.splits if_splits option.splits)
  then obtain rr where out: "out = Returns rr" using attemptErrorRecovery_result(5) [OF r] by (cases out) auto
  have q3: "bookkeeping_only q2 q3" "cx_consecutive_errors (ps_ctx q3) = cx_consecutive_errors (ps_ctx q2)" "pr_status rr \<noteq> RecoverySuccess"
    using attemptErrorRecovery_result [OF r] out by auto
  define q where "q = (if ps_error_recovery_enabled q2 then q3 else q2)"
  have "decode_failure ck ?w ?l (0 + ?l) (result InvalidFormat 0 0 IDLE 0) q1 = (Returns (result InvalidFormat 0 0 IDLE 0), q)"
    using q3(3) by (simp add: decode_failure_def q2_def [symmetric] canRecoverFromError_def r out recordErrorRecovery_def q_def)
  then have "decode_step ck ?w 0 0 ?l ?p = (Leave (Returns (result InvalidFormat 0 0 IDLE 0)), q)"
    using d by (simp add: decode_step_def Let_def) (simp add: result_def)
  then have "parse_loop ck False ?w (length ?w) 0 None p = (Returns (result InvalidFormat 0 0 IDLE 0), q)"
    using length_wire_message [of ty fs] by (subst parse_loop.simps) (simp add: parse_step_def fcm)
  then have "parse ck ?w (length ?w) p = (Returns (result InvalidFormat 0 0 IDLE 0), q)"
    using assms(7) breaker_closed_query [OF assms(6), of ck] length_wire_message [of ty fs] by (simp add: parse_def catch_exception_def)
  moreover have "ps_pool q = ps_pool q1" using bookkeepingD(1) [OF q2] bookkeepingD(1) [OF q3(1)] by (simp add: q_def)
  ultimately show ?thesis using acc q2e q3(2) by (auto simp: q_def)
qed

lemma parse_rejects_other_types_witness:
  "\<exists>p q. parse demo_clock (wire_message ''A'' [(98, ''0'')]) (length (wire_message ''A'' [(98, ''0'')])) p
     = (Returns (result InvalidFormat 0 0 IDLE 0), q) \<and> parser_heap q = parser_heap p"
proof -
  obtain p where p: "has_room 3 p" "breaker_closed p" "ps_partial_size p = 0" "ps_max_message_size p = 8192" "ps_strict_validation p"
    using demo_parser by blast
  have len: "length (wire_body ''A'' [(98, ''0'')]) = 10" "length (wire_frame ''A'' [(98, ''0'')]) = 25" by code_simp+
  have ok: "wire_ok (ps_max_message_size p) ''A'' [(98, ''0'')]"
    by (simp add: wire_ok_def len p(4) wire_fields_def to_int32_def INT_MAX_def FIX_SOH_def)
  have other: "\<not> optimized_type ''A''" "Tag_CheckSum \<notin> fst ` set [(98, ''0'')]" "has_room 1 p"
    "length (wire_message ''A'' [(98, ''0'')]) < 2 ^ 64"
    using p(1) by (simp_all add: optimized_type_def Tag_CheckSum_def has_room_def length_wire_message len)
  show ?thesis
    using parse_rejects_other_types [OF ok other(1,2) p(5) other(3) p(2,3) other(4), of demo_clock] by blast
qed

end
