(* ===== verification/Stream_Safety.thy ===== *)
theory Stream_Safety
  imports Stream_Correctness
begin

text \<open>
  What holds of \<open>StreamFixParser::parse\<close> on arbitrary input: the pool stays consistent and no live message is
  lost or changed, error recovery never succeeds, and a parser that has seen too many errors in a row stays closed.
\<close>

section \<open>Arbitrary input\<close>

definition grows :: "parser \<Rightarrow> parser \<Rightarrow> bool" where
  "grows p q \<longleftrightarrow> pool_inv (ps_pool q) \<and> parser_heap p \<subseteq>\<^sub>m parser_heap q
     \<and> p_size (ps_pool q) = p_size (ps_pool p) \<and> p_shutdown (ps_pool q) = p_shutdown (ps_pool p)"

definition quiet :: "parser \<Rightarrow> parser \<Rightarrow> bool" where
  "quiet p q \<longleftrightarrow> st_error_recoveries (ps_stats q) = st_error_recoveries (ps_stats p) \<and> (ps_breaker_active q \<longrightarrow> ps_breaker_active p)"

lemma grows_refl: "pool_inv (ps_pool p) \<Longrightarrow> grows p p"
  by (simp add: grows_def)

lemma grows_trans: "grows p q \<Longrightarrow> grows q r \<Longrightarrow> grows p r"
  by (auto simp: grows_def intro: map_le_trans)

lemma grows_cong: "ps_pool q' = ps_pool q \<Longrightarrow> grows p q' \<longleftrightarrow> grows p q" "ps_pool p' = ps_pool p \<Longrightarrow> grows p' q \<longleftrightarrow> grows p q"
  by (simp_all add: grows_def)

lemma accounts_grows:
  assumes "accounts p (out, q)" "out \<noteq> Undefined"
  shows "grows p q"
proof -
  have upd: "h a = None \<Longrightarrow> h \<subseteq>\<^sub>m h(a \<mapsto> m)" for h :: "addr \<rightharpoonup> fix_message" and a m
    by (auto simp: map_le_def)
  have "only_pool p q" using assms(1) by (simp add: accounts_def)
  from only_poolD(12,13) [OF this] show ?thesis
    using assms upd by (auto simp: accounts_def grows_def domIff split: outcome.splits if_splits)
qed

lemma accounts_quiet: "accounts p (out, q) \<Longrightarrow> quiet p q"
  using only_poolD [of p q] by (simp add: accounts_def quiet_def)

lemma quiet_refl [simp]: "quiet p p"
  by (simp add: quiet_def)

lemma quiet_trans: "quiet p q \<Longrightarrow> quiet q r \<Longrightarrow> quiet p r"
  by (auto simp: quiet_def)

lemma updates_quiet:
  "st_error_recoveries (ps_stats (updateErrorStats ck st s p)) = st_error_recoveries (ps_stats p)"
  "st_error_recoveries (ps_stats (updateStats st t p)) = st_error_recoveries (ps_stats p)"
  by (simp_all add: updateErrorStats_def updateStats_def Let_def split: parse_status.split)

lemma error_counters_quiet: "quiet p (updateErrorStats ck st s p)" "quiet p (updateStats st t p)" "quiet p (recordErrorRecovery False p)"
  using bookkeepingD(9) [OF errors_bookkeeping(1) [of p ck st s]] bookkeepingD(9) [OF errors_bookkeeping(2) [of p st t]]
  by (simp_all add: quiet_def updates_quiet recordErrorRecovery_def)

lemma recovery_quiet:
  assumes "attemptErrorRecovery mem len p = (out, q)"
  shows "quiet p q" "ps_pool q = ps_pool p"
  using attemptErrorRecovery_result(1,2) [OF assms] bookkeepingD(1,9) [OF attemptErrorRecovery_result(1) [OF assms]]
  by (simp_all add: quiet_def)

lemma frame_failure_step:
  assumes "frame_failure ck mem len cursor r p = (it, q)"
  shows "ps_pool q = ps_pool p \<and> quiet p q"
proof (cases "ps_error_recovery_enabled p \<and> canRecoverFromError (pr_status r) (pr_state r) p")
  case True
  obtain out p1 where a: "attemptErrorRecovery (drop cursor mem) (len - cursor) p = (out, p1)"
    by (cases "attemptErrorRecovery (drop cursor mem) (len - cursor) p")
  have st: "out = Returns rr \<Longrightarrow> pr_status rr \<noteq> RecoverySuccess" for rr using attemptErrorRecovery_result(4) [OF a] by auto
  from assms True a st show ?thesis
    using recovery_quiet [OF a] bookkeepingD(1) [OF errors_bookkeeping(1)] error_counters_quiet(1) quiet_trans
    by (auto simp: frame_failure_def recordErrorRecovery_def split: outcome.splits if_splits)
next
  case False
  with assms show ?thesis
    using bookkeepingD(1) [OF errors_bookkeeping(1)] error_counters_quiet(1) by (auto simp: frame_failure_def)
qed

lemma decode_failure_step:
  assumes "decode_failure ck msg n k r p = (out, q)"
  shows "ps_pool q = ps_pool p \<and> quiet p q"
proof -
  define p1 where "p1 = updateStats (pr_status r) (ck_parse_time ck) (updateErrorStats ck (pr_status r) (pr_state r) p)"
  have p1: "ps_pool p1 = ps_pool p" "quiet p p1"
    using bookkeepingD(1) [OF errors_bookkeeping(1)] bookkeepingD(1) [OF errors_bookkeeping(2)] quiet_trans [OF error_counters_quiet(1,2)]
    by (simp_all add: p1_def)
  obtain o2 p2 where a: "attemptErrorRecovery msg n p1 = (o2, p2)" by (cases "attemptErrorRecovery msg n p1")
  have st: "o2 = Returns rr \<Longrightarrow> pr_status rr \<noteq> RecoverySuccess" for rr using attemptErrorRecovery_result(4) [OF a] by auto
  show ?thesis
    using assms p1 recovery_quiet [OF a] st quiet_trans [OF p1(2)]
    by (auto simp: decode_failure_def p1_def [symmetric] a recordErrorRecovery_def split: outcome.splits if_splits)
qed

lemma decode_step_safe:
  assumes "decode_step ck mem cursor s e p = (it, q)" "pool_inv (ps_pool p)"
  shows "quiet p q \<and> (it \<noteq> Leave Undefined \<longrightarrow> grows p q)"
proof -
  obtain out p1 where d: "parseCompleteMessage ck (drop (cursor + s) mem) (e - s) p = (out, p1)"
    by (cases "parseCompleteMessage ck (drop (cursor + s) mem) (e - s) p")
  have acc: "accounts p (out, p1)" using parseCompleteMessage_accounts [OF assms(2), of ck "drop (cursor + s) mem" "e - s"] d by simp
  note g = accounts_grows [OF acc] and qt = accounts_quiet [OF acc]
  show ?thesis
  proof (cases out)
    case (Returns r)
    have s: "quiet p1 (count_success ck p1)" "ps_pool (count_success ck p1) = ps_pool p1" by (simp_all add: quiet_def)
    show ?thesis
    proof (cases "pr_status r = Success")
      case True
      with assms(1) d Returns have "q = count_success ck p1" by (simp add: decode_step_def Let_def count_success_def)
      with s g qt Returns show ?thesis using quiet_trans grows_cong(1) [of q p1 p] by blast
    next
      case False
      with assms(1) d Returns have "q = p1 \<or> (\<exists>n k r' o2. decode_failure ck (drop (cursor + s) mem) n k r' p1 = (o2, q))"
        by (auto simp: decode_step_def Let_def split: if_splits prod.splits)
      with g qt Returns show ?thesis
        using decode_failure_step quiet_trans grows_cong(1) [of q p1 p] by blast
    qed
  qed (use assms(1) d g qt in \<open>auto simp: decode_step_def\<close>)
qed

lemma parse_step_safe:
  assumes "parse_step ck own mem len cursor p = (it, q)" "pool_inv (ps_pool p)"
  shows "quiet p q \<and> (it \<noteq> Leave Undefined \<longrightarrow> grows p q)"
proof -
  obtain out p1 where f: "findCompleteMessage (drop cursor (take len mem)) p = (out, p1)"
    by (cases "findCompleteMessage (drop cursor (take len mem)) p")
  from findCompleteMessage_frame [OF f] have p1: "ps_pool p1 = ps_pool p" "quiet p p1" by (auto simp: quiet_def)
  have g1: "grows p1 q \<longleftrightarrow> grows p q" using p1(1) by (rule grows_cong)
  have same: "ps_pool q = ps_pool p1 \<Longrightarrow> grows p q" using p1(1) assms(2) grows_refl [of p] grows_cong(1) [of q p p] by simp
  show ?thesis
  proof (cases out)
    case (Returns x)
    obtain r i j where x: "x = (r, i, j)" by (cases x)
    consider (leftover) "pr_status r = NeedMoreData" | (error) "pr_status r \<noteq> NeedMoreData" "pr_status r \<noteq> Success" | (message) "pr_status r = Success"
      by (cases "pr_status r") auto
    then show ?thesis
    proof cases
      case leftover
      with assms(1) f Returns x have "(it = Leave Undefined \<and> q = p1) \<or> (\<exists>b n. q = p1\<lparr>ps_partial := b, ps_partial_size := n\<rparr>) \<or> q = p1"
        by (auto simp: parse_step_def store_leftover_def Let_def split: option.splits if_splits)
      then show ?thesis using p1(2) same by (auto simp: quiet_def)
    next
      case error
      with assms(1) f Returns x have "frame_failure ck mem len cursor r p1 = (it, q)" by (simp add: parse_step_def)
      from frame_failure_step [OF this] show ?thesis using p1(2) quiet_trans same by blast
    next
      case message
      with assms(1) f Returns x have "decode_step ck mem cursor i j p1 = (it, q)" by (simp add: parse_step_def)
      from decode_step_safe [OF this] show ?thesis using p1 assms(2) quiet_trans g1 by auto
    qed
  qed (use assms(1) f p1 same in \<open>auto simp: parse_step_def\<close>)
qed

lemma parse_loop_safe:
  assumes "parse_loop ck own mem len cursor r p = (out, q)" "pool_inv (ps_pool p)"
  shows "quiet p q \<and> (out \<noteq> Undefined \<longrightarrow> grows p q)"
  using assms
proof (induction ck own mem len cursor r p arbitrary: out q rule: parse_loop.induct)
  case (1 ck own mem len cursor r p)
  show ?case
  proof (cases "cursor < len")
    case True
    obtain it p1 where s: "parse_step ck own mem len cursor p = (it, p1)" by (cases "parse_step ck own mem len cursor p")
    note safe = parse_step_safe [OF s 1(3)]
    show ?thesis
    proof (cases it)
      case (Leave o1)
      with 1(2) True s safe show ?thesis by (subst (asm) parse_loop.simps) auto
    next
      case (Again c r')
      with 1(2) True s have loop: "parse_loop ck own mem len c (case r' of None \<Rightarrow> r | Some r \<Rightarrow> Some r) p1 = (out, q)"
        by (subst (asm) parse_loop.simps) simp
      have g: "grows p p1" "quiet p p1" using safe Again by auto
      then have "pool_inv (ps_pool p1)" by (simp add: grows_def)
      with 1(1) [OF True s [symmetric] Again loop] g show ?thesis
        using quiet_trans grows_trans by blast
    qed
  next
    case False
    with 1(2,3) show ?thesis by (subst (asm) parse_loop.simps) (auto simp: grows_refl split: option.splits)
  qed
qed

lemma catch_exception_safe:
  assumes "catch_exception (o1, p) = (out, q)"
  shows "ps_pool q = ps_pool p" "quiet p q" "out = Undefined \<longleftrightarrow> o1 = Undefined" "out \<noteq> Throws e"
  using assms by (auto simp: catch_exception_def quiet_def updateStats_def split: outcome.splits)

lemma parse_safe:
  assumes "parse ck mem len p = (out, q)" "pool_inv (ps_pool p)"
  shows "quiet p q \<and> (out \<noteq> Undefined \<longrightarrow> grows p q) \<and> (\<forall>e. out \<noteq> Throws e)"
proof -
  obtain b p1 where br: "isCircuitBreakerActive ck p = (b, p1)" by (cases "isCircuitBreakerActive ck p")
  have p1: "ps_pool p1 = ps_pool p" "quiet p p1" using br by (auto simp: isCircuitBreakerActive_def quiet_def split: if_splits)
  have same: "ps_pool q = ps_pool p1 \<Longrightarrow> grows p q" using p1(1) assms(2) grows_refl [of p] grows_cong(1) [of q p p] by simp
  have run: ?thesis if c: "catch_exception (parse_loop ck own mem' n 0 None p2) = (out, q)" and p2: "ps_pool p2 = ps_pool p" "quiet p p2"
    for own mem' n p2
  proof -
    obtain o3 p3 where l: "parse_loop ck own mem' n 0 None p2 = (o3, p3)" by (cases "parse_loop ck own mem' n 0 None p2")
    have "quiet p2 p3 \<and> (o3 \<noteq> Undefined \<longrightarrow> grows p2 p3)" using parse_loop_safe [OF l] p2(1) assms(2) by simp
    moreover note safe = catch_exception_safe [OF c [unfolded l]]
    moreover have "quiet p q" if "quiet p2 p3" using p2(2) that safe(2) quiet_trans by blast
    moreover have "grows p q \<longleftrightarrow> grows p2 p3" using safe(1) p2(1) by (simp add: grows_def)
    ultimately show ?thesis by simp
  qed
  consider (early) "q = p \<or> q = p1" "\<exists>r. out = Returns r"
    | (own) m n where "catch_exception (parse_loop ck True m n 0 None (p1\<lparr>ps_partial := m, ps_partial_size := 0\<rparr>)) = (out, q)"
    | (caller) "catch_exception (parse_loop ck False mem len 0 None p1) = (out, q)"
    using assms(1) br unfolding parse_def Let_def by (simp split: if_splits) blast+
  then show ?thesis
  proof cases
    case early
    then show ?thesis using p1 same assms(2) grows_refl [of p] by auto
  next
    case own
    then show ?thesis by (rule run) (use p1 in \<open>simp_all add: quiet_def\<close>)
  next
    case caller
    then show ?thesis by (rule run) (use p1 in simp_all)
  qed
qed

text \<open>A message that a call reports as parsed was allocated by that call.\<close>

definition fresh_result :: "parser \<Rightarrow> parser \<Rightarrow> parse_result \<Rightarrow> bool" where
  "fresh_result p q r \<longleftrightarrow> (pr_status r = Success \<longrightarrow> pr_message r \<noteq> 0 \<and> pr_message r \<notin> dom (parser_heap p) \<and> pr_message r \<in> dom (parser_heap q))"

lemma fresh_result_mono: "fresh_result p q r \<Longrightarrow> grows p' p \<Longrightarrow> grows q q' \<Longrightarrow> fresh_result p' q' r"
  by (auto simp: fresh_result_def grows_def dest: map_le_implies_dom_le)

lemma decode_step_fresh:
  assumes "decode_step ck mem cursor s e p = (it, q)" "pool_inv (ps_pool p)"
  shows "it = Again c r' \<Longrightarrow> \<exists>r. r' = Some r \<and> fresh_result p q r" and "it = Leave (Returns r) \<Longrightarrow> pr_status r \<noteq> Success"
proof -
  obtain out p1 where d: "parseCompleteMessage ck (drop (cursor + s) mem) (e - s) p = (out, p1)"
    by (cases "parseCompleteMessage ck (drop (cursor + s) mem) (e - s) p")
  have acc: "accounts p (out, p1)" using parseCompleteMessage_accounts [OF assms(2), of ck "drop (cursor + s) mem" "e - s"] d by simp
  show "\<exists>r. r' = Some r \<and> fresh_result p q r" if "it = Again c r'"
    using assms(1) d that acc count_success_def [of ck p1]
    by (cases out) (auto simp: decode_step_def Let_def accounts_def fresh_result_def split: if_splits prod.splits)
  show "pr_status r \<noteq> Success" if "it = Leave (Returns r)"
    using assms(1) d that decode_failure_leave_status
    by (cases out) (fastforce simp: decode_step_def Let_def split: if_splits prod.splits)+
qed

lemma parse_step_fresh:
  assumes "parse_step ck own mem len cursor p = (it, q)" "pool_inv (ps_pool p)"
  shows "it = Again c r' \<Longrightarrow> \<exists>r. r' = Some r \<and> fresh_result p q r" and "it = Leave (Returns r) \<Longrightarrow> pr_status r \<noteq> Success"
proof -
  obtain out p1 where f: "findCompleteMessage (drop cursor (take len mem)) p = (out, p1)"
    by (cases "findCompleteMessage (drop cursor (take len mem)) p")
  have p1: "ps_pool p1 = ps_pool p" using findCompleteMessage_frame [OF f] by auto
  have fr: "fresh_result p1 q x = fresh_result p q x" for x using p1 by (simp add: fresh_result_def)
  have ff: "frame_failure ck mem len cursor x p1 = (Leave (Returns r), q) \<Longrightarrow> r = x" for x r
    by (auto simp: frame_failure_def split: if_splits prod.splits outcome.splits dest: attemptErrorRecovery_result(4) [OF _ refl])
  note ds = decode_step_fresh [where p = p1 and q = q, unfolded p1 fr, OF _ assms(2)]
  show "\<exists>r. r' = Some r \<and> fresh_result p q r" if again: "it = Again c r'"
  proof -
    from assms(1) f again obtain x i j where out: "out = Returns (x, i, j)" by (cases out) (auto simp: parse_step_def)
    then have "decode_step ck mem cursor i j p1 = (it, q)"
      using assms(1) f again frame_failure_leaves [of ck mem len cursor x p1] by (auto simp: parse_step_def split: if_splits option.splits)
    then show ?thesis using ds(1) again by blast
  qed
  show "pr_status r \<noteq> Success" if leave: "it = Leave (Returns r)"
  proof -
    from assms(1) f leave obtain x i j where out: "out = Returns (x, i, j)" by (cases out) (auto simp: parse_step_def)
    consider (leftover) "pr_status x = NeedMoreData" | (error) "pr_status x \<noteq> NeedMoreData" "pr_status x \<noteq> Success" | (message) "pr_status x = Success"
      by (cases "pr_status x") auto
    then show ?thesis
    proof cases
      case leftover
      with assms(1) f leave out show ?thesis by (auto simp: parse_step_def split: option.splits)
    next
      case error
      with assms(1) f leave out have "frame_failure ck mem len cursor x p1 = (Leave (Returns r), q)" by (simp add: parse_step_def)
      with ff error show ?thesis by blast
    next
      case message
      with assms(1) f leave out have "decode_step ck mem cursor i j p1 = (it, q)" by (simp add: parse_step_def)
      then show ?thesis using ds(2) leave by blast
    qed
  qed
qed

lemma parse_loop_fresh:
  assumes "parse_loop ck own mem len cursor r0 p = (Returns r, q)" "pool_inv (ps_pool p)" "grows p0 p"
    and "case r0 of None \<Rightarrow> True | Some x \<Rightarrow> fresh_result p0 p x"
  shows "fresh_result p0 q r"
  using assms
proof (induction ck own mem len cursor r0 p rule: parse_loop.induct)
  case (1 ck own mem len cursor r0 p)
  show ?case
  proof (cases "cursor < len")
    case True
    obtain it p1 where s: "parse_step ck own mem len cursor p = (it, p1)" by (cases "parse_step ck own mem len cursor p")
    note fresh = parse_step_fresh [OF s 1(3)]
    show ?thesis
    proof (cases it)
      case (Leave o1)
      with 1(2) True s fresh(2) [of r] show ?thesis by (subst (asm) parse_loop.simps) (simp add: fresh_result_def)
    next
      case (Again c r')
      then obtain x where x: "r' = Some x" "fresh_result p p1 x" using fresh(1) by blast
      have g: "grows p p1" using parse_step_safe [OF s 1(3)] Again by simp
      have inv: "pool_inv (ps_pool p1)" using g by (simp add: grows_def)
      have loop: "parse_loop ck own mem len c (case r' of None \<Rightarrow> r0 | Some r \<Rightarrow> Some r) p1 = (Returns r, q)"
        using 1(2) True s Again by (subst (asm) parse_loop.simps) simp
      have "fresh_result p0 p1 x" using fresh_result_mono [OF x(2) 1(4) grows_refl [OF inv]] .
      then show ?thesis
        using 1(1) [OF True s [symmetric] Again loop inv grows_trans [OF 1(4) g]] x(1) by simp
    qed
  next
    case False
    with 1(2,5) show ?thesis by (subst (asm) parse_loop.simps) (auto simp: fresh_result_def split: option.splits)
  qed
qed

lemma parse_fresh:
  assumes "parse ck mem len p = (Returns r, q)" "pool_inv (ps_pool p)"
  shows "fresh_result p q r"
proof -
  obtain b p1 where br: "isCircuitBreakerActive ck p = (b, p1)" by (cases "isCircuitBreakerActive ck p")
  have p1: "ps_pool p1 = ps_pool p" using br by (auto simp: isCircuitBreakerActive_def split: if_splits)
  have run: "fresh_result p q r" if c: "catch_exception (parse_loop ck own mem' n 0 None p2) = (Returns r, q)" and p2: "ps_pool p2 = ps_pool p" for own mem' n p2
  proof -
    obtain o3 p3 where l: "parse_loop ck own mem' n 0 None p2 = (o3, p3)" by (cases "parse_loop ck own mem' n 0 None p2")
    have "pool_inv (ps_pool p2)" "grows p p2" using assms(2) p2 by (simp_all add: grows_def)
    with parse_loop_fresh [OF _ this(1,2), of ck own mem' n 0 None] l c show ?thesis
      by (cases o3) (auto simp: catch_exception_def fresh_result_def)
  qed
  show ?thesis
    using assms(1) br p1 run [of False mem len p1] run [of True]
    unfolding parse_def Let_def by (auto simp: fresh_result_def split: if_splits)
qed

text \<open>C21: Whatever bytes arrive, and whatever state the parser is in, a call that stays within defined behaviour never throws, keeps the pool
  consistent, and neither frees nor modifies a message that was live before the call.\<close>

theorem parse_preserves_live:
  assumes "parse ck mem len p = (out, q)" "pool_inv (ps_pool p)" "out \<noteq> Undefined"
  shows "(\<exists>r. out = Returns r) \<and> pool_inv (ps_pool q) \<and> (\<forall>a m. parser_heap p a = Some m \<longrightarrow> parser_heap q a = Some m)
    \<and> p_size (ps_pool q) = p_size (ps_pool p)"
proof -
  have "grows p q" "\<forall>e. out \<noteq> Throws e" using parse_safe [OF assms(1,2)] assms(3) by auto
  then show ?thesis using assms(3) by (cases out) (auto simp: grows_def map_le_def dom_def)
qed

lemma parse_preserves_live_witness:
  "\<exists>pool. newPool 4096 64 3 ''pool'' = Inr pool
    \<and> (let (out, q) = parse demo_clock ''xxxxxxxxxx'' 10 (new_parser [] demo_clock pool) in out \<noteq> Undefined \<and> pool_inv (ps_pool q))"
proof -
  obtain pool :: "fix_message pool" where pool: "newPool 4096 64 3 ''pool'' = Inr pool" by (simp add: newPool_def)
  let ?p = "new_parser [] demo_clock pool"
  obtain out q where r: "parse demo_clock ''xxxxxxxxxx'' 10 ?p = (out, q)" by (cases "parse demo_clock ''xxxxxxxxxx'' 10 ?p")
  have "case newPool 4096 64 3 ''pool'' of Inl _ \<Rightarrow> False
      | Inr pool \<Rightarrow> (case fst (parse demo_clock ''xxxxxxxxxx'' 10 (new_parser [] demo_clock pool)) of Undefined \<Rightarrow> False | _ \<Rightarrow> True)"
    by code_simp
  then have "out \<noteq> Undefined" using pool r by auto
  moreover have "pool_inv (ps_pool ?p)" using newPool_inv [OF pool] by (simp add: new_parser_def)
  ultimately show ?thesis using parse_preserves_live [OF r] pool r by auto
qed

text \<open>C33: Error recovery never succeeds: after the context is reset to IDLE the transition back to IDLE is refused, so no call of \<open>parse\<close>
  ever counts a recovery or resumes behind a malformed message, and \<open>attemptErrorRecovery\<close> never reports RecoverySuccess.\<close>

theorem recovery_never_succeeds:
  "(\<forall>mem len p r q. attemptErrorRecovery mem len p = (Returns r, q) \<longrightarrow> pr_status r \<noteq> RecoverySuccess)
   \<and> (\<forall>ck mem len p. pool_inv (ps_pool p) \<longrightarrow>
        st_error_recoveries (ps_stats (snd (parse ck mem len p))) = st_error_recoveries (ps_stats p))"
proof (intro conjI allI impI)
  fix mem len p r q assume "attemptErrorRecovery mem len p = (Returns r, q)"
  from attemptErrorRecovery_result(4) [OF this refl] show "pr_status r \<noteq> RecoverySuccess" by auto
next
  fix ck mem len and p :: parser assume "pool_inv (ps_pool p)"
  with parse_safe [of ck mem len p "fst (parse ck mem len p)" "snd (parse ck mem len p)"]
  show "st_error_recoveries (ps_stats (snd (parse ck mem len p))) = st_error_recoveries (ps_stats p)"
    by (simp add: quiet_def)
qed

lemma recovery_never_succeeds_witness:
  "\<exists>pool. newPool 4096 64 3 ''pool'' = Inr pool
    \<and> (\<exists>r q. attemptErrorRecovery ''abc8=FIX.4.4'' 12 (new_parser [] demo_clock pool) = (Returns r, q) \<and> pr_status r \<noteq> RecoverySuccess)
    \<and> st_error_recoveries (ps_stats (snd (parse demo_clock ''8=FIX.4.2..'' 11 (new_parser [] demo_clock pool)))) = 0"
proof -
  obtain pool :: "fix_message pool" where pool: "newPool 4096 64 3 ''pool'' = Inr pool" by (simp add: newPool_def)
  let ?p = "new_parser [] demo_clock pool"
  obtain out q where r: "attemptErrorRecovery ''abc8=FIX.4.4'' 12 ?p = (out, q)" by (cases "attemptErrorRecovery ''abc8=FIX.4.4'' 12 ?p")
  have "case newPool 4096 64 3 ''pool'' of Inl _ \<Rightarrow> False
      | Inr pool \<Rightarrow> (case fst (attemptErrorRecovery ''abc8=FIX.4.4'' 12 (new_parser [] demo_clock pool)) of Returns _ \<Rightarrow> True | _ \<Rightarrow> False)"
    by code_simp
  then obtain x where "out = Returns x" using pool r by (auto split: outcome.splits)
  moreover have "pool_inv (ps_pool ?p)" "st_error_recoveries (ps_stats ?p) = 0"
    using newPool_inv [OF pool] by (simp_all add: new_parser_def reset_stats_def)
  ultimately show ?thesis using recovery_never_succeeds pool r by metis
qed

section \<open>The circuit breaker\<close>

lemma feed_safe:
  assumes "feed cs p = (outs, q)" "pool_inv (ps_pool p)" "Undefined \<notin> set outs"
  shows "quiet p q \<and> grows p q"
  using assms
proof (induction cs arbitrary: p outs)
  case Nil
  then show ?case by (simp add: grows_refl)
next
  case (Cons c cs)
  obtain o1 p1 where s: "parse (fst c) (snd c) (length (snd c)) p = (o1, p1)" by (cases "parse (fst c) (snd c) (length (snd c)) p")
  obtain os where os: "feed cs p1 = (os, q)" "outs = o1 # os" using Cons.prems(1) s by (auto split: prod.splits)
  have "quiet p p1" "grows p p1" using parse_safe [OF s Cons.prems(2)] Cons.prems(3) os(2) by auto
  with Cons.IH [OF os(1)] Cons.prems(3) os(2) show ?case
    using quiet_trans grows_trans by (fastforce simp: grows_def [of p p1])
qed

text \<open>The circuit breaker latches: the flag that would let it reopen after the cooling period is never set, so once the number of consecutive
  errors has reached the limit, by whatever history of calls of a parser whose flag was off, as it is in a new one, every later non-empty call is refused with CorruptedData, at any later
  time and for any data, and changes nothing.\<close>

lemma breaker_latches:
  assumes "pool_inv (ps_pool p0)" "\<not> ps_breaker_active p0" "feed cs p0 = (outs, p)" "Undefined \<notin> set outs"
    and "shouldActivateCircuitBreaker p" "\<forall>c \<in> set later. snd c \<noteq> []"
  shows "feed later p = (replicate (length later) (Returns (result CorruptedData 0 0 ERROR_RECOVERY 0)), p)"
proof -
  have "quiet p0 p" using feed_safe [OF assms(3,1,4)] by simp
  with assms(2) have off: "\<not> ps_breaker_active p" by (simp add: quiet_def)
  show ?thesis
    using assms(6)
  proof (induction later)
    case (Cons c later)
    have "parse (fst c) (snd c) (length (snd c)) p = (Returns (result CorruptedData 0 0 ERROR_RECOVERY 0), p)"
      using Cons.prems off assms(5) by (simp add: parse_def isCircuitBreakerActive_def)
    with Cons show ?case by simp
  qed simp
qed

lemma breaker_latches_witness:
  "\<exists>pool p outs. newPool 4096 64 3 ''pool'' = Inr pool
    \<and> feed [(demo_clock, ''xxxxxxxxxx'')] ((new_parser [] demo_clock pool)\<lparr>ps_max_consecutive_errors := 1\<rparr>) = (outs, p)
    \<and> feed [(\<lparr> ck_steady = 6000000000000, ck_system = 0, ck_parse_time = 0 \<rparr>, ''8=FIX.4.4'')] p
        = ([Returns (result CorruptedData 0 0 ERROR_RECOVERY 0)], p)"
proof -
  obtain pool :: "fix_message pool" where pool: "newPool 4096 64 3 ''pool'' = Inr pool" by (simp add: newPool_def)
  let ?p = "(new_parser [] demo_clock pool)\<lparr>ps_max_consecutive_errors := 1\<rparr>"
  obtain outs p where f: "feed [(demo_clock, ''xxxxxxxxxx'')] ?p = (outs, p)" by (cases "feed [(demo_clock, ''xxxxxxxxxx'')] ?p")
  have "case newPool 4096 64 3 ''pool'' of Inl _ \<Rightarrow> False
      | Inr pool \<Rightarrow> (let (outs, p) = feed [(demo_clock, ''xxxxxxxxxx'')] ((new_parser [] demo_clock pool)\<lparr>ps_max_consecutive_errors := 1\<rparr>)
          in shouldActivateCircuitBreaker p \<and> list_all (\<lambda>x. case x of Undefined \<Rightarrow> False | _ \<Rightarrow> True) outs)"
    by code_simp
  then have "shouldActivateCircuitBreaker p" "list_all (\<lambda>x. case x of Undefined \<Rightarrow> False | _ \<Rightarrow> True) outs"
    using pool f by (simp_all only: sum.case Let_def prod.case)
  moreover from this(2) have "Undefined \<notin> set outs" by (auto simp: list_all_iff)
  moreover have "pool_inv (ps_pool ?p)" "\<not> ps_breaker_active ?p" using newPool_inv [OF pool] by (simp_all add: new_parser_def)
  ultimately show ?thesis
    using breaker_latches [OF _ _ f, of "[(\<lparr> ck_steady = 6000000000000, ck_system = 0, ck_parse_time = 0 \<rparr>, ''8=FIX.4.4'')]"] pool f by auto
qed

end
