(* ===== verification/Message_Router.thy ===== *)
theory Message_Router
  imports Fix_Message Lockfree_Queue
begin

text \<open>
  \<open>PriorityQueueContainer\<close> (include/application/priority_queue_container.h) and \<open>MessageRouter\<close>
  (src/manager/message_router.cpp). Messages are addresses of the pool; the state of a routing call is the router and the
  pool, because reading the message type fills the cache of the message. Following a pointer to no live object gives \<open>None\<close>.
  The elapsed time of each call is an argument; the compare-and-swap loop for the peak runs without interference.
\<close>

section \<open>Priorities and their queues\<close>

datatype priority = CRITICAL | HIGH | MEDIUM | LOW

fun getPriorityIndex :: "priority \<Rightarrow> nat" where
  "getPriorityIndex CRITICAL = 0"
| "getPriorityIndex HIGH = 1"
| "getPriorityIndex MEDIUM = 2"
| "getPriorityIndex LOW = 3"

type_synonym queue_container = "addr lfq list"

definition new_container :: queue_container where
  "new_container =
    [newQueue 0 2048 ''critical_queue'', newQueue 0 2048 ''high_queue'', newQueue 0 1024 ''medium_queue'', newQueue 0 512 ''low_queue'']"

definition getQueue :: "priority \<Rightarrow> queue_container \<Rightarrow> addr lfq" where
  "getQueue pr qs = qs ! getPriorityIndex pr"

definition push_to :: "priority \<Rightarrow> addr \<Rightarrow> queue_container \<Rightarrow> bool \<times> queue_container" where
  "push_to pr a qs = (let (ok, q) = push a (getQueue pr qs) in (ok, qs[getPriorityIndex pr := q]))"

section \<open>The router\<close>

record router_stats =
  rs_messages_routed :: uint64
  rs_messages_dropped :: uint64
  rs_routing_errors :: uint64
  rs_total_routing_time :: uint64
  rs_peak_routing_time :: uint64
  rs_critical_routed :: uint64
  rs_high_routed :: uint64
  rs_medium_routed :: uint64
  rs_low_routed :: uint64
  rs_critical_dropped :: uint64
  rs_high_dropped :: uint64
  rs_medium_dropped :: uint64
  rs_low_dropped :: uint64

definition zero_router_stats :: router_stats where
  "zero_router_stats =
    \<lparr> rs_messages_routed = 0, rs_messages_dropped = 0, rs_routing_errors = 0, rs_total_routing_time = 0, rs_peak_routing_time = 0,
      rs_critical_routed = 0, rs_high_routed = 0, rs_medium_routed = 0, rs_low_routed = 0,
      rs_critical_dropped = 0, rs_high_dropped = 0, rs_medium_dropped = 0, rs_low_dropped = 0 \<rparr>"

record router =
  rt_queues :: queue_container
  rt_running :: bool
  rt_stats :: router_stats

definition new_router :: "queue_container \<Rightarrow> router" where
  "new_router queues = \<lparr> rt_queues = queues, rt_running = False, rt_stats = zero_router_stats \<rparr>"

definition router_start :: "router \<Rightarrow> router" where
  "router_start r = (if rt_running r then r else r\<lparr>rt_running := True\<rparr>)"

definition router_stop :: "router \<Rightarrow> router" where
  "router_stop r = r\<lparr>rt_running := False\<rparr>"

definition router_destroy :: "router \<Rightarrow> router" where
  "router_destroy r = router_stop r"

definition router_resetStats :: "router \<Rightarrow> router" where
  "router_resetStats r = r\<lparr>rt_stats := zero_router_stats\<rparr>"

definition getPeakRoutingLatencyNs :: "router \<Rightarrow> uint64" where
  "getPeakRoutingLatencyNs r = rs_peak_routing_time (rt_stats r)"

definition getMessagesRoutedPerSecond :: "router \<Rightarrow> uint64" where
  "getMessagesRoutedPerSecond r = rs_messages_routed (rt_stats r)"

definition router_priority :: "FixMsgType \<Rightarrow> priority" where
  "router_priority msgType =
    (if msgType = EXECUTION_REPORT then CRITICAL
     else if msgType = HEARTBEAT then LOW
     else case msgType of
            ORDER_CANCEL_REJECT \<Rightarrow> CRITICAL
          | NEW_ORDER_SINGLE \<Rightarrow> CRITICAL
          | ORDER_CANCEL_REQUEST \<Rightarrow> CRITICAL
          | ORDER_CANCEL_REPLACE_REQUEST \<Rightarrow> CRITICAL
          | ORDER_STATUS_REQUEST \<Rightarrow> CRITICAL
          | MARKET_DATA_REQUEST \<Rightarrow> HIGH
          | MARKET_DATA_SNAPSHOT \<Rightarrow> HIGH
          | MARKET_DATA_INCREMENTAL_REFRESH \<Rightarrow> HIGH
          | MARKET_DATA_REQUEST_REJECT \<Rightarrow> HIGH
          | TEST_REQUEST \<Rightarrow> MEDIUM
          | RESEND_REQUEST \<Rightarrow> MEDIUM
          | REJECT \<Rightarrow> MEDIUM
          | SEQUENCE_RESET \<Rightarrow> MEDIUM
          | LOGOUT \<Rightarrow> MEDIUM
          | LOGON \<Rightarrow> MEDIUM
          | _ \<Rightarrow> LOW)"

text \<open>\<open>message->getMsgTypeEnum()\<close> through the pointer.\<close>

definition type_at :: "addr \<Rightarrow> fix_message pool \<Rightarrow> (FixMsgType \<times> fix_message pool) option" where
  "type_at a pool =
    (case pool_heap pool a of
       None \<Rightarrow> None
     | Some m \<Rightarrow> let (t, m) = getMsgTypeEnum m in Some (t, modify_at a (\<lambda>_. m) pool))"

definition tryRouteToQueue :: "addr \<Rightarrow> priority \<Rightarrow> router \<Rightarrow> bool \<times> router" where
  "tryRouteToQueue message pr r = (let (ok, qs) = push_to pr message (rt_queues r) in (ok, r\<lparr>rt_queues := qs\<rparr>))"

definition recordRoutingSuccess :: "priority \<Rightarrow> uint64 \<Rightarrow> router_stats \<Rightarrow> router_stats" where
  "recordRoutingSuccess pr routing_time s =
    (let s = s\<lparr>rs_messages_routed := rs_messages_routed s + 1, rs_total_routing_time := rs_total_routing_time s + routing_time\<rparr>;
         s = (if routing_time > rs_peak_routing_time s then s\<lparr>rs_peak_routing_time := routing_time\<rparr> else s)
     in case pr of
          CRITICAL \<Rightarrow> s\<lparr>rs_critical_routed := rs_critical_routed s + 1\<rparr>
        | HIGH \<Rightarrow> s\<lparr>rs_high_routed := rs_high_routed s + 1\<rparr>
        | MEDIUM \<Rightarrow> s\<lparr>rs_medium_routed := rs_medium_routed s + 1\<rparr>
        | LOW \<Rightarrow> s\<lparr>rs_low_routed := rs_low_routed s + 1\<rparr>)"

definition recordRoutingFailure :: "priority \<Rightarrow> router_stats \<Rightarrow> router_stats" where
  "recordRoutingFailure pr s =
    (let s = s\<lparr>rs_messages_dropped := rs_messages_dropped s + 1\<rparr>
     in case pr of
          CRITICAL \<Rightarrow> s\<lparr>rs_critical_dropped := rs_critical_dropped s + 1\<rparr>
        | HIGH \<Rightarrow> s\<lparr>rs_high_dropped := rs_high_dropped s + 1\<rparr>
        | MEDIUM \<Rightarrow> s\<lparr>rs_medium_dropped := rs_medium_dropped s + 1\<rparr>
        | LOW \<Rightarrow> s\<lparr>rs_low_dropped := rs_low_dropped s + 1\<rparr>)"

definition routeMessage :: "uint64 \<Rightarrow> addr \<Rightarrow> router \<times> fix_message pool \<Rightarrow> (router \<times> fix_message pool) option" where
  "routeMessage elapsed message st =
    (let (r, pool) = st
     in if message = 0
        then Some (r\<lparr>rt_stats := (rt_stats r)\<lparr>rs_routing_errors := rs_routing_errors (rt_stats r) + 1\<rparr>\<rparr>, pool)
        else case type_at message pool of
               None \<Rightarrow> None
             | Some (msgType, pool) \<Rightarrow>
               let pr = router_priority msgType;
                   (ok, r) = tryRouteToQueue message pr r
               in Some (r\<lparr>rt_stats := (if ok then recordRoutingSuccess pr elapsed (rt_stats r) else recordRoutingFailure pr (rt_stats r))\<rparr>, pool))"

primrec routeMessages :: "(uint64 \<times> addr) list \<Rightarrow> router \<times> fix_message pool \<Rightarrow> (router \<times> fix_message pool) option" where
  "routeMessages [] st = Some st"
| "routeMessages (m # ms) st = Option.bind (routeMessage (fst m) (snd m) st) (routeMessages ms)"

section \<open>Invariants\<close>

definition container_inv :: "queue_container \<Rightarrow> bool" where
  "container_inv qs \<longleftrightarrow> length qs = 4 \<and> (\<forall>q \<in> set qs. queue_inv q)"

definition container_open :: "queue_container \<Rightarrow> bool" where
  "container_open qs \<longleftrightarrow> (\<forall>q \<in> set qs. \<not> isShutdown q)"

text \<open>The totals are the sums over the priorities.\<close>

definition stats_balanced :: "router_stats \<Rightarrow> bool" where
  "stats_balanced s \<longleftrightarrow>
     rs_messages_routed s = rs_critical_routed s + rs_high_routed s + rs_medium_routed s + rs_low_routed s
   \<and> rs_messages_dropped s = rs_critical_dropped s + rs_high_dropped s + rs_medium_dropped s + rs_low_dropped s"

lemma index_less [simp]: "getPriorityIndex pr < 4"
  by (cases pr) simp_all

lemma index_inject [simp]: "getPriorityIndex pr = getPriorityIndex pr' \<longleftrightarrow> pr = pr'"
  by (cases pr; cases pr') simp_all

lemma container_inv_queue: "container_inv qs \<Longrightarrow> queue_inv (getQueue pr qs)"
  by (simp add: container_inv_def getQueue_def)

lemma new_container_inv: "container_inv new_container" "container_open new_container"
  by (auto simp: container_inv_def container_open_def new_container_def isShutdown_def newQueue_def intro!: queue_inv_newQueue [unfolded newQueue_def])

lemma getQueue_upd:
  "container_inv qs \<Longrightarrow> getQueue pr' (qs[getPriorityIndex pr := q]) = (if pr' = pr then q else getQueue pr' qs)"
  by (auto simp: getQueue_def container_inv_def nth_list_update)

lemma push_to_laws:
  assumes "container_inv qs"
  shows "container_inv (snd (push_to pr a qs))"
    and "container_open (snd (push_to pr a qs)) \<longleftrightarrow> container_open qs"
    and "getQueue pr' (snd (push_to pr a qs)) = (if pr' = pr then snd (push a (getQueue pr qs)) else getQueue pr' qs)"
    and "fst (push_to pr a qs) = fst (push a (getQueue pr qs))"
proof -
  have q: "queue_inv (getQueue pr qs)" using assms by (rule container_inv_queue)
  have l: "getPriorityIndex pr < length qs" using assms by (simp add: container_inv_def)
  have e: "push_to pr a qs = (fst (push a (getQueue pr qs)), qs[getPriorityIndex pr := snd (push a (getQueue pr qs))])"
    by (simp add: push_to_def split_def Let_def)
  show "container_inv (snd (push_to pr a qs))"
    using assms lq.put_inv [OF q] set_update_subset_insert [of qs] by (fastforce simp: e container_inv_def)
  have "set qs = insert (getQueue pr qs) (set (take (getPriorityIndex pr) qs) \<union> set (drop (Suc (getPriorityIndex pr)) qs))"
    using l id_take_nth_drop [of "getPriorityIndex pr" qs] by (metis getQueue_def list.simps(15) set_append Un_insert_right)
  moreover have "set (qs[getPriorityIndex pr := x]) = insert x (set (take (getPriorityIndex pr) qs) \<union> set (drop (Suc (getPriorityIndex pr)) qs))" for x
    using l by (simp add: upd_conv_take_nth_drop)
  ultimately show "container_open (snd (push_to pr a qs)) \<longleftrightarrow> container_open qs"
    using lq.put_frame(2) [OF q, of a] by (simp add: e container_open_def)
  show "getQueue pr' (snd (push_to pr a qs)) = (if pr' = pr then snd (push a (getQueue pr qs)) else getQueue pr' qs)"
    using getQueue_upd [OF assms] by (simp add: e)
  show "fst (push_to pr a qs) = fst (push a (getQueue pr qs))" by (simp add: e)
qed

section \<open>Routing\<close>

definition message_priority :: "fix_message pool \<Rightarrow> addr \<Rightarrow> priority" where
  "message_priority pool a = router_priority (fst (getMsgTypeEnum (the (pool_heap pool a))))"

lemma getMsgTypeEnum_again: "fst (getMsgTypeEnum (snd (getMsgTypeEnum m))) = fst (getMsgTypeEnum m)"
  by (auto simp: getMsgTypeEnum_def Let_def split: option.split)

lemma getMsgTypeEnum_fields: "fm_fields (snd (getMsgTypeEnum m)) = fm_fields m"
  by (auto simp: getMsgTypeEnum_def Let_def split: option.split)

text \<open>Looking at the type of a live message changes nothing but its cache.\<close>

definition same_messages :: "fix_message pool \<Rightarrow> fix_message pool \<Rightarrow> bool" where
  "same_messages p q \<longleftrightarrow> pool_inv q \<and> dom (pool_heap q) = dom (pool_heap p) \<and> p_size q = p_size p \<and> p_shutdown q = p_shutdown p
     \<and> (\<forall>a \<in> dom (pool_heap p). fm_fields (the (pool_heap q a)) = fm_fields (the (pool_heap p a))
          \<and> fst (getMsgTypeEnum (the (pool_heap q a))) = fst (getMsgTypeEnum (the (pool_heap p a))))"

lemma same_messages_refl: "pool_inv p \<Longrightarrow> same_messages p p"
  by (simp add: same_messages_def)

lemma same_messages_trans: "same_messages p q \<Longrightarrow> same_messages q r \<Longrightarrow> same_messages p r"
  by (simp add: same_messages_def)

lemma same_messages_priority: "same_messages p q \<Longrightarrow> a \<in> dom (pool_heap p) \<Longrightarrow> message_priority q a = message_priority p a"
  by (simp add: same_messages_def message_priority_def)

lemma type_at_live:
  assumes "pool_inv p" "a \<in> dom (pool_heap p)"
  obtains q where "type_at a p = Some (fst (getMsgTypeEnum (the (pool_heap p a))), q)" "same_messages p q"
proof -
  obtain m where m: "pool_heap p a = Some m" using assms(2) by auto
  let ?q = "modify_at a (\<lambda>_. snd (getMsgTypeEnum m)) p"
  note laws = modify_at_laws [OF assms(1), of a "\<lambda>_. snd (getMsgTypeEnum m)"]
  have "same_messages p ?q"
    using laws m by (auto simp: same_messages_def getMsgTypeEnum_again getMsgTypeEnum_fields split: if_splits)
  moreover have "type_at a p = Some (fst (getMsgTypeEnum (the (pool_heap p a))), ?q)"
    using m by (simp add: type_at_def split_def Let_def)
  ultimately show ?thesis by (rule that [rotated])
qed

lemma type_at_dead: "a \<notin> dom (pool_heap p) \<Longrightarrow> type_at a p = None"
  by (simp add: type_at_def domIff)

lemma balanced_success: "stats_balanced s \<Longrightarrow> stats_balanced (recordRoutingSuccess pr t s)"
  by (cases pr) (auto simp: stats_balanced_def recordRoutingSuccess_def Let_def)

lemma balanced_failure: "stats_balanced s \<Longrightarrow> stats_balanced (recordRoutingFailure pr s)"
  by (cases pr) (auto simp: stats_balanced_def recordRoutingFailure_def Let_def)

lemma record_totals:
  "rs_messages_routed (recordRoutingSuccess pr t s) = rs_messages_routed s + 1"
  "rs_messages_dropped (recordRoutingSuccess pr t s) = rs_messages_dropped s"
  "rs_routing_errors (recordRoutingSuccess pr t s) = rs_routing_errors s"
  "rs_messages_routed (recordRoutingFailure pr s) = rs_messages_routed s"
  "rs_messages_dropped (recordRoutingFailure pr s) = rs_messages_dropped s + 1"
  "rs_routing_errors (recordRoutingFailure pr s) = rs_routing_errors s"
  by (cases pr; simp add: recordRoutingSuccess_def recordRoutingFailure_def Let_def)+

definition handled :: "router \<Rightarrow> uint64" where
  "handled r = rs_messages_routed (rt_stats r) + rs_messages_dropped (rt_stats r) + rs_routing_errors (rt_stats r)"

lemma routeMessage_live:
  assumes "pool_inv pool" "a \<in> dom (pool_heap pool)" "container_inv (rt_queues r)"
  obtains r' pool' where "routeMessage t a (r, pool) = Some (r', pool')" "same_messages pool pool'"
    "container_inv (rt_queues r')" "container_open (rt_queues r') \<longleftrightarrow> container_open (rt_queues r)"
    "\<And>pr. getQueue pr (rt_queues r') = (if pr = message_priority pool a then snd (push a (getQueue pr (rt_queues r))) else getQueue pr (rt_queues r))"
    "handled r' = handled r + 1" "stats_balanced (rt_stats r) \<longrightarrow> stats_balanced (rt_stats r')"
proof -
  obtain pool' where t: "type_at a pool = Some (fst (getMsgTypeEnum (the (pool_heap pool a))), pool')" and same: "same_messages pool pool'"
    using type_at_live [OF assms(1,2)] .
  let ?pr = "message_priority pool a" and ?ty = "fst (getMsgTypeEnum (the (pool_heap pool a)))"
  have ty: "router_priority ?ty = ?pr" by (simp add: message_priority_def)
  note laws = push_to_laws [OF assms(3), where pr = ?pr and a = a]
  define r' where "r' = r\<lparr>rt_queues := snd (push_to ?pr a (rt_queues r)),
      rt_stats := (if fst (push_to ?pr a (rt_queues r)) then recordRoutingSuccess ?pr t (rt_stats r) else recordRoutingFailure ?pr (rt_stats r))\<rparr>"
  have "a \<noteq> 0" using mp.null_not_live [OF assms(1)] assms(2) by auto
  then have route: "routeMessage t a (r, pool) = Some (r', pool')"
    by (simp add: routeMessage_def t ty tryRouteToQueue_def r'_def split_def Let_def)
  show thesis
    by (rule that [OF route same]) (auto simp: r'_def laws handled_def record_totals balanced_success balanced_failure)
qed

lemma routeMessage_null:
  "routeMessage t 0 (r, pool) = Some (r\<lparr>rt_stats := (rt_stats r)\<lparr>rs_routing_errors := rs_routing_errors (rt_stats r) + 1\<rparr>\<rparr>, pool)"
  by (simp add: routeMessage_def)

abbreviation batch_for :: "fix_message pool \<Rightarrow> (uint64 \<times> addr) list \<Rightarrow> priority \<Rightarrow> addr list" where
  "batch_for pool ms pr \<equiv> filter (\<lambda>a. a \<noteq> 0 \<and> message_priority pool a = pr) (map snd ms)"

lemma routeMessages_queues:
  assumes "pool_inv pool" "\<forall>a \<in> set (map snd ms). a \<noteq> 0 \<longrightarrow> a \<in> dom (pool_heap pool)" "container_inv (rt_queues r)"
  shows "\<exists>r' pool'. routeMessages ms (r, pool) = Some (r', pool') \<and> same_messages pool pool' \<and> container_inv (rt_queues r')
    \<and> (\<forall>pr. getQueue pr (rt_queues r') = put_all push (batch_for pool ms pr) (getQueue pr (rt_queues r)))
    \<and> handled r' = handled r + of_nat (length ms) \<and> (stats_balanced (rt_stats r) \<longrightarrow> stats_balanced (rt_stats r'))"
  using assms
proof (induction ms arbitrary: r pool)
  case Nil
  then show ?case by (simp add: same_messages_refl)
next
  case (Cons m ms)
  obtain t a where m: "m = (t, a)" by (cases m)
  obtain r1 pool1 where s: "routeMessage t a (r, pool) = Some (r1, pool1)" "same_messages pool pool1" "container_inv (rt_queues r1)"
    "\<And>pr. getQueue pr (rt_queues r1) = (if a \<noteq> 0 \<and> message_priority pool a = pr then snd (push a (getQueue pr (rt_queues r))) else getQueue pr (rt_queues r))"
    "handled r1 = handled r + 1" "stats_balanced (rt_stats r) \<longrightarrow> stats_balanced (rt_stats r1)"
  proof (cases "a = 0")
    case True
    show thesis
      by (rule that [of "r\<lparr>rt_stats := (rt_stats r)\<lparr>rs_routing_errors := rs_routing_errors (rt_stats r) + 1\<rparr>\<rparr>" pool])
        (use True Cons.prems in \<open>simp_all add: routeMessage_null same_messages_refl handled_def stats_balanced_def\<close>)
  next
    case False
    then have live: "a \<in> dom (pool_heap pool)" using Cons.prems(2) by (simp add: m)
    show thesis
      by (rule routeMessage_live [OF Cons.prems(1) live Cons.prems(3), of t], rule that) (use False in auto)
  qed
  have eq: "batch_for pool1 ms pr = batch_for pool ms pr" for pr
  proof -
    have "x \<in> set (map snd ms) \<Longrightarrow> x \<noteq> 0 \<Longrightarrow> message_priority pool1 x = message_priority pool x" for x
      using Cons.prems(2) same_messages_priority [OF s(2), of x] by auto
    then show ?thesis by (intro filter_cong refl) metis
  qed
  have "pool_inv pool1" "dom (pool_heap pool1) = dom (pool_heap pool)" using s(2) by (simp_all add: same_messages_def)
  with Cons.IH [of pool1 r1, unfolded eq] Cons.prems(2) s(3) obtain r2 pool2 where
    "routeMessages ms (r1, pool1) = Some (r2, pool2)" "same_messages pool1 pool2" "container_inv (rt_queues r2)"
    "\<And>pr. getQueue pr (rt_queues r2) = put_all push (batch_for pool ms pr) (getQueue pr (rt_queues r1))"
    "handled r2 = handled r1 + of_nat (length ms)" "stats_balanced (rt_stats r1) \<longrightarrow> stats_balanced (rt_stats r2)"
    by auto
  with s show ?case
    by (intro exI [of _ r2] exI [of _ pool2]) (auto simp: m intro: same_messages_trans)
qed

text \<open>C14: Routing a batch of live or null pointers never follows a dangling pointer and puts every message into the queue of its
  priority, in order: each queue receives the messages of its priority up to its free capacity, the rest of them is dropped without being given back to the pool.
  Every element of the batch is counted once as routed, dropped or erroneous, and the totals stay the sums over the priorities.\<close>

theorem routeMessages_partition:
  assumes "pool_inv pool" "\<forall>a \<in> set (map snd ms). a \<noteq> 0 \<longrightarrow> a \<in> dom (pool_heap pool)"
    and "container_inv (rt_queues r)" "container_open (rt_queues r)" "stats_balanced (rt_stats r)"
  shows "\<exists>r' pool'. routeMessages ms (r, pool) = Some (r', pool')
    \<and> (\<forall>pr. contents (getQueue pr (rt_queues r')) = contents (getQueue pr (rt_queues r))
          @ take (usable (getQueue pr (rt_queues r)) - length (contents (getQueue pr (rt_queues r)))) (batch_for pool ms pr))
    \<and> dom (pool_heap pool') = dom (pool_heap pool)
    \<and> handled r' = handled r + of_nat (length ms) \<and> stats_balanced (rt_stats r')"
proof -
  obtain r' pool' where r: "routeMessages ms (r, pool) = Some (r', pool')" "same_messages pool pool'"
    "\<forall>pr. getQueue pr (rt_queues r') = put_all push (batch_for pool ms pr) (getQueue pr (rt_queues r))"
    "handled r' = handled r + of_nat (length ms)" "stats_balanced (rt_stats r')"
    using routeMessages_queues [OF assms(1-3)] assms(5) by auto
  have "\<not> isShutdown (getQueue pr (rt_queues r))" for pr
    using assms(3,4) by (auto simp: container_open_def container_inv_def getQueue_def)
  then show ?thesis
    using r lq.put_all_take [OF container_inv_queue [OF assms(3)]]
    by (intro exI [of _ r'] exI [of _ pool']) (simp add: same_messages_def)
qed

lemma routeMessages_partition_witness:
  "\<exists>pool a r' pool'. routeMessages [(5, a), (7, 0)] (new_router new_container, pool) = Some (r', pool')
     \<and> message_priority pool a = CRITICAL \<and> contents (getQueue CRITICAL (rt_queues r')) = [a] \<and> handled r' = 2"
proof -
  let ?m = "setField Tag_MsgType ''8'' empty_message"
  obtain p :: "fix_message pool" where p: "newPool 4096 64 3 ''pool'' = Inr p" by (simp add: newPool_def)
  have inv: "pool_inv p" "pool_heap p = Map.empty" "p_size p = 3" "\<not> p_shutdown p" using newPool_inv [OF p] by auto
  define a where "a = fst (allocate ?m p)"
  define pool where "pool = snd (allocate ?m p)"
  note laws = allocate_laws [OF inv(1), of ?m, folded a_def pool_def]
  have a: "a \<noteq> 0" using laws(4) inv by simp
  have h: "pool_heap pool a = Some ?m" using laws(6) a by simp
  have "fst (getMsgTypeEnum ?m) = EXECUTION_REPORT" by code_simp
  then have pr: "message_priority pool a = CRITICAL" using h by (simp add: message_priority_def router_priority_def)
  let ?r = "new_router new_container"
  have r: "container_inv (rt_queues ?r)" "container_open (rt_queues ?r)" "stats_balanced (rt_stats ?r)" "handled ?r = 0"
    using new_container_inv by (simp_all add: new_router_def stats_balanced_def zero_router_stats_def handled_def)
  have live: "\<forall>x \<in> set (map snd [(5::uint64, a), (7, 0)]). x \<noteq> 0 \<longrightarrow> x \<in> dom (pool_heap pool)" using h by auto
  have empty: "contents (getQueue CRITICAL (rt_queues ?r)) = []" "0 < usable (getQueue CRITICAL (rt_queues ?r))"
  proof -
    show "contents (getQueue CRITICAL (rt_queues ?r)) = []" by (simp add: getQueue_def new_router_def new_container_def)
    have "nextPowerOfTwo 2048 = 2048" by code_simp
    then show "0 < usable (getQueue CRITICAL (rt_queues ?r))" by (simp add: usable_def getQueue_def new_router_def new_container_def newQueue_def)
  qed
  from routeMessages_partition [OF laws(1) live r(1-3)] obtain r' pool' where
    "routeMessages [(5, a), (7, 0)] (?r, pool) = Some (r', pool')" "handled r' = 2"
    and c: "\<forall>pr. contents (getQueue pr (rt_queues r')) = contents (getQueue pr (rt_queues ?r))
          @ take (usable (getQueue pr (rt_queues ?r)) - length (contents (getQueue pr (rt_queues ?r)))) (batch_for pool [(5, a), (7, 0)] pr)"
    using r(4) by auto
  moreover have "contents (getQueue CRITICAL (rt_queues r')) = [a]"
    using spec [OF c, of CRITICAL] empty pr a by (simp add: take_Cons split: nat.split)
  ultimately show ?thesis using pr by blast
qed

end
