(* ===== verification/Inbound_Manager.thy ===== *)
theory Inbound_Manager
  imports Message_Router
begin

text \<open>
  \<open>InboundMessageManager\<close> (include/manager/inbound_message_manager.h, src/manager/inbound_message_manager.cpp), the base class of the
  message managers. A derived class is a record that extends \<open>inbound_manager\<close>, and the virtual functions \<open>handleMessage\<close> and
  \<open>isMessageSupported\<close> are arguments of the functions of the base class that call them. A message pointer is \<open>None\<close> when it is null
  and the message it points to otherwise; the managers only read the messages they are given. A handler is given the time; it returns \<open>None\<close> when its
  behaviour is undefined, and otherwise the exception it throws or its result, with the new state. Optional members stand for shared
  pointers that may be null. The floating point averages of the statistics, logging and the sleeping of the polling loop
  are left out.
\<close>

section \<open>State\<close>

record inbound_stats =
  st_processed :: uint64
  st_routed :: uint64
  st_processing_errors :: uint64
  st_routing_errors :: uint64
  st_last_message_time :: nat
  st_type_counts :: "FixMsgType \<Rightarrow> uint64"
  st_critical_routed :: uint64
  st_high_routed :: uint64
  st_medium_routed :: uint64
  st_low_routed :: uint64

definition zero_inbound_stats :: inbound_stats where
  "zero_inbound_stats =
    \<lparr> st_processed = 0, st_routed = 0, st_processing_errors = 0, st_routing_errors = 0, st_last_message_time = 0, st_type_counts = (\<lambda>_. 0),
      st_critical_routed = 0, st_high_routed = 0, st_medium_routed = 0, st_low_routed = 0 \<rparr>"

record inbound_manager =
  im_manager_name :: string
  im_running :: bool
  im_inbound_queue :: "addr lfq option"
  im_outbound_queues :: "queue_container option"
  im_stats :: inbound_stats
  im_processing_start_time :: nat

definition new_inbound_manager :: "string \<Rightarrow> inbound_manager" where
  "new_inbound_manager manager_name =
    \<lparr> im_manager_name = manager_name, im_running = False, im_inbound_queue = None, im_outbound_queues = None,
      im_stats = zero_inbound_stats, im_processing_start_time = 0 \<rparr>"

section \<open>Life cycle and queues\<close>

definition inbound_start :: "'a inbound_manager_scheme \<Rightarrow> 'a inbound_manager_scheme" where
  "inbound_start im =
    (if im_running im then im
     else if im_inbound_queue im = None \<or> im_outbound_queues im = None then im
     else im\<lparr>im_running := True\<rparr>)"

definition inbound_stop :: "'a inbound_manager_scheme \<Rightarrow> 'a inbound_manager_scheme" where
  "inbound_stop im = (if \<not> im_running im then im else im\<lparr>im_running := False\<rparr>)"

definition setInboundQueue :: "addr lfq option \<Rightarrow> 'a inbound_manager_scheme \<Rightarrow> 'a inbound_manager_scheme" where
  "setInboundQueue q im = im\<lparr>im_inbound_queue := q\<rparr>"

definition setOutboundQueues :: "queue_container option \<Rightarrow> 'a inbound_manager_scheme \<Rightarrow> 'a inbound_manager_scheme" where
  "setOutboundQueues qs im = im\<lparr>im_outbound_queues := qs\<rparr>"

section \<open>Routing\<close>

definition count_routed :: "priority \<Rightarrow> inbound_stats \<Rightarrow> inbound_stats" where
  "count_routed pr s =
    (let s = s\<lparr>st_routed := st_routed s + 1\<rparr>
     in case pr of
          CRITICAL \<Rightarrow> s\<lparr>st_critical_routed := st_critical_routed s + 1\<rparr>
        | HIGH \<Rightarrow> s\<lparr>st_high_routed := st_high_routed s + 1\<rparr>
        | MEDIUM \<Rightarrow> s\<lparr>st_medium_routed := st_medium_routed s + 1\<rparr>
        | LOW \<Rightarrow> s\<lparr>st_low_routed := st_low_routed s + 1\<rparr>)"

definition routeToOutbound :: "addr \<Rightarrow> priority \<Rightarrow> 'a inbound_manager_scheme \<Rightarrow> bool \<times> 'a inbound_manager_scheme" where
  "routeToOutbound message pr im =
    (case im_outbound_queues im of
       None \<Rightarrow> (False, im)
     | Some qs \<Rightarrow>
       if message = 0 then (False, im)
       else let (enqueued, qs) = push_to pr message qs;
                s = im_stats im
            in (enqueued, im\<lparr>im_outbound_queues := Some qs,
                 im_stats := (if enqueued then count_routed pr s else s\<lparr>st_routing_errors := st_routing_errors s + 1\<rparr>)\<rparr>))"

definition sendResponse :: "addr \<Rightarrow> priority \<Rightarrow> 'a inbound_manager_scheme \<Rightarrow> bool \<times> 'a inbound_manager_scheme" where
  "sendResponse response_message pr im = (if response_message = 0 then (False, im) else routeToOutbound response_message pr im)"

section \<open>Validation and classification\<close>

definition validateMessage :: "fix_message option \<Rightarrow> bool" where
  "validateMessage message =
    (case message of
       None \<Rightarrow> False
     | Some m \<Rightarrow>
       (case (getField Tag_MsgType m, getField Tag_SenderCompID m, getField Tag_TargetCompID m, getField Tag_MsgSeqNum m) of
          (Some msg_type, Some sender_comp_id, Some target_comp_id, Some seq_num) \<Rightarrow>
            if msg_type = [] \<or> sender_comp_id = [] \<or> target_comp_id = [] \<or> seq_num = [] then False
            else (case stoi seq_num of Inl e \<Rightarrow> False | Inr seq \<Rightarrow> \<not> seq \<le> 0)
        | _ \<Rightarrow> False))"

definition isSessionMessageType :: "FixMsgType \<Rightarrow> bool" where
  "isSessionMessageType t \<longleftrightarrow> t \<in> {LOGON, LOGOUT, HEARTBEAT, TEST_REQUEST, RESEND_REQUEST, SEQUENCE_RESET, REJECT}"

definition isTradingMessageType :: "FixMsgType \<Rightarrow> bool" where
  "isTradingMessageType t \<longleftrightarrow>
    t \<in> {NEW_ORDER_SINGLE, ORDER_CANCEL_REQUEST, ORDER_CANCEL_REPLACE_REQUEST, EXECUTION_REPORT, ORDER_CANCEL_REJECT, ORDER_STATUS_REQUEST}"

definition isAdminMessageType :: "FixMsgType \<Rightarrow> bool" where
  "isAdminMessageType t \<longleftrightarrow>
    t \<in> {MARKET_DATA_REQUEST, MARKET_DATA_SNAPSHOT, MARKET_DATA_INCREMENTAL_REFRESH, MARKET_DATA_REQUEST_REJECT}"

definition inbound_priority :: "FixMsgType \<Rightarrow> priority" where
  "inbound_priority t =
    (case t of
       LOGON \<Rightarrow> CRITICAL
     | LOGOUT \<Rightarrow> CRITICAL
     | HEARTBEAT \<Rightarrow> HIGH
     | TEST_REQUEST \<Rightarrow> HIGH
     | EXECUTION_REPORT \<Rightarrow> HIGH
     | ORDER_CANCEL_REJECT \<Rightarrow> HIGH
     | NEW_ORDER_SINGLE \<Rightarrow> MEDIUM
     | ORDER_CANCEL_REQUEST \<Rightarrow> MEDIUM
     | ORDER_CANCEL_REPLACE_REQUEST \<Rightarrow> MEDIUM
     | SEQUENCE_RESET \<Rightarrow> MEDIUM
     | RESEND_REQUEST \<Rightarrow> MEDIUM
     | REJECT \<Rightarrow> MEDIUM
     | _ \<Rightarrow> LOW)"

section \<open>Processing\<close>

type_synonym 's handler = "nat \<Rightarrow> fix_message \<Rightarrow> 's \<Rightarrow> ((std_exception + bool) \<times> 's) option"

definition simple_type :: "fix_message \<Rightarrow> FixMsgType" where
  "simple_type m =
    (case getField Tag_MsgType m of
       None \<Rightarrow> UNKNOWN
     | Some s \<Rightarrow>
       if s = ''A'' then LOGON
       else if s = ''5'' then LOGOUT
       else if s = ''0'' then HEARTBEAT
       else if s = ''1'' then TEST_REQUEST
       else if s = ''D'' then NEW_ORDER_SINGLE
       else if s = ''F'' then ORDER_CANCEL_REQUEST
       else UNKNOWN)"

definition inbound_updateStats :: "FixMsgType \<Rightarrow> 'a inbound_manager_scheme \<Rightarrow> 'a inbound_manager_scheme" where
  "inbound_updateStats msg_type im =
    im\<lparr>im_stats := (im_stats im)\<lparr>st_type_counts := (st_type_counts (im_stats im))(msg_type := st_type_counts (im_stats im) msg_type + 1)\<rparr>\<rparr>"

definition count_processed :: "'a inbound_manager_scheme \<Rightarrow> 'a inbound_manager_scheme" where
  "count_processed im = im\<lparr>im_stats := (im_stats im)\<lparr>st_processed := st_processed (im_stats im) + 1\<rparr>\<rparr>"

definition count_error :: "'a inbound_manager_scheme \<Rightarrow> 'a inbound_manager_scheme" where
  "count_error im = im\<lparr>im_stats := (im_stats im)\<lparr>st_processing_errors := st_processing_errors (im_stats im) + 1\<rparr>\<rparr>"

definition processMessage ::
    "nat \<Rightarrow> 'a inbound_manager_scheme handler \<Rightarrow> (fix_message \<Rightarrow> bool) \<Rightarrow> fix_message option \<Rightarrow> 'a inbound_manager_scheme
     \<Rightarrow> (bool \<times> 'a inbound_manager_scheme) option" where
  "processMessage now handleMessage isMessageSupported message im =
    (case message of
       None \<Rightarrow> Some (False, im)
     | Some m \<Rightarrow>
       let im = im\<lparr>im_stats := (im_stats im)\<lparr>st_last_message_time := now\<rparr>, im_processing_start_time := now\<rparr>;
           msg_type = simple_type m
       in if \<not> validateMessage message then Some (False, inbound_updateStats msg_type im)
          else if \<not> isMessageSupported m then Some (False, inbound_updateStats msg_type im)
          else case handleMessage now m im of
                 None \<Rightarrow> None
               | Some (Inr True, im) \<Rightarrow> Some (True, inbound_updateStats msg_type (count_processed im))
               | Some (_, im) \<Rightarrow> Some (False, inbound_updateStats msg_type (count_error im)))"

text \<open>One pass of the polling loop, and the loop for as many passes as there are times in the list. Popped pointers are followed
  in the memory \<open>deref\<close>.\<close>

definition poll_once ::
    "(addr \<rightharpoonup> fix_message) \<Rightarrow> 'a inbound_manager_scheme handler \<Rightarrow> (fix_message \<Rightarrow> bool) \<Rightarrow> nat \<Rightarrow> 'a inbound_manager_scheme
     \<Rightarrow> 'a inbound_manager_scheme option" where
  "poll_once deref handleMessage isMessageSupported now im =
    (case im_inbound_queue im of
       None \<Rightarrow> None
     | Some q \<Rightarrow>
       let (popped, message, q) = tryPop 0 q;
           im = im\<lparr>im_inbound_queue := Some q\<rparr>
       in if \<not> popped then Some im
          else if message = 0 then Some im
          else case deref message of
                 None \<Rightarrow> None
               | Some m \<Rightarrow> map_option snd (processMessage now handleMessage isMessageSupported (Some m) im))"

primrec poll_loop ::
    "(addr \<rightharpoonup> fix_message) \<Rightarrow> 'a inbound_manager_scheme handler \<Rightarrow> (fix_message \<Rightarrow> bool) \<Rightarrow> nat list \<Rightarrow> 'a inbound_manager_scheme
     \<Rightarrow> 'a inbound_manager_scheme option" where
  "poll_loop deref handleMessage isMessageSupported [] im = Some im"
| "poll_loop deref handleMessage isMessageSupported (now # nows) im =
    (if im_running im
     then Option.bind (poll_once deref handleMessage isMessageSupported now im) (poll_loop deref handleMessage isMessageSupported nows)
     else Some im)"

definition processMessages ::
    "(addr \<rightharpoonup> fix_message) \<Rightarrow> 'a inbound_manager_scheme handler \<Rightarrow> (fix_message \<Rightarrow> bool) \<Rightarrow> nat list \<Rightarrow> 'a inbound_manager_scheme
     \<Rightarrow> 'a inbound_manager_scheme option" where
  "processMessages deref handleMessage isMessageSupported nows im =
    (if \<not> im_running im \<or> im_inbound_queue im = None then Some im else poll_loop deref handleMessage isMessageSupported nows im)"

section \<open>What the base class guarantees for a well-behaved handler\<close>

text \<open>The members of the base class that a handler leaves alone.\<close>

definition base_kept :: "'a inbound_manager_scheme \<Rightarrow> 'a inbound_manager_scheme \<Rightarrow> bool" where
  "base_kept im im' \<longleftrightarrow> im_running im' = im_running im \<and> im_inbound_queue im' = im_inbound_queue im
     \<and> st_processed (im_stats im') = st_processed (im_stats im) \<and> st_processing_errors (im_stats im') = st_processing_errors (im_stats im)
     \<and> st_type_counts (im_stats im') = st_type_counts (im_stats im)"

lemma base_kept_refl [simp]: "base_kept im im"
  by (simp add: base_kept_def)

lemma base_kept_trans: "base_kept im im' \<Longrightarrow> base_kept im' im'' \<Longrightarrow> base_kept im im''"
  by (simp add: base_kept_def)

definition verdicts :: "'a inbound_manager_scheme \<Rightarrow> uint64" where
  "verdicts im = st_processed (im_stats im) + st_processing_errors (im_stats im)"

definition type_count :: "FixMsgType \<Rightarrow> 'a inbound_manager_scheme \<Rightarrow> uint64" where
  "type_count t im = st_type_counts (im_stats im) t"

locale message_handler =
  fixes handle :: "'a inbound_manager_scheme handler"
    and supported :: "fix_message \<Rightarrow> bool"
    and good :: "'a inbound_manager_scheme \<Rightarrow> bool"
    and tame :: "fix_message \<Rightarrow> bool"
  assumes good_stats: "good (im\<lparr>im_stats := s\<rparr>) \<longleftrightarrow> good im"
    and good_start_time: "good (im\<lparr>im_processing_start_time := t\<rparr>) \<longleftrightarrow> good im"
    and good_queue: "good (im\<lparr>im_inbound_queue := q\<rparr>) \<longleftrightarrow> good im"
    and handle_total: "good im \<Longrightarrow> tame m \<Longrightarrow> \<exists>r im'. handle now m im = Some (r, im') \<and> good im' \<and> base_kept im im'"
begin

lemma processMessage_counts:
  assumes "good im" "tame m"
  obtains r im' where "processMessage now handle supported (Some m) im = Some (r, im')" "good im'"
    "im_running im' = im_running im" "im_inbound_queue im' = im_inbound_queue im"
    "verdicts im' = verdicts im + (if validateMessage (Some m) \<and> supported m then 1 else 0)"
    "type_count t im' = type_count t im + (if simple_type m = t then 1 else 0)"
proof -
  let ?im = "im\<lparr>im_stats := (im_stats im)\<lparr>st_last_message_time := now\<rparr>, im_processing_start_time := now\<rparr>"
  have g: "good ?im" using assms(1) good_stats good_start_time by blast
  obtain r im' where h: "handle now m ?im = Some (r, im')" "good im'" "base_kept ?im im'" using handle_total [OF g assms(2)] by blast
  note defs = verdicts_def type_count_def inbound_updateStats_def count_processed_def count_error_def
  show thesis
  proof (cases "validateMessage (Some m) \<and> supported m")
    case False
    then show ?thesis
      by (intro that [of False "inbound_updateStats (simple_type m) ?im"]) (use assms(1) in \<open>auto simp: processMessage_def Let_def defs good_stats good_start_time\<close>)
  next
    case True
    show ?thesis
    proof (cases "r = Inr True")
      case r: True
      show ?thesis
        by (rule that [of True "inbound_updateStats (simple_type m) (count_processed im')"])
          (use True h in \<open>auto simp: processMessage_def Let_def defs good_stats base_kept_def r\<close>)
    next
      case r: False
      have "processMessage now handle supported (Some m) im = Some (False, inbound_updateStats (simple_type m) (count_error im'))"
        using True h(1) r by (auto simp: processMessage_def Let_def split: sum.split bool.split)
      then show ?thesis
        by (rule that) (use True h in \<open>auto simp: defs good_stats base_kept_def\<close>)
    qed
  qed
qed

lemma poll_loop_counts:
  assumes "good im" "im_running im" "im_inbound_queue im = Some q" "queue_inv q" "\<not> isShutdown q" "0 \<notin> set (contents q)"
    "map deref (contents q) = map Some ms" "list_all tame ms" "length nows = length ms"
  shows "\<exists>im' q'. poll_loop deref handle supported nows im = Some im' \<and> good im' \<and> im_inbound_queue im' = Some q' \<and> contents q' = []
    \<and> verdicts im' = verdicts im + of_nat (length (filter (\<lambda>m. validateMessage (Some m) \<and> supported m) ms))
    \<and> type_count t im' = type_count t im + of_nat (length (filter (\<lambda>m. simple_type m = t) ms))"
  using assms
proof (induction nows arbitrary: im q ms)
  case Nil
  then show ?case by simp
next
  case (Cons now nows)
  then obtain m ms' where ms: "ms = m # ms'" by (cases ms) auto
  then obtain a as where c: "contents q = a # as" using Cons.prems(7) by (cases "contents q") auto
  obtain ok x q1 where t: "tryPop 0 q = (ok, x, q1)" by (cases "tryPop 0 q")
  have q: "tryPop 0 q = (True, a, q1)" "contents q1 = as" "queue_inv q1" "\<not> isShutdown q1"
    using lq.get_laws [OF Cons.prems(4), of 0, unfolded t fst_conv snd_conv] Cons.prems(5) c by (auto simp: t split: if_splits)
  let ?im = "im\<lparr>im_inbound_queue := Some q1\<rparr>"
  have g: "good ?im" "tame m" using Cons.prems(1,8) good_queue ms by auto
  obtain r im1 where p: "processMessage now handle supported (Some m) ?im = Some (r, im1)" "good im1"
    "im_running im1 = im_running im" "im_inbound_queue im1 = Some q1"
    "verdicts im1 = verdicts im + (if validateMessage (Some m) \<and> supported m then 1 else 0)"
    "type_count t im1 = type_count t im + (if simple_type m = t then 1 else 0)"
    by (rule processMessage_counts [OF g, where t = t]) (simp add: verdicts_def type_count_def)
  have "poll_once deref handle supported now im = Some im1"
    using Cons.prems(3,6,7) p(1) c ms by (simp add: poll_once_def q(1))
  moreover obtain im' q' where "poll_loop deref handle supported nows im1 = Some im'" "good im'" "im_inbound_queue im' = Some q'" "contents q' = []"
    "verdicts im' = verdicts im1 + of_nat (length (filter (\<lambda>m. validateMessage (Some m) \<and> supported m) ms'))"
    "type_count t im' = type_count t im1 + of_nat (length (filter (\<lambda>m. simple_type m = t) ms'))"
    using Cons.IH [OF p(2) _ p(4) q(3,4)] Cons.prems(2,6-9) p(3) c q(2) ms by auto
  ultimately show ?case using Cons.prems(2) p(5,6) ms by simp
qed

end

end
