(* ===== verification/Gap_Manager.thy ===== *)
theory Gap_Manager
  imports Message_Router
begin

text \<open>
  \<open>SequenceNumGapManager\<close> (include/manager/sequence_num_gap_manager.h, src/manager/sequence_num_gap_manager.cpp): the queue of
  missing sequence numbers, their retries and the ResendRequest messages it emits. The record holds the objects the
  manager refers to: its gap queue, the message pool, the session context and the outbound queues. Of the polling thread the record has
  whether there is one to join; one round of its loop is \<open>processGaps\<close>, and its sleeping is not modelled. Loops that pop until the queue is empty give \<open>None\<close> when they
  do not end. Times are nanoseconds of the steady clock; the system clock is in milliseconds. Logging is left out.
\<close>

section \<open>State\<close>

record gap_entry =
  ge_seq_num :: int
  ge_timestamp :: nat
  ge_timeout_deadline :: nat
  ge_retry_count :: int
  ge_is_resolved :: bool

definition kGapQueueSize :: size_t where "kGapQueueSize = 1024"
definition kGapTimeoutNs :: nat where "kGapTimeoutNs = 10000 * 1000000"
definition kMaxRetryCount :: int where "kMaxRetryCount = 5"

definition default_entry :: gap_entry where
  "default_entry = \<lparr> ge_seq_num = 0, ge_timestamp = 0, ge_timeout_deadline = 0, ge_retry_count = 0, ge_is_resolved = False \<rparr>"

definition GapQueueEntry :: "nat \<Rightarrow> int \<Rightarrow> gap_entry" where
  "GapQueueEntry now seq =
    \<lparr> ge_seq_num = seq, ge_timestamp = now, ge_timeout_deadline = now + kGapTimeoutNs, ge_retry_count = 0, ge_is_resolved = False \<rparr>"

record session_context =
  sc_sender_comp_id :: string
  sc_target_comp_id :: string
  sc_outgoing_seq_num :: int

definition SessionContext :: "string \<Rightarrow> string \<Rightarrow> session_context" where
  "SessionContext sender tgt = \<lparr> sc_sender_comp_id = sender, sc_target_comp_id = tgt, sc_outgoing_seq_num = 1 \<rparr>"

text \<open>\<open>fetch_add\<close> on an atomic 32-bit integer wraps around.\<close>

definition wrap_int32 :: "int \<Rightarrow> int" where
  "wrap_int32 i = (i + 2 ^ 31) mod 2 ^ 32 - 2 ^ 31"

definition getNextSeqNum :: "session_context \<Rightarrow> int \<times> session_context" where
  "getNextSeqNum sc = (sc_outgoing_seq_num sc, sc\<lparr>sc_outgoing_seq_num := wrap_int32 (sc_outgoing_seq_num sc + 1)\<rparr>)"

record gap_manager =
  gm_is_running :: bool
  gm_thread_joinable :: bool
  gm_gap_queue :: "gap_entry lfq"
  gm_message_pool :: "fix_message pool"
  gm_session_context :: session_context
  gm_outbound_queues :: queue_container

definition new_gap_manager :: "fix_message pool \<Rightarrow> session_context \<Rightarrow> queue_container \<Rightarrow> gap_manager" where
  "new_gap_manager pool sc outq =
    \<lparr> gm_is_running = False, gm_thread_joinable = False, gm_gap_queue = newQueue default_entry kGapQueueSize ''gap_queue'',
      gm_message_pool = pool, gm_session_context = sc, gm_outbound_queues = outq \<rparr>"

text \<open>Assigning to a thread object that is still joinable ends the program, which is \<open>None\<close>.\<close>

definition gap_start :: "gap_manager \<Rightarrow> gap_manager option" where
  "gap_start gm =
    (let gm = gm\<lparr>gm_is_running := True\<rparr>
     in if gm_thread_joinable gm then None else Some (gm\<lparr>gm_thread_joinable := True\<rparr>))"

definition gap_stop :: "gap_manager \<Rightarrow> gap_manager" where
  "gap_stop gm = gm\<lparr>gm_is_running := False, gm_thread_joinable := False\<rparr>"

section \<open>Bookkeeping of gaps\<close>

definition pending_gap :: "int \<Rightarrow> gap_entry \<Rightarrow> bool" where
  "pending_gap seq e \<longleftrightarrow> ge_seq_num e = seq \<and> \<not> ge_is_resolved e"

definition hasGap :: "int \<Rightarrow> gap_manager \<Rightarrow> (bool \<times> gap_manager) option" where
  "hasGap seq gm = do {
     (temp_entries, q) \<leftarrow> drain (tryPop default_entry) (gm_gap_queue gm);
     Some (list_ex (pending_gap seq) temp_entries, gm\<lparr>gm_gap_queue := put_all push temp_entries q\<rparr>) }"

definition addGapEntry :: "nat \<Rightarrow> int \<Rightarrow> gap_manager \<Rightarrow> gap_manager option" where
  "addGapEntry now seq gm = do {
     (has, gm) \<leftarrow> hasGap seq gm;
     if has then Some gm
     else Some (gm\<lparr>gm_gap_queue := snd (push (GapQueueEntry now seq) (gm_gap_queue gm))\<rparr>) }"

definition resolveGapEntry :: "int \<Rightarrow> gap_manager \<Rightarrow> (bool \<times> gap_manager) option" where
  "resolveGapEntry seq gm = do {
     (temp_entries, found, q) \<leftarrow> drain_until (pending_gap seq) (tryPop default_entry) (gm_gap_queue gm);
     Some (found \<noteq> None, gm\<lparr>gm_gap_queue := put_all push temp_entries q\<rparr>) }"

text \<open>The entries popped in front of the wanted one are not put back. \<open>retry_count++\<close> is signed arithmetic; the count never leaves [0, 5] otherwise.\<close>

definition escalateGapEntry :: "int \<Rightarrow> gap_manager \<Rightarrow> gap_manager option" where
  "escalateGapEntry seq gm = do {
     (lost, found, q) \<leftarrow> drain_until (\<lambda>e. ge_seq_num e = seq) (tryPop default_entry) (gm_gap_queue gm);
     case found of
       None \<Rightarrow> Some (gm\<lparr>gm_gap_queue := q\<rparr>)
     | Some e \<Rightarrow> Some (gm\<lparr>gm_gap_queue := snd (push (e\<lparr>ge_retry_count := ge_retry_count e + 1\<rparr>) q)\<rparr>) }"

definition getGapCount :: "gap_manager \<Rightarrow> size_t" where
  "getGapCount gm = queue_size (gm_gap_queue gm)"

definition getQueueDepth :: "gap_manager \<Rightarrow> size_t" where
  "getQueueDepth gm = queue_size (gm_gap_queue gm)"

partial_function (option) clear_loop :: "gap_entry lfq \<Rightarrow> gap_entry lfq option" where
  "clear_loop q = (if \<not> queue_empty q then clear_loop (snd (snd (tryPop default_entry q))) else Some q)"

definition clearAllGaps :: "gap_manager \<Rightarrow> gap_manager option" where
  "clearAllGaps gm = do { q \<leftarrow> clear_loop (gm_gap_queue gm); Some (gm\<lparr>gm_gap_queue := q\<rparr>) }"

section \<open>Retries\<close>

definition isTimeout :: "nat \<Rightarrow> gap_entry \<Rightarrow> bool" where
  "isTimeout now e \<longleftrightarrow> now > ge_timeout_deadline e"

definition resend_request :: "nat \<Rightarrow> session_context \<Rightarrow> int \<Rightarrow> int \<Rightarrow> fix_message \<Rightarrow> fix_message" where
  "resend_request sysnow sc seq n msg =
    updateLengthAndChecksum (setSendingTime sysnow (setField_int Tag_MsgSeqNum n (setField Tag_TargetCompID (sc_target_comp_id sc)
      (setField Tag_SenderCompID (sc_sender_comp_id sc) (setField_int Tag_EndSeqNo seq (setField_int Tag_BeginSeqNo seq
        (setField Tag_MsgType MsgTypes_ResendRequest msg)))))))"

definition sendResendRequest :: "nat \<Rightarrow> int \<Rightarrow> gap_manager \<Rightarrow> gap_manager" where
  "sendResendRequest sysnow seq gm =
    (let (msg, pool) = allocate (new_FixMessage sysnow) (gm_message_pool gm)
     in if msg = 0 then gm\<lparr>gm_message_pool := pool\<rparr>
        else let (n, sc) = getNextSeqNum (gm_session_context gm);
                 pool = modify_at msg (resend_request sysnow (gm_session_context gm) seq n) pool;
                 (ok, outq) = push_to CRITICAL msg (gm_outbound_queues gm);
                 gm = gm\<lparr>gm_session_context := sc, gm_outbound_queues := outq\<rparr>
             in if \<not> ok then gm\<lparr>gm_message_pool := deallocate msg pool\<rparr>
                else gm\<lparr>gm_message_pool := pool\<rparr>)"

text \<open>What one popped entry leads to: the entry to put back, if any.\<close>

definition process_entry :: "nat \<Rightarrow> nat \<Rightarrow> gap_entry \<Rightarrow> gap_manager \<Rightarrow> gap_entry list \<times> gap_manager" where
  "process_entry now sysnow e gm =
    (if ge_is_resolved e then ([], gm)
     else if isTimeout now e then
       if ge_retry_count e < kMaxRetryCount
       then ([e\<lparr>ge_retry_count := ge_retry_count e + 1, ge_timeout_deadline := now + kGapTimeoutNs\<rparr>], sendResendRequest sysnow (ge_seq_num e) gm)
       else ([], gm)
     else ([e], gm))"

partial_function (option) process_loop :: "nat \<Rightarrow> nat \<Rightarrow> gap_manager \<Rightarrow> (gap_entry list \<times> gap_manager) option" where
  "process_loop now sysnow gm =
    (case tryPop default_entry (gm_gap_queue gm) of
       (ok, e, q) \<Rightarrow>
         if ok then do {
           let (keep, gm) = process_entry now sysnow e (gm\<lparr>gm_gap_queue := q\<rparr>);
           (rest, gm) \<leftarrow> process_loop now sysnow gm;
           Some (keep @ rest, gm) }
         else Some ([], gm\<lparr>gm_gap_queue := q\<rparr>))"

definition processGaps :: "nat \<Rightarrow> nat \<Rightarrow> gap_manager \<Rightarrow> gap_manager option" where
  "processGaps now sysnow gm = do {
     (entries_to_requeue, gm) \<leftarrow> process_loop now sysnow gm;
     Some (gm\<lparr>gm_gap_queue := put_all push entries_to_requeue (gm_gap_queue gm)\<rparr>) }"

section \<open>Invariant and abstraction\<close>

definition gap_inv :: "gap_manager \<Rightarrow> bool" where
  "gap_inv gm \<longleftrightarrow> queue_inv (gm_gap_queue gm) \<and> \<not> isShutdown (gm_gap_queue gm)"

abbreviation entries :: "gap_manager \<Rightarrow> gap_entry list" where
  "entries gm \<equiv> contents (gm_gap_queue gm)"

abbreviation gap_room :: "gap_manager \<Rightarrow> nat" where
  "gap_room gm \<equiv> usable (gm_gap_queue gm)"

definition tracked :: "gap_manager \<Rightarrow> int set" where
  "tracked gm = ge_seq_num ` set (filter (\<lambda>e. \<not> ge_is_resolved e) (entries gm))"

text \<open>Operations that only exchange the content of the gap queue.\<close>

definition requeued :: "gap_entry list \<Rightarrow> gap_manager \<Rightarrow> gap_manager \<Rightarrow> bool" where
  "requeued es gm gm' \<longleftrightarrow> gap_inv gm' \<and> gap_room gm' = gap_room gm \<and> entries gm' = es
     \<and> gm'\<lparr>gm_gap_queue := gm_gap_queue gm\<rparr> = gm"

lemma requeuedI:
  assumes "queue_inv q" "\<not> isShutdown q" "usable q = gap_room gm" "contents q = es"
  shows "requeued es gm (gm\<lparr>gm_gap_queue := q\<rparr>)"
  using assms by (simp add: requeued_def gap_inv_def)

lemma requeued_put_all:
  assumes "queue_inv q" "\<not> isShutdown q" "usable q = gap_room gm" "length (contents q) + length es \<le> gap_room gm"
  shows "requeued (contents q @ es) gm (gm\<lparr>gm_gap_queue := put_all push es q\<rparr>)"
  using assms lq.put_all_frame [OF assms(1), of es] lq.put_all_cont [OF assms(1,2), of es] by (intro requeuedI) simp_all

lemma entries_bound: "gap_inv gm \<Longrightarrow> length (entries gm) \<le> gap_room gm"
  by (simp add: gap_inv_def lq.cont_bound)

lemma hasGap_spec:
  assumes "gap_inv gm"
  shows "\<exists>gm'. hasGap seq gm = Some (seq \<in> tracked gm, gm') \<and> requeued (entries gm) gm gm'"
proof -
  obtain q where q: "drain (tryPop default_entry) (gm_gap_queue gm) = Some (entries gm, q)" "queue_inv q" "contents q = []"
    "usable q = gap_room gm" "\<not> isShutdown q"
    using lq.drain_open [of "gm_gap_queue gm" default_entry] assms by (auto simp: gap_inv_def)
  have "list_ex (pending_gap seq) (entries gm) \<longleftrightarrow> seq \<in> tracked gm"
    by (auto simp: list_ex_iff tracked_def pending_gap_def)
  with q entries_bound [OF assms] requeued_put_all [of q gm "entries gm"] show ?thesis
    by (simp add: hasGap_def)
qed

lemma addGapEntry_spec:
  assumes "gap_inv gm" "length (entries gm) < gap_room gm"
  shows "\<exists>gm'. addGapEntry now seq gm = Some gm'
    \<and> requeued (entries gm @ (if seq \<in> tracked gm then [] else [GapQueueEntry now seq])) gm gm'"
proof -
  obtain gm1 where g: "hasGap seq gm = Some (seq \<in> tracked gm, gm1)" "requeued (entries gm) gm gm1"
    using hasGap_spec [OF assms(1)] by blast
  let ?q = "gm_gap_queue gm1"
  have q: "queue_inv ?q" "\<not> isShutdown ?q" "usable ?q = gap_room gm" "contents ?q = entries gm"
    using g(2) by (simp_all add: requeued_def gap_inv_def)
  have same: "gm1\<lparr>gm_gap_queue := x\<rparr> = gm\<lparr>gm_gap_queue := x\<rparr>" for x
    using g(2) by (cases gm; cases gm1) (simp add: requeued_def)
  show ?thesis
    using g q assms(2) lq.put_laws [OF q(1), of "GapQueueEntry now seq"]
    by (auto simp: addGapEntry_def same intro!: requeuedI)
qed

lemma find_split:
  assumes "List.find P xs = Some y"
  shows "xs = takeWhile (\<lambda>x. \<not> P x) xs @ y # drop (Suc (length (takeWhile (\<lambda>x. \<not> P x) xs))) xs \<and> P y"
  using assms by (induction xs) (auto split: if_splits)

lemma find_none: "List.find P xs = None \<Longrightarrow> takeWhile (\<lambda>x. \<not> P x) xs = xs"
  by (induction xs) (auto split: if_splits)

lemma drain_until_entries:
  assumes "gap_inv gm"
  obtains q where "queue_inv q" "\<not> isShutdown q" "usable q = gap_room gm"
    "drain_until P (tryPop default_entry) (gm_gap_queue gm) = Some (takeWhile (\<lambda>x. \<not> P x) (entries gm), List.find P (entries gm), q)"
    "contents q = drop (Suc (length (takeWhile (\<lambda>x. \<not> P x) (entries gm)))) (entries gm)"
  using lq.drain_until_open [of "gm_gap_queue gm" P default_entry] assms by (auto simp: gap_inv_def)

text \<open>Resolving a gap takes it out of the queue and moves the entries in front of it to the back.\<close>

lemma resolveGapEntry_spec:
  assumes "gap_inv gm"
  shows "\<exists>gm'. resolveGapEntry seq gm = Some (seq \<in> tracked gm, gm')
    \<and> requeued (drop (Suc (length (takeWhile (\<lambda>x. \<not> pending_gap seq x) (entries gm)))) (entries gm)
          @ takeWhile (\<lambda>x. \<not> pending_gap seq x) (entries gm)) gm gm'"
proof -
  let ?t = "takeWhile (\<lambda>x. \<not> pending_gap seq x) (entries gm)"
  obtain q where q: "queue_inv q" "\<not> isShutdown q" "usable q = gap_room gm"
    "drain_until (pending_gap seq) (tryPop default_entry) (gm_gap_queue gm) = Some (?t, List.find (pending_gap seq) (entries gm), q)"
    "contents q = drop (Suc (length ?t)) (entries gm)"
    by (rule drain_until_entries [OF assms])
  have len: "length (contents q) + length ?t \<le> gap_room gm"
    using entries_bound [OF assms] length_takeWhile_le [of "\<lambda>x. \<not> pending_gap seq x" "entries gm"] by (simp add: q(5))
  have "List.find (pending_gap seq) (entries gm) \<noteq> None \<longleftrightarrow> seq \<in> tracked gm"
    by (auto simp: tracked_def pending_gap_def find_None_iff)
  with q requeued_put_all [OF q(1-3) len] show ?thesis by (simp add: resolveGapEntry_def)
qed

definition gaps_distinct :: "gap_manager \<Rightarrow> bool" where
  "gaps_distinct gm \<longleftrightarrow> distinct (map ge_seq_num (filter (\<lambda>e. \<not> ge_is_resolved e) (entries gm)))"

lemma resolve_tracked:
  assumes "gap_inv gm" "gaps_distinct gm"
  shows "\<exists>gm'. resolveGapEntry seq gm = Some (seq \<in> tracked gm, gm') \<and> gap_inv gm' \<and> gaps_distinct gm' \<and> gap_room gm' = gap_room gm
    \<and> tracked gm' = tracked gm - {seq} \<and> length (entries gm') \<le> length (entries gm)"
proof -
  let ?P = "pending_gap seq"
  let ?t = "takeWhile (\<lambda>x. \<not> ?P x) (entries gm)" and ?d = "drop (Suc (length (takeWhile (\<lambda>x. \<not> ?P x) (entries gm)))) (entries gm)"
  obtain gm' where g: "resolveGapEntry seq gm = Some (seq \<in> tracked gm, gm')" "requeued (?d @ ?t) gm gm'"
    using resolveGapEntry_spec [OF assms(1)] by blast
  then have e: "gap_inv gm'" "entries gm' = ?d @ ?t" "gap_room gm' = gap_room gm" by (simp_all add: requeued_def)
  show ?thesis
  proof (cases "List.find ?P (entries gm)")
    case None
    then have all: "?t = entries gm" by (rule find_none)
    then have "?d = []" by (simp only: drop_all le_SucI order.refl)
    moreover have "seq \<notin> tracked gm" using None by (auto simp: tracked_def pending_gap_def find_None_iff)
    moreover have "entries gm' = entries gm" using e(2) all by simp
    ultimately show ?thesis using g(1) e(1,3) assms(2) by (simp add: tracked_def gaps_distinct_def)
  next
    case (Some y)
    from find_split [OF this] have split: "entries gm = ?t @ y # ?d" and y: "?P y" by auto
    let ?u = "filter (\<lambda>e. \<not> ge_is_resolved e)"
    have u: "?u (entries gm) = ?u ?t @ y # ?u ?d" using y by (subst split) (simp add: pending_gap_def)
    with assms(2) have dist: "distinct (map ge_seq_num (?u ?t @ ?u ?d))" and new: "seq \<notin> ge_seq_num ` set (?u ?t @ ?u ?d)"
      using y by (auto simp: gaps_distinct_def pending_gap_def)
    have "tracked gm' = ge_seq_num ` set (?u ?t @ ?u ?d)" by (auto simp: tracked_def e(2))
    moreover have "tracked gm = insert seq (ge_seq_num ` set (?u ?t @ ?u ?d))"
    proof -
      show ?thesis using y unfolding tracked_def u by (auto simp: pending_gap_def)
    qed
    ultimately have "tracked gm' = tracked gm - {seq}" using new by auto
    moreover have "gaps_distinct gm'" using dist by (auto simp: gaps_distinct_def e(2))
    moreover have "length (entries gm') \<le> length (entries gm)"
    proof -
      have "length (entries gm) = length (?t @ y # ?d)" using split by (rule arg_cong)
      then show ?thesis unfolding e(2) length_append list.size by linarith
    qed
    ultimately show ?thesis using g(1) e by blast
  qed
qed

lemma add_tracked:
  assumes "gap_inv gm" "gaps_distinct gm" "length (entries gm) < gap_room gm"
  shows "\<exists>gm'. addGapEntry now seq gm = Some gm' \<and> gap_inv gm' \<and> gaps_distinct gm' \<and> gap_room gm' = gap_room gm
    \<and> tracked gm' = insert seq (tracked gm) \<and> length (entries gm') \<le> Suc (length (entries gm))"
proof -
  obtain gm' where g: "addGapEntry now seq gm = Some gm'"
    "requeued (entries gm @ (if seq \<in> tracked gm then [] else [GapQueueEntry now seq])) gm gm'"
    using addGapEntry_spec [OF assms(1,3)] by blast
  have "ge_seq_num (GapQueueEntry now seq) = seq" "\<not> ge_is_resolved (GapQueueEntry now seq)" by (simp_all add: GapQueueEntry_def)
  then show ?thesis
    using g assms(2) by (intro exI [of _ gm']) (auto simp: requeued_def tracked_def gaps_distinct_def split: if_splits)
qed

lemma new_gap_manager_inv:
  "gap_inv (new_gap_manager pool sc outq)" "entries (new_gap_manager pool sc outq) = []" "gap_room (new_gap_manager pool sc outq) = 1023"
proof -
  have p: "nextPowerOfTwo 1024 = 1024" by code_simp
  show "gap_inv (new_gap_manager pool sc outq)"
    using queue_inv_newQueue [of kGapQueueSize default_entry "''gap_queue''"]
    by (simp add: gap_inv_def new_gap_manager_def kGapQueueSize_def isShutdown_def) (simp add: newQueue_def)
  show "entries (new_gap_manager pool sc outq) = []" by (simp add: new_gap_manager_def)
  show "gap_room (new_gap_manager pool sc outq) = 1023"
    by (simp add: new_gap_manager_def usable_def newQueue_def kGapQueueSize_def p)
qed

section \<open>Tracking gaps\<close>

datatype gap_op = Add_Gap nat int | Resolve_Gap int | Has_Gap int

fun run_gap :: "gap_op list \<Rightarrow> gap_manager \<Rightarrow> (bool list \<times> gap_manager) option" where
  "run_gap [] gm = Some ([], gm)"
| "run_gap (Add_Gap now seq # ops) gm = do { gm \<leftarrow> addGapEntry now seq gm; run_gap ops gm }"
| "run_gap (Resolve_Gap seq # ops) gm = do { (b, gm) \<leftarrow> resolveGapEntry seq gm; (bs, gm) \<leftarrow> run_gap ops gm; Some (b # bs, gm) }"
| "run_gap (Has_Gap seq # ops) gm = do { (b, gm) \<leftarrow> hasGap seq gm; (bs, gm) \<leftarrow> run_gap ops gm; Some (b # bs, gm) }"

fun spec_gap :: "gap_op list \<Rightarrow> int set \<Rightarrow> bool list \<times> int set" where
  "spec_gap [] T = ([], T)"
| "spec_gap (Add_Gap now seq # ops) T = spec_gap ops (insert seq T)"
| "spec_gap (Resolve_Gap seq # ops) T = (let (bs, T') = spec_gap ops (T - {seq}) in ((seq \<in> T) # bs, T'))"
| "spec_gap (Has_Gap seq # ops) T = (let (bs, T') = spec_gap ops T in ((seq \<in> T) # bs, T'))"

lemma run_gap_refines:
  assumes "gap_inv gm" "gaps_distinct gm" "length (entries gm) + length ops \<le> gap_room gm"
  shows "\<exists>gm'. run_gap ops gm = Some (fst (spec_gap ops (tracked gm)), gm') \<and> gap_inv gm' \<and> gaps_distinct gm'
    \<and> tracked gm' = snd (spec_gap ops (tracked gm))"
  using assms
proof (induction ops gm rule: run_gap.induct)
  case (1 gm)
  then show ?case by simp
next
  case (2 now seq ops gm)
  then obtain gm1 where "addGapEntry now seq gm = Some gm1" "gap_inv gm1" "gaps_distinct gm1" "gap_room gm1 = gap_room gm"
    "tracked gm1 = insert seq (tracked gm)" "length (entries gm1) \<le> Suc (length (entries gm))"
    using add_tracked [of gm now seq] by auto
  with 2 show ?case by simp
next
  case (3 seq ops gm)
  then obtain gm1 where "resolveGapEntry seq gm = Some (seq \<in> tracked gm, gm1)" "gap_inv gm1" "gaps_distinct gm1" "gap_room gm1 = gap_room gm"
    "tracked gm1 = tracked gm - {seq}" "length (entries gm1) \<le> length (entries gm)"
    using resolve_tracked [of gm seq] by auto
  with 3 show ?case by (fastforce simp: split_def Let_def)
next
  case (4 seq ops gm)
  then obtain gm1 where g: "hasGap seq gm = Some (seq \<in> tracked gm, gm1)" "requeued (entries gm) gm gm1"
    using hasGap_spec [of gm seq] by auto
  then have "gap_inv gm1" "entries gm1 = entries gm" "gap_room gm1 = gap_room gm" by (simp_all add: requeued_def)
  moreover from this have "gaps_distinct gm1" "tracked gm1 = tracked gm" using 4 by (simp_all add: gaps_distinct_def tracked_def)
  ultimately show ?case using 4 g(1) by (fastforce simp: split_def Let_def)
qed

text \<open>C15: As long as the gap queue cannot overflow, any sequence of \<open>addGapEntry\<close>, \<open>resolveGapEntry\<close> and \<open>hasGap\<close> on a new manager terminates and
  behaves like a set of missing sequence numbers: adding inserts, resolving removes and reports membership, and asking
  reports membership without changing the set.\<close>

theorem gap_set_refinement:
  assumes "length ops \<le> 1023"
  shows "\<exists>gm. run_gap ops (new_gap_manager pool sc outq) = Some (fst (spec_gap ops {}), gm)
    \<and> tracked gm = snd (spec_gap ops {}) \<and> gaps_distinct gm"
proof -
  have "tracked (new_gap_manager pool sc outq) = {}" "gaps_distinct (new_gap_manager pool sc outq)"
    using new_gap_manager_inv(2) [of pool sc outq] by (simp_all add: tracked_def gaps_distinct_def)
  with run_gap_refines [OF new_gap_manager_inv(1), of pool sc outq ops] new_gap_manager_inv(2,3) [of pool sc outq] assms
  show ?thesis by auto
qed

lemma gap_set_refinement_witness:
  "\<exists>gm. run_gap [Add_Gap 5 3, Add_Gap 6 4, Has_Gap 3, Resolve_Gap 3, Has_Gap 3, Add_Gap 7 4]
      (new_gap_manager undefined (SessionContext ''A'' ''B'') []) = Some ([True, True, False], gm) \<and> tracked gm = {4}"
  using gap_set_refinement [of "[Add_Gap 5 3, Add_Gap 6 4, Has_Gap 3, Resolve_Gap 3, Has_Gap 3, Add_Gap 7 4]" undefined "SessionContext ''A'' ''B''" "[]"]
  by auto

text \<open>\<open>escalateGapEntry\<close> loses gaps: every entry in front of the escalated one disappears, and when the sequence number is not queued all
  entries do.\<close>

lemma escalate_loses_gaps:
  assumes "gap_inv gm"
  shows "\<exists>gm'. escalateGapEntry seq gm = Some gm' \<and> gap_inv gm'
    \<and> entries gm' = (case List.find (\<lambda>e. ge_seq_num e = seq) (entries gm) of
         None \<Rightarrow> []
       | Some e \<Rightarrow> drop (Suc (length (takeWhile (\<lambda>e. ge_seq_num e \<noteq> seq) (entries gm)))) (entries gm)
                    @ [e\<lparr>ge_retry_count := ge_retry_count e + 1\<rparr>])"
proof -
  let ?P = "\<lambda>e. ge_seq_num e = seq"
  let ?t = "takeWhile (\<lambda>e. \<not> ?P e) (entries gm)"
  obtain q where q: "queue_inv q" "\<not> isShutdown q" "usable q = gap_room gm"
    "drain_until ?P (tryPop default_entry) (gm_gap_queue gm) = Some (?t, List.find ?P (entries gm), q)"
    "contents q = drop (Suc (length ?t)) (entries gm)"
    by (rule drain_until_entries [OF assms])
  show ?thesis
  proof (cases "List.find ?P (entries gm)")
    case None
    then have "?t = entries gm" by (rule find_none)
    then have "contents q = []" unfolding q(5) by (simp only: drop_all le_SucI order.refl)
    with q None show ?thesis by (simp add: escalateGapEntry_def gap_inv_def)
  next
    case (Some e)
    have "length (entries gm) = length ?t + Suc (length (drop (Suc (length ?t)) (entries gm)))"
      using arg_cong [OF conjunct1 [OF find_split [OF Some]], of length] by (simp only: length_append list.size add_Suc_right)
    then have "length (contents q) < usable q" using entries_bound [OF assms] q(3) unfolding q(5) by linarith
    then show ?thesis
      using q Some lq.put_laws [OF q(1), of "e\<lparr>ge_retry_count := ge_retry_count e + 1\<rparr>"] by (simp add: escalateGapEntry_def gap_inv_def)
  qed
qed

lemma demo_gaps:
  assumes "length es \<le> 1023"
  shows "\<exists>gm. gap_inv gm \<and> entries gm = es \<and> gap_room gm = 1023 \<and> gm_message_pool gm = pool \<and> gm_session_context gm = sc \<and> gm_outbound_queues gm = outq"
proof -
  let ?gm = "new_gap_manager pool sc outq"
  note new = new_gap_manager_inv [of pool sc outq]
  have "requeued (entries ?gm @ es) ?gm (?gm\<lparr>gm_gap_queue := put_all push es (gm_gap_queue ?gm)\<rparr>)"
    using new assms by (intro requeued_put_all) (simp_all add: gap_inv_def)
  then show ?thesis
    using new by (intro exI [of _ "?gm\<lparr>gm_gap_queue := put_all push es (gm_gap_queue ?gm)\<rparr>"]) (simp add: requeued_def, simp add: new_gap_manager_def)
qed

lemma escalate_loses_gaps_witness:
  "\<exists>gm gm'. map ge_seq_num (entries gm) = [3, 4, 9] \<and> escalateGapEntry 4 gm = Some gm' \<and> map ge_seq_num (entries gm') = [9, 4]"
proof -
  let ?es = "[GapQueueEntry 5 3, GapQueueEntry 6 4, GapQueueEntry 7 9]"
  obtain gm where g: "gap_inv gm" "entries gm = ?es" using demo_gaps [of ?es undefined "SessionContext [] []" "[]"] by auto
  have es: "ge_seq_num (GapQueueEntry n k) = k" for n k by (simp add: GapQueueEntry_def)
  from escalate_loses_gaps [OF g(1), of 4] obtain gm' where
    "escalateGapEntry 4 gm = Some gm'" "map ge_seq_num (entries gm') = [9, 4]"
    by (auto simp: g(2) es)
  moreover have "map ge_seq_num (entries gm) = [3, 4, 9]" by (simp add: g(2) es)
  ultimately show ?thesis by (intro exI conjI)
qed

section \<open>Retrying\<close>

definition retry_due :: "nat \<Rightarrow> gap_entry \<Rightarrow> bool" where
  "retry_due now e \<longleftrightarrow> \<not> ge_is_resolved e \<and> isTimeout now e \<and> ge_retry_count e < kMaxRetryCount"

definition requeue :: "nat \<Rightarrow> gap_entry \<Rightarrow> gap_entry list" where
  "requeue now e =
    (if ge_is_resolved e \<or> isTimeout now e \<and> \<not> ge_retry_count e < kMaxRetryCount then []
     else if isTimeout now e then [e\<lparr>ge_retry_count := ge_retry_count e + 1, ge_timeout_deadline := now + kGapTimeoutNs\<rparr>]
     else [e])"

lemma process_entry_cases:
  "process_entry now sysnow e gm = (requeue now e, if retry_due now e then sendResendRequest sysnow (ge_seq_num e) gm else gm)"
  by (simp add: process_entry_def requeue_def retry_due_def)

text \<open>The requests for a list of sequence numbers, with consecutive outgoing sequence numbers.\<close>

primrec resend_batch :: "nat \<Rightarrow> session_context \<Rightarrow> int list \<Rightarrow> fix_message list" where
  "resend_batch sysnow sc [] = []"
| "resend_batch sysnow sc (s # ss) =
    resend_request sysnow sc s (fst (getNextSeqNum sc)) (new_FixMessage sysnow) # resend_batch sysnow (snd (getNextSeqNum sc)) ss"

abbreviation critical :: "gap_manager \<Rightarrow> addr lfq" where
  "critical gm \<equiv> getQueue CRITICAL (gm_outbound_queues gm)"

abbreviation gap_heap :: "gap_manager \<Rightarrow> addr \<rightharpoonup> fix_message" where
  "gap_heap gm \<equiv> pool_heap (gm_message_pool gm)"

text \<open>Room for \<open>n\<close> more requests in the pool and in the outbound queue.\<close>

definition can_send :: "nat \<Rightarrow> gap_manager \<Rightarrow> bool" where
  "can_send n gm \<longleftrightarrow> pool_inv (gm_message_pool gm) \<and> \<not> p_shutdown (gm_message_pool gm)
     \<and> card (dom (gap_heap gm)) + n \<le> unat (p_size (gm_message_pool gm))
     \<and> container_inv (gm_outbound_queues gm) \<and> \<not> isShutdown (critical gm) \<and> length (contents (critical gm)) + n \<le> usable (critical gm)"

lemma can_send_requeue [simp]: "can_send n (gm\<lparr>gm_gap_queue := q\<rparr>) = can_send n gm"
  by (simp add: can_send_def)

lemma sendResendRequest_ok:
  assumes "can_send (Suc n) gm"
  obtains a gm' where "sendResendRequest sysnow seq gm = gm'" "can_send n gm'" "gm_gap_queue gm' = gm_gap_queue gm"
    "a \<noteq> 0" "a \<notin> dom (gap_heap gm)" "contents (critical gm') = contents (critical gm) @ [a]"
    "gap_heap gm' = (gap_heap gm)(a \<mapsto> resend_request sysnow (gm_session_context gm) seq (fst (getNextSeqNum (gm_session_context gm))) (new_FixMessage sysnow))"
    "gm_session_context gm' = snd (getNextSeqNum (gm_session_context gm))"
proof -
  let ?pool = "gm_message_pool gm" and ?m = "new_FixMessage sysnow" and ?sc = "gm_session_context gm"
  have inv: "pool_inv ?pool" and cinv: "container_inv (gm_outbound_queues gm)" using assms by (simp_all add: can_send_def)
  obtain a p1 where al: "allocate ?m ?pool = (a, p1)" by (cases "allocate ?m ?pool")
  note laws = allocate_laws [OF inv, of ?m, unfolded al fst_conv snd_conv]
  have a: "a \<noteq> 0" using laws(4) assms by (simp add: can_send_def)
  let ?f = "resend_request sysnow ?sc seq (fst (getNextSeqNum ?sc))"
  let ?p2 = "modify_at a ?f p1"
  note mlaws = modify_at_laws [OF laws(1), of a ?f]
  have heap: "pool_heap ?p2 = (pool_heap ?pool)(a \<mapsto> ?f ?m)" using mlaws(2) laws(6) a by simp
  have q: "queue_inv (critical gm)" by (rule container_inv_queue [OF cinv])
  have ok: "fst (push a (critical gm))" using lq.put_ok [OF q, of a] assms by (simp add: can_send_def)
  note plaws = push_to_laws [OF cinv, where pr = CRITICAL and a = a]
  define gm' where "gm' = gm\<lparr>gm_session_context := snd (getNextSeqNum ?sc), gm_outbound_queues := snd (push_to CRITICAL a (gm_outbound_queues gm)),
      gm_message_pool := ?p2\<rparr>"
  have send: "sendResendRequest sysnow seq gm = gm'"
    using a ok plaws(4) by (simp add: sendResendRequest_def al gm'_def split_def Let_def)
  have crit: "critical gm' = snd (push a (critical gm))" by (simp add: gm'_def plaws(3))
  have cont: "contents (critical gm') = contents (critical gm) @ [a]" using lq.put_cont [OF q, of a] ok by (simp add: crit)
  have "finite (dom (pool_heap ?pool))" using mp.finite_live [OF inv] by simp
  then have "card (dom (gap_heap gm')) = Suc (card (dom (gap_heap gm)))" using laws(5) a by (simp add: gm'_def heap)
  moreover have "p_size ?p2 = p_size ?pool" "p_shutdown ?p2 = p_shutdown ?pool" using laws(2,3) mlaws(3,4) by (simp_all add: word_unat_eq_iff)
  ultimately have "can_send n gm'"
    using assms mlaws(1) plaws(1) lq.put_frame [OF q, of a] cont by (simp add: can_send_def crit) (simp add: gm'_def)
  then show thesis
    using that [of gm' a] send a laws(5) cont heap by (simp add: gm'_def)
qed

lemma length_resend_batch [simp]: "length (resend_batch sysnow sc ss) = length ss"
  by (induction ss arbitrary: sc) simp_all

lemma process_loop_spec:
  assumes "gap_inv gm" "can_send (length (filter (retry_due now) (entries gm)) + n) gm"
  shows "\<exists>as gm'. process_loop now sysnow gm = Some (concat (map (requeue now) (entries gm)), gm')
    \<and> gap_inv gm' \<and> can_send n gm' \<and> entries gm' = [] \<and> gap_room gm' = gap_room gm
    \<and> length as = length (filter (retry_due now) (entries gm)) \<and> distinct as \<and> set as \<inter> dom (gap_heap gm) = {}
    \<and> contents (critical gm') = contents (critical gm) @ as
    \<and> gap_heap gm' = gap_heap gm ++ map_of (zip as (resend_batch sysnow (gm_session_context gm) (map ge_seq_num (filter (retry_due now) (entries gm)))))"
  using assms
proof (induction "entries gm" arbitrary: gm)
  case Nil
  obtain ok e q where t: "tryPop default_entry (gm_gap_queue gm) = (ok, e, q)" by (cases "tryPop default_entry (gm_gap_queue gm)")
  with Nil have "\<not> ok" "contents q = []" "queue_inv q" "usable q = gap_room gm" "\<not> isShutdown q"
    using lq.get_laws [of "gm_gap_queue gm" default_entry] by (auto simp: gap_inv_def)
  with Nil t show ?case
    by (subst process_loop.simps) (simp add: gap_inv_def)
next
  case (Cons x xs)
  obtain ok e q where t: "tryPop default_entry (gm_gap_queue gm) = (ok, e, q)" by (cases "tryPop default_entry (gm_gap_queue gm)")
  with Cons have q: "ok" "e = x" "contents q = xs" "queue_inv q" "usable q = gap_room gm" "\<not> isShutdown q"
    using lq.get_laws [of "gm_gap_queue gm" default_entry] by (auto simp: gap_inv_def)
  let ?gm = "gm\<lparr>gm_gap_queue := q\<rparr>"
  let ?due = "filter (retry_due now) xs"
  have loop: "process_loop now sysnow gm = Option.bind (process_loop now sysnow (if retry_due now x then sendResendRequest sysnow (ge_seq_num x) ?gm else ?gm))
      (\<lambda>(rest, gm). Some (requeue now x @ rest, gm))"
    by (subst process_loop.simps) (simp add: t q process_entry_cases)
  show ?case
  proof (cases "retry_due now x")
    case False
    have e: "entries ?gm = xs" "gap_inv ?gm" using q by (simp_all add: gap_inv_def)
    have c: "can_send (length (filter (retry_due now) (entries ?gm)) + n) ?gm"
      using Cons.prems(2) False q(3) by (simp add: Cons.hyps(2) [symmetric] can_send_def)
    from Cons.hyps(1) [OF e(1) [symmetric] e(2) c] obtain as gm' where
      "process_loop now sysnow ?gm = Some (concat (map (requeue now) xs), gm')" "gap_inv gm'" "can_send n gm'" "entries gm' = []" "gap_room gm' = gap_room gm"
      "length as = length ?due" "distinct as" "set as \<inter> dom (gap_heap gm) = {}" "contents (critical gm') = contents (critical gm) @ as"
      "gap_heap gm' = gap_heap gm ++ map_of (zip as (resend_batch sysnow (gm_session_context gm) (map ge_seq_num ?due)))"
      by (auto simp: q)
    with False show ?thesis
      by (intro exI [of _ as] exI [of _ gm']) (simp add: loop Cons.hyps(2) [symmetric])
  next
    case True
    have c: "can_send (Suc (length ?due + n)) ?gm"
      using Cons.prems(2) True by (simp add: Cons.hyps(2) [symmetric] can_send_def)
    obtain a gm1 where
      s: "sendResendRequest sysnow (ge_seq_num x) ?gm = gm1" "can_send (length ?due + n) gm1" "gm_gap_queue gm1 = q"
      "a \<notin> dom (gap_heap gm)" "contents (critical gm1) = contents (critical gm) @ [a]"
      "gap_heap gm1 = (gap_heap gm)(a \<mapsto> resend_request sysnow (gm_session_context gm) (ge_seq_num x) (fst (getNextSeqNum (gm_session_context gm))) (new_FixMessage sysnow))"
      "gm_session_context gm1 = snd (getNextSeqNum (gm_session_context gm))"
      by (rule sendResendRequest_ok [OF c, where sysnow = sysnow and seq = "ge_seq_num x"]) simp
    have e: "entries gm1 = xs" "gap_inv gm1" using q s(3) by (simp_all add: gap_inv_def)
    from Cons.hyps(1) [OF e(1) [symmetric] e(2)] s(2) obtain as gm' where
      IH: "process_loop now sysnow gm1 = Some (concat (map (requeue now) xs), gm')" "gap_inv gm'" "can_send n gm'" "entries gm' = []" "gap_room gm' = gap_room gm"
      "length as = length ?due" "distinct as" "set as \<inter> dom (gap_heap gm1) = {}" "contents (critical gm') = contents (critical gm1) @ as"
      "gap_heap gm' = gap_heap gm1 ++ map_of (zip as (resend_batch sysnow (gm_session_context gm1) (map ge_seq_num ?due)))"
      by (auto simp: e q s(3))
    have new: "a \<notin> set as" "set as \<inter> dom (gap_heap gm) = {}" using IH(8) s(6) by auto
    have "gap_heap gm' = gap_heap gm ++ map_of (zip (a # as) (resend_batch sysnow (gm_session_context gm) (map ge_seq_num (x # ?due))))"
      unfolding IH(10) s(6,7) list.map resend_batch.simps by (rule map_of_zip_upd) (simp_all add: length_resend_batch IH(6) new)
    with True IH(1-7,9) new s show ?thesis
      by (intro exI [of _ "a # as"] exI [of _ gm']) (simp add: loop Cons.hyps(2) [symmetric] del: map_of.simps zip_Cons_Cons)
  qed
qed

lemma length_requeue: "length (concat (map (requeue now) es)) \<le> length es"
  by (induction es) (auto simp: requeue_def)

lemma processGaps_spec:
  assumes "gap_inv gm" "can_send (length (filter (retry_due now) (entries gm)) + n) gm"
  shows "\<exists>as gm'. processGaps now sysnow gm = Some gm' \<and> gap_inv gm' \<and> can_send n gm' \<and> gap_room gm' = gap_room gm
    \<and> entries gm' = concat (map (requeue now) (entries gm))
    \<and> length as = length (filter (retry_due now) (entries gm)) \<and> distinct as \<and> set as \<inter> dom (gap_heap gm) = {}
    \<and> contents (critical gm') = contents (critical gm) @ as
    \<and> gap_heap gm' = gap_heap gm ++ map_of (zip as (resend_batch sysnow (gm_session_context gm) (map ge_seq_num (filter (retry_due now) (entries gm)))))"
proof -
  let ?keep = "concat (map (requeue now) (entries gm))"
  obtain as gm1 where g: "process_loop now sysnow gm = Some (?keep, gm1)" "gap_inv gm1" "can_send n gm1" "entries gm1 = []" "gap_room gm1 = gap_room gm"
    "length as = length (filter (retry_due now) (entries gm))" "distinct as" "set as \<inter> dom (gap_heap gm) = {}"
    "contents (critical gm1) = contents (critical gm) @ as"
    "gap_heap gm1 = gap_heap gm ++ map_of (zip as (resend_batch sysnow (gm_session_context gm) (map ge_seq_num (filter (retry_due now) (entries gm)))))"
    using process_loop_spec [OF assms] by blast
  let ?gm = "gm1\<lparr>gm_gap_queue := put_all push ?keep (gm_gap_queue gm1)\<rparr>"
  have "requeued (entries gm1 @ ?keep) gm1 ?gm"
    using g(2,4,5) entries_bound [OF assms(1)] length_requeue [of now "entries gm"] by (intro requeued_put_all) (simp_all add: gap_inv_def)
  then have "gap_inv ?gm" "entries ?gm = ?keep" "gap_room ?gm = gap_room gm" using g(4,5) by (simp_all add: requeued_def)
  with g show ?thesis by (intro exI [of _ as] exI [of _ ?gm]) (simp add: processGaps_def)
qed

text \<open>C16: With room in the pool and in the outbound queue, one round of the gap thread keeps the entries that have not timed out, gives each
  timed-out entry with retries left one more retry and a new deadline, drops the others, and appends to the CRITICAL queue exactly one
  new ResendRequest for each retried gap, in order and with consecutive sequence numbers. No other message changes. The new deadline is always 10 seconds
  ahead; docs/SEQ\_NUM\_GAP\_HANDLING\_DESIGN.md has the HIGH queue and intervals that grow from 100 milliseconds to 5 seconds instead.\<close>

theorem processGaps_resends:
  assumes "gap_inv gm" "can_send (length (filter (retry_due now) (entries gm))) gm"
  shows "\<exists>as gm'. processGaps now sysnow gm = Some gm' \<and> gap_inv gm'
    \<and> entries gm' = concat (map (requeue now) (entries gm))
    \<and> distinct as \<and> set as \<inter> dom (gap_heap gm) = {}
    \<and> contents (critical gm') = contents (critical gm) @ as
    \<and> length as = length (filter (retry_due now) (entries gm))
    \<and> gap_heap gm' = gap_heap gm ++ map_of (zip as (resend_batch sysnow (gm_session_context gm) (map ge_seq_num (filter (retry_due now) (entries gm)))))"
  using processGaps_spec [where n = 0 and sysnow = sysnow, OF assms(1)] assms(2) by fastforce

lemma demo_can_send:
  "\<exists>pool. \<forall>gm. gm_message_pool gm = pool \<and> gm_outbound_queues gm = new_container \<longrightarrow> can_send 9 gm"
proof -
  obtain p :: "fix_message pool" where p: "newPool 4096 64 9 ''pool'' = Inr p" by (simp add: newPool_def)
  have inv: "pool_inv p" "pool_heap p = Map.empty" "p_size p = 9" "\<not> p_shutdown p" using newPool_inv [OF p] by auto
  have "nextPowerOfTwo 2048 = 2048" by code_simp
  then have q: "usable (getQueue CRITICAL new_container) = 2047" "contents (getQueue CRITICAL new_container) = []"
    "\<not> isShutdown (getQueue CRITICAL new_container)"
    by (simp add: usable_def getQueue_def new_container_def newQueue_def, simp add: getQueue_def new_container_def,
        simp add: isShutdown_def getQueue_def new_container_def newQueue_def)
  show ?thesis
    by (intro exI [of _ p] allI impI) (simp add: can_send_def inv q new_container_inv)
qed

lemma can_send_mono: "can_send n gm \<Longrightarrow> k \<le> n \<Longrightarrow> can_send k gm"
  by (simp add: can_send_def)

lemma resend_request_begin: "getField Tag_BeginSeqNo (resend_request sysnow sc seq n m) = Some (int_to_string seq)"
  by (simp add: resend_request_def setSendingTime_def updateLengthAndChecksum_def getField_setField getField_setField_int
      Tag_BeginSeqNo_def Tag_EndSeqNo_def Tag_SenderCompID_def Tag_TargetCompID_def Tag_MsgSeqNum_def Tag_SendingTime_def)

lemma processGaps_resends_witness:
  "\<exists>gm gm' a m. processGaps 90000000000 5 gm = Some gm' \<and> contents (critical gm') = [a] \<and> gap_heap gm' a = Some m
     \<and> getField Tag_BeginSeqNo m = Some (int_to_string 3) \<and> map ge_retry_count (entries gm') = [1, 0]"
proof -
  let ?es = "[GapQueueEntry 5 3, GapQueueEntry 85000000000 4]"
  obtain pool where pool: "gm_message_pool gm = pool \<and> gm_outbound_queues gm = new_container \<Longrightarrow> can_send 9 gm" for gm
    using demo_can_send by blast
  obtain gm where g: "gap_inv gm" "entries gm = ?es" "gm_message_pool gm = pool" "gm_outbound_queues gm = new_container"
    using demo_gaps [of ?es pool "SessionContext ''A'' ''B''" new_container] by auto
  have due: "filter (retry_due 90000000000) ?es = [GapQueueEntry 5 3]" "concat (map (requeue 90000000000) ?es) =
      [(GapQueueEntry 5 3)\<lparr>ge_retry_count := 1, ge_timeout_deadline := 90000000000 + kGapTimeoutNs\<rparr>, GapQueueEntry 85000000000 4]"
    by (simp_all add: retry_due_def requeue_def isTimeout_def GapQueueEntry_def kGapTimeoutNs_def kMaxRetryCount_def)
  have "can_send 1 gm" by (rule can_send_mono [of 9]) (simp_all add: pool g)
  then have "can_send (length (filter (retry_due 90000000000) (entries gm))) gm" unfolding g(2) due by simp
  from processGaps_resends [OF g(1) this, of 5, unfolded g(2) due] obtain as gm' where
    r: "processGaps 90000000000 5 gm = Some gm'" "contents (critical gm') = contents (critical gm) @ as" "length as = 1"
    "gap_heap gm' = gap_heap gm ++ map_of (zip as (resend_batch 5 (gm_session_context gm) [ge_seq_num (GapQueueEntry 5 3)]))"
    "map ge_retry_count (entries gm') = [1, 0]"
    by (auto simp: GapQueueEntry_def)
  from r(3) obtain a where "as = [a]" by (cases as) auto
  moreover have "contents (critical gm) = []" by (simp add: g getQueue_def new_container_def)
  ultimately show ?thesis
    using r by (intro exI [of _ gm] exI [of _ gm'] exI [of _ a]) (auto simp: resend_request_begin GapQueueEntry_def)
qed

text \<open>Successive rounds of the gap thread, each given its steady and system time, far enough apart for every deadline to pass.\<close>

fun process_rounds :: "(nat \<times> nat) list \<Rightarrow> gap_manager \<Rightarrow> gap_manager option" where
  "process_rounds [] gm = Some gm"
| "process_rounds ((now, sysnow) # ts) gm = do { gm \<leftarrow> processGaps now sysnow gm; process_rounds ts gm }"

fun spaced :: "nat \<Rightarrow> (nat \<times> nat) list \<Rightarrow> bool" where
  "spaced d [] \<longleftrightarrow> True"
| "spaced d ((now, sysnow) # ts) \<longleftrightarrow> d < now \<and> spaced (now + kGapTimeoutNs) ts"

definition requested :: "gap_manager \<Rightarrow> addr \<Rightarrow> string option" where
  "requested gm a = Option.bind (gap_heap gm a) (getField Tag_BeginSeqNo)"

lemma map_add_zip:
  assumes "distinct as" "length as = length ms"
  shows "map (h ++ map_of (zip as ms)) as = map Some ms"
  using assms by (intro nth_equalityI) (simp_all add: map_add_find_right map_of_zip_nth)

lemma requested_batch:
  assumes "distinct as" "length as = length ss" "gap_heap gm = h ++ map_of (zip as (resend_batch sysnow sc ss))"
  shows "map (requested gm) as = map (\<lambda>s. Some (int_to_string s)) ss"
proof -
  have "map (requested gm) as = map (\<lambda>m. Option.bind m (getField Tag_BeginSeqNo)) (map (gap_heap gm) as)" by (simp add: requested_def comp_def)
  also have "map (gap_heap gm) as = map Some (resend_batch sysnow sc ss)" unfolding assms(3) by (rule map_add_zip) (use assms in simp_all)
  also have "map (\<lambda>m. Option.bind m (getField Tag_BeginSeqNo)) (map Some (resend_batch sysnow sc ss)) = map (\<lambda>s. Some (int_to_string s)) ss"
    by (induction ss arbitrary: sc) (simp_all add: resend_request_begin)
  finally show ?thesis .
qed

definition waiting :: "int \<Rightarrow> nat \<Rightarrow> gap_manager \<Rightarrow> bool" where
  "waiting k d gm \<longleftrightarrow> gap_inv gm \<and> list_all (\<lambda>e. \<not> ge_is_resolved e \<and> ge_retry_count e = k \<and> ge_timeout_deadline e \<le> d) (entries gm)"

lemma waiting_due:
  assumes "list_all (\<lambda>e. \<not> ge_is_resolved e \<and> ge_retry_count e = k \<and> ge_timeout_deadline e \<le> d) es" "d < now" "k < kMaxRetryCount"
  shows "filter (retry_due now) es = es"
    "concat (map (requeue now) es) = map (\<lambda>e. e\<lparr>ge_retry_count := k + 1, ge_timeout_deadline := now + kGapTimeoutNs\<rparr>) es"
  using assms by (induction es) (simp_all add: retry_due_def requeue_def isTimeout_def)

lemma waiting_over:
  assumes "list_all (\<lambda>e. \<not> ge_is_resolved e \<and> ge_retry_count e = k \<and> ge_timeout_deadline e \<le> d) es" "d < now" "\<not> k < kMaxRetryCount"
  shows "filter (retry_due now) es = []" "concat (map (requeue now) es) = []"
proof -
  have "\<not> retry_due now e \<and> requeue now e = []" if "e \<in> set es" for e
  proof -
    have "ge_retry_count e = k" "ge_timeout_deadline e < now" using assms(1,2) that by (auto simp: list_all_iff)
    then show ?thesis using assms(3) unfolding retry_due_def requeue_def isTimeout_def by simp
  qed
  then show "filter (retry_due now) es = []" "concat (map (requeue now) es) = []" by auto
qed

lemma retry_rounds:
  assumes "waiting (5 - int n) d gm" "spaced d ts" "length ts = Suc n" "can_send (n * length (entries gm)) gm"
  shows "\<exists>as gm'. process_rounds ts gm = Some gm' \<and> entries gm' = [] \<and> contents (critical gm') = contents (critical gm) @ as
    \<and> set as \<inter> dom (gap_heap gm) = {} \<and> gap_heap gm \<subseteq>\<^sub>m gap_heap gm'
    \<and> map (requested gm') as = concat (replicate n (map (\<lambda>e. Some (int_to_string (ge_seq_num e))) (entries gm)))"
  using assms
proof (induction n arbitrary: d gm ts)
  case 0
  then obtain now sysnow where ts: "ts = [(now, sysnow)]" by (cases ts) auto
  have inv: "gap_inv gm" and w: "filter (retry_due now) (entries gm) = []" "concat (map (requeue now) (entries gm)) = []"
    using 0 waiting_over [of 5 d "entries gm" now] by (simp_all add: waiting_def ts kMaxRetryCount_def)
  from processGaps_spec [where n = 0 and now = now and sysnow = sysnow, OF inv, unfolded w] 0 ts show ?case by auto
next
  case (Suc n)
  then obtain now sysnow rest where ts: "ts = (now, sysnow) # rest" by (cases ts) auto
  let ?es = "entries gm" and ?k = "5 - int (Suc n)"
  have inv: "gap_inv gm" and all: "list_all (\<lambda>e. \<not> ge_is_resolved e \<and> ge_retry_count e = ?k \<and> ge_timeout_deadline e \<le> d) ?es"
    and d: "d < now" "spaced (now + kGapTimeoutNs) rest" "length rest = Suc n" using Suc.prems by (auto simp: waiting_def ts)
  have k: "?k < kMaxRetryCount" by (simp add: kMaxRetryCount_def)
  note w = waiting_due [OF all d(1) k]
  obtain as gm1 where g: "processGaps now sysnow gm = Some gm1" "gap_inv gm1" "can_send (n * length ?es) gm1"
    "entries gm1 = map (\<lambda>e. e\<lparr>ge_retry_count := ?k + 1, ge_timeout_deadline := now + kGapTimeoutNs\<rparr>) ?es"
    "length as = length ?es" "distinct as" "set as \<inter> dom (gap_heap gm) = {}" "contents (critical gm1) = contents (critical gm) @ as"
    "gap_heap gm1 = gap_heap gm ++ map_of (zip as (resend_batch sysnow (gm_session_context gm) (map ge_seq_num ?es)))"
    using processGaps_spec [where n = "n * length ?es" and now = now and sysnow = sysnow, OF inv, unfolded w] Suc.prems(4) by auto
  have "waiting (5 - int n) (now + kGapTimeoutNs) gm1" using g(2) all by (simp add: waiting_def g(4) list_all_iff)
  moreover have "can_send (n * length (entries gm1)) gm1" using g(3,4) by simp
  ultimately obtain bs gm' where h: "process_rounds rest gm1 = Some gm'" "entries gm' = []" "contents (critical gm') = contents (critical gm1) @ bs"
    "set bs \<inter> dom (gap_heap gm1) = {}" "gap_heap gm1 \<subseteq>\<^sub>m gap_heap gm'"
    "map (requested gm') bs = concat (replicate n (map (\<lambda>e. Some (int_to_string (ge_seq_num e))) (entries gm1)))"
    using Suc.IH [OF _ d(2,3)] by blast
  have dom: "dom (gap_heap gm1) = set as \<union> dom (gap_heap gm)" using g(5) by (auto simp: g(9))
  have sub: "gap_heap gm \<subseteq>\<^sub>m gap_heap gm1"
    unfolding g(9) using g(5,7) by (intro map_le_iff_map_add_commute [THEN iffD2] map_add_comm) auto
  have "requested gm' a = requested gm1 a" if "a \<in> set as" for a
    using h(5) that dom by (simp add: requested_def map_le_def)
  then have "map (requested gm') as = map (\<lambda>e. Some (int_to_string (ge_seq_num e))) ?es"
    using requested_batch [OF g(6) _ g(9)] g(5) by (simp cong: map_cong)
  with h g(4) have "map (requested gm') (as @ bs) = concat (replicate (Suc n) (map (\<lambda>e. Some (int_to_string (ge_seq_num e))) ?es))"
    by (simp add: comp_def)
  moreover have "set (as @ bs) \<inter> dom (gap_heap gm) = {}" using h(4) g(7) dom by auto
  ultimately show ?case
    using g(1,8) h(1-3) map_le_trans [OF sub h(5)] by (intro exI [of _ "as @ bs"] exI [of _ gm']) (simp add: ts)
qed

text \<open>C34: An unresolved gap is retried and then given up: when each of six rounds comes after every deadline and there is room for the messages, a
  batch of new gaps causes exactly five ResendRequests for each gap, in five passes over the batch, all through the CRITICAL queue, and after the sixth round no gap is
  left. The escalation to a SequenceReset and the HIGH queue of docs/SEQ\_NUM\_GAP\_HANDLING\_DESIGN.md are not in the code.\<close>

theorem gap_retry_schedule:
  assumes "waiting 0 d gm" "spaced d ts" "length ts = 6" "can_send (5 * length (entries gm)) gm"
  shows "\<exists>as gm'. process_rounds ts gm = Some gm' \<and> entries gm' = [] \<and> contents (critical gm') = contents (critical gm) @ as
    \<and> map (requested gm') as = concat (replicate 5 (map (\<lambda>e. Some (int_to_string (ge_seq_num e))) (entries gm)))"
proof -
  have "waiting (5 - int 5) d gm" "length ts = Suc 5" using assms(1,3) by simp_all
  from retry_rounds [OF this(1) assms(2) this(2) assms(4)] show ?thesis by blast
qed

lemma gap_retry_schedule_witness:
  "\<exists>gm gm' as. process_rounds (map (\<lambda>i. (i * 20000000000, i)) [1, 2, 3, 4, 5, 6]) gm = Some gm' \<and> map ge_seq_num (entries gm) = [7] \<and> entries gm' = []
     \<and> contents (critical gm') = as \<and> map (requested gm') as = concat (replicate 5 [Some (int_to_string 7)])"
proof -
  let ?es = "[GapQueueEntry 5 7]" and ?ts = "map (\<lambda>i. (i * 20000000000, i)) [1, 2, 3, 4, 5, 6 :: nat]"
  obtain pool where pool: "gm_message_pool gm = pool \<and> gm_outbound_queues gm = new_container \<Longrightarrow> can_send 9 gm" for gm
    using demo_can_send by blast
  obtain gm where g: "gap_inv gm" "entries gm = ?es" "gm_message_pool gm = pool" "gm_outbound_queues gm = new_container"
    using demo_gaps [of ?es pool "SessionContext ''A'' ''B''" new_container] by auto
  have "can_send 5 gm" by (rule can_send_mono [of 9]) (simp_all add: pool g)
  then have s: "can_send (5 * length (entries gm)) gm" by (simp add: g(2))
  have w: "waiting 0 10000000005 gm" "spaced 10000000005 ?ts" "length ?ts = 6"
    using g(1) by (simp_all add: waiting_def g(2) GapQueueEntry_def kGapTimeoutNs_def)
  have e: "contents (critical gm) = []" by (simp add: g getQueue_def new_container_def)
  have seq: "ge_seq_num (GapQueueEntry 5 7) = 7" by (simp add: GapQueueEntry_def)
  from gap_retry_schedule [OF w s] obtain as gm' where r: "process_rounds ?ts gm = Some gm'" "entries gm' = []"
    "contents (critical gm') = contents (critical gm) @ as"
    "map (requested gm') as = concat (replicate 5 (map (\<lambda>e. Some (int_to_string (ge_seq_num e))) (entries gm)))"
    by blast
  note r' = r(3,4) [unfolded e append_Nil g(2) list.map seq]
  have "map ge_seq_num (entries gm) = [7]" by (simp add: g(2) seq)
  with r(1,2) show ?thesis using r' by (intro exI conjI)
qed

section \<open>Clearing\<close>

lemma queue_empty_contents:
  assumes "queue_inv q" "\<not> isShutdown q"
  shows "queue_empty q \<longleftrightarrow> contents q = []"
  using lq.get_ok [OF assms(1), of undefined] assms(2) by (auto simp: tryPop_def queue_empty_def isShutdown_def Let_def split: if_splits)

lemma clear_loop_spec:
  assumes "queue_inv q" "\<not> isShutdown q"
  shows "\<exists>q'. clear_loop q = Some q' \<and> queue_inv q' \<and> \<not> isShutdown q' \<and> contents q' = [] \<and> usable q' = usable q"
  using assms
proof (induction "contents q" arbitrary: q)
  case Nil
  then show ?case by (subst clear_loop.simps) (simp add: queue_empty_contents)
next
  case (Cons x xs)
  let ?q = "snd (snd (tryPop default_entry q))"
  have q: "queue_inv ?q" "\<not> isShutdown ?q" "xs = contents ?q" "usable ?q = usable q"
    using lq.get_laws [OF Cons.prems(1), of default_entry] Cons.prems(2) by (simp_all add: Cons.hyps(2) [symmetric])
  from Cons.hyps(1) [OF q(3,1,2)] q(4) Cons.prems Cons.hyps(2) show ?case
    by (subst clear_loop.simps) (auto simp: queue_empty_contents)
qed

text \<open>\<open>clearAllGaps\<close> terminates on every manager, leaves no gap and touches nothing but the gap queue.\<close>

lemma clearAllGaps_terminates:
  assumes "gap_inv gm"
  shows "\<exists>gm'. clearAllGaps gm = Some gm' \<and> requeued [] gm gm' \<and> getGapCount gm' = 0 \<and> tracked gm' = {}"
proof -
  obtain q where q: "clear_loop (gm_gap_queue gm) = Some q" "queue_inv q" "\<not> isShutdown q" "contents q = []" "usable q = gap_room gm"
    using clear_loop_spec [of "gm_gap_queue gm"] assms by (auto simp: gap_inv_def)
  have "queue_empty q" using queue_empty_contents [OF q(2,3)] q(4) by simp
  then have "queue_size q = 0" by (simp add: queue_empty_def queue_size_def Let_def)
  with q show ?thesis
    by (simp add: clearAllGaps_def requeuedI getGapCount_def tracked_def)
qed

lemma clearAllGaps_terminates_witness:
  "\<exists>gm gm'. map ge_seq_num (entries gm) = [3, 4] \<and> clearAllGaps gm = Some gm' \<and> getGapCount gm' = 0"
proof -
  let ?es = "[GapQueueEntry 5 3, GapQueueEntry 6 4]"
  obtain gm where g: "gap_inv gm" "entries gm = ?es" using demo_gaps [of ?es undefined "SessionContext [] []" "[]"] by auto
  have "map ge_seq_num (entries gm) = [3, 4]" by (simp add: g(2) GapQueueEntry_def)
  moreover obtain gm' where "clearAllGaps gm = Some gm'" "getGapCount gm' = 0" using clearAllGaps_terminates [OF g(1)] by auto
  ultimately show ?thesis by (intro exI conjI)
qed

end
