(* ===== verification/Session_Manager.thy ===== *)
theory Session_Manager
  imports Inbound_Manager Gap_Manager
begin

text \<open>
  \<open>FixSessionManager\<close> (include/manager/fix_session_manager.h, src/manager/fix_session_manager.cpp): the state machine of a FIX session, its
  sequence numbers, the session messages it emits and the heartbeat timer. The record extends that of the base class; the gap manager
  and the message pool are optional members. The session manager uses only the gap queue and the running flag of the gap manager, so
  that the pool and the queues inside \<open>gm\<close> may be the same objects as its own. Signed overflow, ending the process by assigning to a
  joinable thread, and loops that do not end give \<open>None\<close>. \<open>now\<close> is the steady clock in nanoseconds, \<open>sysnow\<close> the system clock in
  milliseconds, each read once per operation. One pass of the timer thread is one step. Logging is left out.
\<close>

section \<open>State\<close>

datatype session_state = DISCONNECTED | CONNECTING | LOGON_SENT | LOGGED_ON | LOGOUT_SENT | DISCONNECTING

record session_config =
  cf_sender_comp_id :: string
  cf_target_comp_id :: string
  cf_heartbeat_interval :: int
  cf_reset_sequence_numbers :: bool
  cf_logon_timeout_seconds :: int
  cf_validate_sequence_numbers :: bool

definition SessionConfig :: "string \<Rightarrow> string \<Rightarrow> session_config" where
  "SessionConfig sender tgt =
    \<lparr> cf_sender_comp_id = sender, cf_target_comp_id = tgt, cf_heartbeat_interval = 30, cf_reset_sequence_numbers = False,
      cf_logon_timeout_seconds = 30, cf_validate_sequence_numbers = True \<rparr>"

record session_stats =
  ss_heartbeats_sent :: uint64
  ss_heartbeats_received :: uint64
  ss_test_requests_sent :: uint64
  ss_test_requests_received :: uint64
  ss_logons_sent :: uint64
  ss_logouts_sent :: uint64
  ss_sequence_resets_sent :: uint64
  ss_rejects_sent :: uint64
  ss_session_start_time :: nat
  ss_last_heartbeat_time :: nat
  ss_current_state :: session_state

definition zero_session_stats :: session_stats where
  "zero_session_stats =
    \<lparr> ss_heartbeats_sent = 0, ss_heartbeats_received = 0, ss_test_requests_sent = 0, ss_test_requests_received = 0, ss_logons_sent = 0,
      ss_logouts_sent = 0, ss_sequence_resets_sent = 0, ss_rejects_sent = 0, ss_session_start_time = 0, ss_last_heartbeat_time = 0,
      ss_current_state = DISCONNECTED \<rparr>"

text \<open>The thread object of the timer: none, in its loop, or returned but not joined.\<close>

datatype thread_status = No_Thread | Looping | Returned

record session_manager = inbound_manager +
  sm_config :: session_config
  sm_gap_manager :: "gap_manager option"
  sm_message_pool :: "fix_message pool option"
  sm_session_state :: session_state
  sm_outgoing_seq_num :: int
  sm_expected_incoming_seq_num :: int
  sm_heartbeat_thread :: thread_status
  sm_heartbeat_timer_running :: bool
  sm_last_heartbeat_sent :: nat
  sm_last_message_received :: nat
  sm_pending_test_request_id :: string
  sm_test_request_sent_time :: nat
  sm_stats :: session_stats
  sm_test_req_id_counter :: uint64

definition new_session :: "session_config \<Rightarrow> gap_manager option \<Rightarrow> session_manager" where
  "new_session config gm =
    inbound_manager.extend (new_inbound_manager ''FixSessionManager'')
      (session_manager.fields config gm None DISCONNECTED 1 1 No_Thread False 0 0 [] 0 zero_session_stats 1)"

section \<open>Sequence numbers and state\<close>

definition getNextOutgoingSeqNum :: "session_manager \<Rightarrow> int \<times> session_manager" where
  "getNextOutgoingSeqNum s =
    (let n = wrap_int32 (sm_outgoing_seq_num s + 1) in (n, s\<lparr>sm_outgoing_seq_num := n\<rparr>))"

definition updateSessionState :: "session_state \<Rightarrow> session_manager \<Rightarrow> session_manager" where
  "updateSessionState new_state s =
    s\<lparr>sm_session_state := new_state, sm_stats := (sm_stats s)\<lparr>ss_current_state := new_state\<rparr>\<rparr>"

definition createTestRequestId :: "session_manager \<Rightarrow> string \<times> session_manager" where
  "createTestRequestId s =
    (''TEST_'' @ to_string_nat (unat (sm_test_req_id_counter s)), s\<lparr>sm_test_req_id_counter := sm_test_req_id_counter s + 1\<rparr>)"

definition updateHeartbeatInterval :: "int \<Rightarrow> session_manager \<Rightarrow> session_manager" where
  "updateHeartbeatInterval seconds s = s\<lparr>sm_config := (sm_config s)\<lparr>cf_heartbeat_interval := seconds\<rparr>\<rparr>"

definition setSequenceNumbers :: "int \<Rightarrow> int \<Rightarrow> session_manager \<Rightarrow> session_manager" where
  "setSequenceNumbers incoming_seq outgoing_seq s =
    s\<lparr>sm_expected_incoming_seq_num := incoming_seq, sm_outgoing_seq_num := outgoing_seq\<rparr>"

definition setMessagePool :: "fix_message pool option \<Rightarrow> session_manager \<Rightarrow> session_manager" where
  "setMessagePool pool s = s\<lparr>sm_message_pool := pool\<rparr>"

section \<open>Message creation\<close>

text \<open>\<open>%Y%m%d-%H:%M:%S\<close> in UTC.\<close>

definition session_time :: "nat \<Rightarrow> string" where
  "session_time ms =
    (let secs = ms div 1000; (y, mo, d) = civil_date (secs div 86400); sod = secs mod 86400
     in padded 4 y @ padded 2 mo @ padded 2 d @ ''-'' @ padded 2 (sod div 3600) @ '':''
        @ padded 2 (sod div 60 mod 60) @ '':'' @ padded 2 (sod mod 60))"

text \<open>The standard header and sending time, as every \<open>create\<close> function writes them.\<close>

definition session_header :: "nat \<Rightarrow> session_config \<Rightarrow> string \<Rightarrow> int \<Rightarrow> fix_message \<Rightarrow> fix_message" where
  "session_header sysnow cfg msg_type n msg =
    (let msg = setField Tag_BeginString ''FIX.4.4'' msg;
         msg = setField Tag_MsgType msg_type msg;
         msg = setField Tag_SenderCompID (cf_sender_comp_id cfg) msg;
         msg = setField Tag_TargetCompID (cf_target_comp_id cfg) msg;
         msg = setField Tag_MsgSeqNum (to_string_int n) msg
     in setField Tag_SendingTime (session_time sysnow) msg)"

definition create_message :: "nat \<Rightarrow> string \<Rightarrow> (fix_message \<Rightarrow> fix_message) \<Rightarrow> session_manager \<Rightarrow> addr \<times> session_manager" where
  "create_message sysnow msg_type specific s =
    (case sm_message_pool s of
       None \<Rightarrow> (0, s)
     | Some pool \<Rightarrow>
       let (msg, pool) = allocate (new_FixMessage sysnow) pool
       in if msg = 0 then (0, s\<lparr>sm_message_pool := Some pool\<rparr>)
          else let (n, s) = getNextOutgoingSeqNum s
               in (msg, s\<lparr>sm_message_pool := Some (modify_at msg (\<lambda>m. specific (session_header sysnow (sm_config s) msg_type n m)) pool)\<rparr>))"

definition logon_fields :: "session_config \<Rightarrow> fix_message \<Rightarrow> fix_message" where
  "logon_fields cfg msg =
    (let msg = setField Tag_HeartBtInt (to_string_int (cf_heartbeat_interval cfg)) msg
     in if cf_reset_sequence_numbers cfg then setField Tag_ResetSeqNumFlag ''Y'' msg else msg)"

definition createLogonMessage :: "nat \<Rightarrow> session_manager \<Rightarrow> addr \<times> session_manager" where
  "createLogonMessage sysnow s = create_message sysnow ''A'' (logon_fields (sm_config s)) s"

definition createLogoutMessage :: "nat \<Rightarrow> string \<Rightarrow> session_manager \<Rightarrow> addr \<times> session_manager" where
  "createLogoutMessage sysnow reason s =
    create_message sysnow ''5'' (\<lambda>msg. if reason \<noteq> [] then setField Tag_Text reason msg else msg) s"

definition createHeartbeatMessage :: "nat \<Rightarrow> string \<Rightarrow> session_manager \<Rightarrow> addr \<times> session_manager" where
  "createHeartbeatMessage sysnow test_req_id s =
    create_message sysnow ''0'' (\<lambda>msg. if test_req_id \<noteq> [] then setField Tag_TestReqID test_req_id msg else msg) s"

definition createTestRequestMessage :: "nat \<Rightarrow> session_manager \<Rightarrow> addr \<times> session_manager" where
  "createTestRequestMessage sysnow s =
    (let (msg, s1) = create_message sysnow ''1'' (setField Tag_TestReqID (fst (createTestRequestId s))) s
     in if msg = 0 then (0, s1)
        else let (test_req_id, s2) = createTestRequestId s1 in (msg, s2\<lparr>sm_pending_test_request_id := test_req_id\<rparr>))"

definition createRejectMessage :: "nat \<Rightarrow> int \<Rightarrow> string \<Rightarrow> session_manager \<Rightarrow> addr \<times> session_manager" where
  "createRejectMessage sysnow ref_seq_num reason s =
    create_message sysnow ''3''
      (\<lambda>msg. let msg = setField Tag_RefSeqNum (to_string_int ref_seq_num) msg
             in if reason \<noteq> [] then setField Tag_Text reason msg else msg) s"

definition createSequenceResetMessage :: "nat \<Rightarrow> int \<Rightarrow> bool \<Rightarrow> session_manager \<Rightarrow> addr \<times> session_manager" where
  "createSequenceResetMessage sysnow new_seq_num gap_fill s =
    create_message sysnow ''4''
      (\<lambda>msg. let msg = setField Tag_NewSeqNo (to_string_int new_seq_num) msg
             in if gap_fill then setField Tag_GapFillFlag ''Y'' msg else msg) s"

section \<open>Sending\<close>

definition send_created :: "addr \<times> session_manager \<Rightarrow> priority \<Rightarrow> (session_manager \<Rightarrow> session_manager) \<Rightarrow> bool \<times> session_manager" where
  "send_created created pr on_success =
    (let (msg, s) = created
     in if msg = 0 then (False, s)
        else let (success, s) = routeToOutbound msg pr s in (success, if success then on_success s else s))"

definition sendLogon :: "nat \<Rightarrow> session_manager \<Rightarrow> bool \<times> session_manager" where
  "sendLogon sysnow s =
    send_created (createLogonMessage sysnow s) CRITICAL (\<lambda>s. s\<lparr>sm_stats := (sm_stats s)\<lparr>ss_logons_sent := ss_logons_sent (sm_stats s) + 1\<rparr>\<rparr>)"

definition sendLogout :: "nat \<Rightarrow> string \<Rightarrow> session_manager \<Rightarrow> bool \<times> session_manager" where
  "sendLogout sysnow reason s =
    send_created (createLogoutMessage sysnow reason s) CRITICAL
      (\<lambda>s. s\<lparr>sm_stats := (sm_stats s)\<lparr>ss_logouts_sent := ss_logouts_sent (sm_stats s) + 1\<rparr>\<rparr>)"

definition sendHeartbeat :: "nat \<Rightarrow> nat \<Rightarrow> string \<Rightarrow> session_manager \<Rightarrow> bool \<times> session_manager" where
  "sendHeartbeat now sysnow test_req_id s =
    send_created (createHeartbeatMessage sysnow test_req_id s) HIGH
      (\<lambda>s. s\<lparr>sm_stats := (sm_stats s)\<lparr>ss_heartbeats_sent := ss_heartbeats_sent (sm_stats s) + 1\<rparr>, sm_last_heartbeat_sent := now\<rparr>)"

definition sendTestRequest :: "nat \<Rightarrow> nat \<Rightarrow> session_manager \<Rightarrow> bool \<times> session_manager" where
  "sendTestRequest now sysnow s =
    send_created (createTestRequestMessage sysnow s) HIGH
      (\<lambda>s. s\<lparr>sm_stats := (sm_stats s)\<lparr>ss_test_requests_sent := ss_test_requests_sent (sm_stats s) + 1\<rparr>, sm_test_request_sent_time := now\<rparr>)"

definition sendReject :: "nat \<Rightarrow> int \<Rightarrow> string \<Rightarrow> session_manager \<Rightarrow> bool \<times> session_manager" where
  "sendReject sysnow ref_seq_num reason s =
    send_created (createRejectMessage sysnow ref_seq_num reason s) MEDIUM
      (\<lambda>s. s\<lparr>sm_stats := (sm_stats s)\<lparr>ss_rejects_sent := ss_rejects_sent (sm_stats s) + 1\<rparr>\<rparr>)"

definition sendSequenceReset :: "nat \<Rightarrow> int \<Rightarrow> bool \<Rightarrow> session_manager \<Rightarrow> bool \<times> session_manager" where
  "sendSequenceReset sysnow new_seq_num gap_fill s =
    send_created (createSequenceResetMessage sysnow new_seq_num gap_fill s) CRITICAL
      (\<lambda>s. s\<lparr>sm_stats := (sm_stats s)\<lparr>ss_sequence_resets_sent := ss_sequence_resets_sent (sm_stats s) + 1\<rparr>\<rparr>)"

section \<open>The heartbeat timer\<close>

definition startHeartbeatTimer :: "session_manager \<Rightarrow> session_manager option" where
  "startHeartbeatTimer s =
    (if sm_heartbeat_timer_running s then Some s
     else if sm_heartbeat_thread s \<noteq> No_Thread then None
     else Some (s\<lparr>sm_heartbeat_timer_running := True, sm_heartbeat_thread := Looping\<rparr>))"

definition stopHeartbeatTimer :: "session_manager \<Rightarrow> session_manager" where
  "stopHeartbeatTimer s =
    (if \<not> sm_heartbeat_timer_running s then s
     else s\<lparr>sm_heartbeat_timer_running := False, sm_heartbeat_thread := No_Thread\<rparr>)"

text \<open>\<open>duration_cast<seconds>\<close> of the time since an earlier point.\<close>

definition seconds_since :: "nat \<Rightarrow> nat \<Rightarrow> int" where
  "seconds_since earlier now = int ((now - earlier) div 1000000000)"

definition shouldSendHeartbeat :: "nat \<Rightarrow> session_manager \<Rightarrow> bool" where
  "shouldSendHeartbeat now s \<longleftrightarrow> seconds_since (sm_last_heartbeat_sent s) now \<ge> cf_heartbeat_interval (sm_config s)"

definition shouldSendTestRequest :: "nat \<Rightarrow> session_manager \<Rightarrow> bool option" where
  "shouldSendTestRequest now s =
    (if \<not> in_int (cf_heartbeat_interval (sm_config s) * 2) then None
     else Some (seconds_since (sm_last_message_received s) now \<ge> cf_heartbeat_interval (sm_config s) * 2))"

definition heartbeat_tick :: "nat \<Rightarrow> nat \<Rightarrow> session_manager \<Rightarrow> session_manager option" where
  "heartbeat_tick now sysnow s =
    (if sm_heartbeat_thread s \<noteq> Looping then Some s
     else if \<not> (sm_heartbeat_timer_running s \<and> sm_session_state s = LOGGED_ON) then Some (s\<lparr>sm_heartbeat_thread := Returned\<rparr>)
     else let s = (if shouldSendHeartbeat now s then snd (sendHeartbeat now sysnow [] s) else s)
          in case shouldSendTestRequest now s of
               None \<Rightarrow> None
             | Some due \<Rightarrow> Some (if due then snd (sendTestRequest now sysnow s) else s))"

section \<open>Life cycle\<close>

definition session_start :: "nat \<Rightarrow> session_manager \<Rightarrow> session_manager option" where
  "session_start now s =
    (let s = inbound_start s;
         stamp = (\<lambda>s. s\<lparr>sm_stats := (sm_stats s)\<lparr>ss_session_start_time := now\<rparr>\<rparr>)
     in case sm_gap_manager s of
          None \<Rightarrow> Some (stamp s)
        | Some gm \<Rightarrow> map_option (\<lambda>gm. stamp (s\<lparr>sm_gap_manager := Some gm\<rparr>)) (gap_start gm))"

definition session_stop :: "session_manager \<Rightarrow> session_manager" where
  "session_stop s =
    (let s = updateSessionState DISCONNECTED (stopHeartbeatTimer s);
         s = s\<lparr>sm_gap_manager := map_option gap_stop (sm_gap_manager s)\<rparr>
     in inbound_stop s)"

definition session_destroy :: "session_manager \<Rightarrow> session_manager" where
  "session_destroy s = session_stop s"

definition initiateLogon :: "nat \<Rightarrow> session_manager \<Rightarrow> bool \<times> session_manager" where
  "initiateLogon sysnow s =
    (if sm_session_state s \<noteq> DISCONNECTED then (False, s)
     else let s = updateSessionState LOGON_SENT s;
              (success, s) = sendLogon sysnow s
          in (success,
              if success then s\<lparr>sm_stats := (sm_stats s)\<lparr>ss_logons_sent := ss_logons_sent (sm_stats s) + 1\<rparr>\<rparr>
              else updateSessionState DISCONNECTED s))"

definition initiateLogout :: "nat \<Rightarrow> string \<Rightarrow> session_manager \<Rightarrow> bool \<times> session_manager" where
  "initiateLogout sysnow reason s =
    (if sm_session_state s \<noteq> LOGGED_ON \<and> sm_session_state s \<noteq> LOGON_SENT then (False, s)
     else let s = updateSessionState LOGOUT_SENT s;
              (success, s) = sendLogout sysnow reason s
          in (success,
              if success then s\<lparr>sm_stats := (sm_stats s)\<lparr>ss_logouts_sent := ss_logouts_sent (sm_stats s) + 1\<rparr>\<rparr> else s))"

section \<open>Validation\<close>

definition isValidSenderCompId :: "string \<Rightarrow> session_manager \<Rightarrow> bool" where
  "isValidSenderCompId sender_comp_id s \<longleftrightarrow> sender_comp_id = cf_target_comp_id (sm_config s)"

definition isValidTargetCompId :: "string \<Rightarrow> session_manager \<Rightarrow> bool" where
  "isValidTargetCompId target_comp_id s \<longleftrightarrow> target_comp_id = cf_sender_comp_id (sm_config s)"

definition validateSessionMessage :: "fix_message \<Rightarrow> session_manager \<Rightarrow> bool" where
  "validateSessionMessage m s =
    (case (getField Tag_SenderCompID m, getField Tag_TargetCompID m) of
       (Some sender_comp_id, Some target_comp_id) \<Rightarrow> isValidSenderCompId sender_comp_id s \<and> isValidTargetCompId target_comp_id s
     | _ \<Rightarrow> False)"

primrec add_gaps :: "nat \<Rightarrow> int list \<Rightarrow> gap_manager \<Rightarrow> gap_manager option" where
  "add_gaps now [] gm = Some gm"
| "add_gaps now (seq # seqs) gm = Option.bind (addGapEntry now seq gm) (add_gaps now seqs)"

definition is_resend :: "fix_message \<Rightarrow> bool" where
  "is_resend m \<longleftrightarrow> getField Tag_PossDupFlag m = Some ''Y''"

definition validateSequenceNumber :: "nat \<Rightarrow> fix_message \<Rightarrow> session_manager \<Rightarrow> (bool \<times> session_manager) option" where
  "validateSequenceNumber now m s =
    (case getField Tag_MsgSeqNum m of
       None \<Rightarrow> Some (False, s)
     | Some seq_num_str \<Rightarrow>
       (case stoi seq_num_str of
          Inl e \<Rightarrow> Some (False, s)
        | Inr received_seq \<Rightarrow>
          let expected_seq = sm_expected_incoming_seq_num s
          in if received_seq = expected_seq then
               if expected_seq = INT_MAX then None
               else Some (True, s\<lparr>sm_expected_incoming_seq_num := expected_seq + 1\<rparr>)
             else if received_seq > expected_seq then
               if is_resend m then
                 if received_seq = INT_MAX then None
                 else Some (True, s\<lparr>sm_expected_incoming_seq_num := received_seq + 1\<rparr>)
               else (case sm_gap_manager s of
                       None \<Rightarrow> Some (False, s)
                     | Some gm \<Rightarrow> Option.bind (add_gaps now [expected_seq .. received_seq - 1] gm)
                         (\<lambda>gm. Some (False, s\<lparr>sm_gap_manager := Some gm\<rparr>)))
             else Some (is_resend m, s)))"

section \<open>Handlers\<close>

definition handleLogon :: "fix_message \<Rightarrow> session_manager \<Rightarrow> (bool \<times> session_manager) option" where
  "handleLogon m s =
    (let s = (case getField Tag_HeartBtInt m of
                None \<Rightarrow> s
              | Some heartbeat_str \<Rightarrow>
                (case stoi heartbeat_str of
                   Inl e \<Rightarrow> s
                 | Inr heartbeat_interval \<Rightarrow>
                   if heartbeat_interval > 0 then s\<lparr>sm_config := (sm_config s)\<lparr>cf_heartbeat_interval := heartbeat_interval\<rparr>\<rparr> else s))
     in map_option (Pair True) (startHeartbeatTimer (updateSessionState LOGGED_ON s)))"

definition handleLogout :: "nat \<Rightarrow> fix_message \<Rightarrow> session_manager \<Rightarrow> bool \<times> session_manager" where
  "handleLogout sysnow m s =
    (let s = stopHeartbeatTimer s;
         s = (if sm_session_state s = LOGGED_ON then snd (sendLogout sysnow ''Logout acknowledged'' s) else s)
     in (True, updateSessionState DISCONNECTED s))"

definition handleHeartbeat :: "nat \<Rightarrow> fix_message \<Rightarrow> session_manager \<Rightarrow> bool \<times> session_manager" where
  "handleHeartbeat now m s =
    (let s = s\<lparr>sm_stats := (sm_stats s)\<lparr>ss_heartbeats_received := ss_heartbeats_received (sm_stats s) + 1, ss_last_heartbeat_time := now\<rparr>\<rparr>
     in (True, if getField Tag_TestReqID m = Some (sm_pending_test_request_id s) then s\<lparr>sm_pending_test_request_id := []\<rparr> else s))"

definition handleTestRequest :: "nat \<Rightarrow> nat \<Rightarrow> fix_message \<Rightarrow> session_manager \<Rightarrow> bool \<times> session_manager" where
  "handleTestRequest now sysnow m s =
    (let s = s\<lparr>sm_stats := (sm_stats s)\<lparr>ss_test_requests_received := ss_test_requests_received (sm_stats s) + 1\<rparr>\<rparr>
     in case getField Tag_TestReqID m of
          None \<Rightarrow> (False, s)
        | Some test_req_id \<Rightarrow> sendHeartbeat now sysnow test_req_id s)"

definition handleResendRequest :: "nat \<Rightarrow> fix_message \<Rightarrow> session_manager \<Rightarrow> (bool \<times> session_manager) option" where
  "handleResendRequest sysnow m s =
    (case (getField Tag_BeginSeqNo m, getField Tag_EndSeqNo m) of
       (Some begin_seq_str, Some end_seq_str) \<Rightarrow>
         (case (stoi begin_seq_str, stoi end_seq_str) of
            (Inr begin_seq, Inr end_seq) \<Rightarrow> if end_seq = INT_MAX then None else Some (sendSequenceReset sysnow (end_seq + 1) True s)
          | _ \<Rightarrow> Some (False, s))
     | _ \<Rightarrow> Some (False, s))"

definition handleSequenceReset :: "fix_message \<Rightarrow> session_manager \<Rightarrow> bool \<times> session_manager" where
  "handleSequenceReset m s =
    (case getField Tag_NewSeqNo m of
       None \<Rightarrow> (False, s)
     | Some new_seq_str \<Rightarrow>
       (case stoi new_seq_str of
          Inl e \<Rightarrow> (False, s)
        | Inr new_seq \<Rightarrow> (True, s\<lparr>sm_expected_incoming_seq_num := new_seq\<rparr>)))"

definition handleReject :: "fix_message \<Rightarrow> session_manager \<Rightarrow> bool \<times> session_manager" where
  "handleReject m s = (True, s)"

definition dispatch :: "nat \<Rightarrow> nat \<Rightarrow> string \<Rightarrow> fix_message \<Rightarrow> session_manager \<Rightarrow> (bool \<times> session_manager) option" where
  "dispatch now sysnow msg_type m s =
    (if msg_type = ''A'' then handleLogon m s
     else if msg_type = ''5'' then Some (handleLogout sysnow m s)
     else if msg_type = ''0'' then Some (handleHeartbeat now m s)
     else if msg_type = ''1'' then Some (handleTestRequest now sysnow m s)
     else if msg_type = ''2'' then handleResendRequest sysnow m s
     else if msg_type = ''4'' then Some (handleSequenceReset m s)
     else if msg_type = ''3'' then Some (handleReject m s)
     else Some (False, s))"

definition handleMessage :: "nat \<Rightarrow> nat \<Rightarrow> fix_message option \<Rightarrow> session_manager \<Rightarrow> (bool \<times> session_manager) option" where
  "handleMessage now sysnow message s =
    (case message of
       None \<Rightarrow> Some (False, s)
     | Some m \<Rightarrow>
       let s = s\<lparr>sm_last_message_received := now\<rparr>
       in case getField Tag_MsgType m of
            None \<Rightarrow> Some (False, s)
          | Some msg_type \<Rightarrow>
            if \<not> validateSessionMessage m s then Some (False, s)
            else if cf_validate_sequence_numbers (sm_config s)
            then Option.bind (validateSequenceNumber now m s) (\<lambda>(ok, s). if ok then dispatch now sysnow msg_type m s else Some (False, s))
            else dispatch now sysnow msg_type m s)"

definition isMessageSupported :: "fix_message \<Rightarrow> bool" where
  "isMessageSupported m \<longleftrightarrow>
    (case getField Tag_MsgType m of
       None \<Rightarrow> False
     | Some msg_type \<Rightarrow> msg_type \<in> {''A'', ''5'', ''0'', ''1'', ''2'', ''4'', ''3''})"

definition getHandledMessageTypes :: "FixMsgType list" where
  "getHandledMessageTypes = [LOGON, LOGOUT, HEARTBEAT, TEST_REQUEST, RESEND_REQUEST, SEQUENCE_RESET, REJECT]"

text \<open>The virtual function as the base class calls it; \<open>sys\<close> gives the system time at a steady time.\<close>

definition session_handler :: "(nat \<Rightarrow> nat) \<Rightarrow> session_manager handler" where
  "session_handler sys now m s = map_option (map_prod Inr id) (handleMessage now (sys now) (Some m) s)"

section \<open>What sending leaves alone\<close>

definition send_kept :: "session_manager \<Rightarrow> session_manager \<Rightarrow> bool" where
  "send_kept s s' \<longleftrightarrow> base_kept s s' \<and> sm_config s' = sm_config s \<and> sm_gap_manager s' = sm_gap_manager s \<and> sm_session_state s' = sm_session_state s
     \<and> sm_expected_incoming_seq_num s' = sm_expected_incoming_seq_num s \<and> sm_heartbeat_thread s' = sm_heartbeat_thread s
     \<and> sm_heartbeat_timer_running s' = sm_heartbeat_timer_running s \<and> sm_last_message_received s' = sm_last_message_received s
     \<and> ss_current_state (sm_stats s') = ss_current_state (sm_stats s)"

lemma send_kept_refl [simp]: "send_kept s s"
  by (simp add: send_kept_def)

lemma send_kept_trans: "send_kept s s' \<Longrightarrow> send_kept s' s'' \<Longrightarrow> send_kept s s''"
  unfolding send_kept_def using base_kept_trans by metis

lemma create_message_kept: "send_kept s (snd (create_message sysnow t f s))"
  by (simp add: create_message_def getNextOutgoingSeqNum_def send_kept_def base_kept_def Let_def split_def split: option.split)

lemma createTestRequestMessage_kept: "send_kept s (snd (createTestRequestMessage sysnow s))"
  using create_message_kept [of s sysnow "''1''" "setField Tag_TestReqID (fst (createTestRequestId s))"]
  by (simp add: createTestRequestMessage_def createTestRequestId_def Let_def split_def send_kept_def base_kept_def)

lemma routeToOutbound_kept: "send_kept s (snd (routeToOutbound a pr s))"
  by (simp add: routeToOutbound_def count_routed_def send_kept_def base_kept_def Let_def split_def split: option.split priority.split)

lemma send_created_kept:
  assumes "send_kept s (snd created)" "\<And>s. send_kept s (g s)"
  shows "send_kept s (snd (send_created created pr g))"
proof -
  obtain a s1 where c: "created = (a, s1)" by (cases created)
  have "send_kept s1 (snd (routeToOutbound a pr s1))" by (rule routeToOutbound_kept)
  with assms c show ?thesis
    unfolding send_created_def by (auto simp: split_def Let_def intro: send_kept_trans)
qed

lemma send_kept_sends [simp]:
  "send_kept s (snd (sendLogon sysnow s))" "send_kept s (snd (sendLogout sysnow reason s))" "send_kept s (snd (sendHeartbeat now sysnow i s))"
  "send_kept s (snd (sendTestRequest now sysnow s))" "send_kept s (snd (sendReject sysnow n reason s))"
  "send_kept s (snd (sendSequenceReset sysnow n fill s))"
  unfolding sendLogon_def sendLogout_def sendHeartbeat_def sendTestRequest_def sendReject_def sendSequenceReset_def
    createLogonMessage_def createLogoutMessage_def createHeartbeatMessage_def createRejectMessage_def createSequenceResetMessage_def
  by (rule send_created_kept, rule create_message_kept createTestRequestMessage_kept, simp add: send_kept_def base_kept_def)+

end
