(* ===== verification/Session_Properties.thy ===== *)
theory Session_Properties
  imports Session_Manager
begin

text \<open>
  Properties of the session manager of theory Session\_Manager: its invariant over all its operations, sequence number checking
  together with the gap manager, the messages it emits, and the accounting of the base class for its handler.
\<close>

section \<open>Invariant\<close>

definition gap_ok :: "session_manager \<Rightarrow> bool" where
  "gap_ok s \<longleftrightarrow> (case sm_gap_manager s of None \<Rightarrow> True | Some gm \<Rightarrow> gap_inv gm)"

definition open_gaps :: "session_manager \<Rightarrow> int set" where
  "open_gaps s = (case sm_gap_manager s of None \<Rightarrow> {} | Some gm \<Rightarrow> tracked gm)"

definition session_inv :: "session_manager \<Rightarrow> bool" where
  "session_inv s \<longleftrightarrow> (sm_heartbeat_timer_running s \<longleftrightarrow> sm_heartbeat_thread s \<noteq> No_Thread)
     \<and> sm_session_state s \<notin> {CONNECTING, DISCONNECTING} \<and> ss_current_state (sm_stats s) = sm_session_state s \<and> gap_ok s"

definition session_ok :: "session_manager \<Rightarrow> session_manager \<Rightarrow> bool" where
  "session_ok s s' \<longleftrightarrow> session_inv s' \<and> open_gaps s \<subseteq> open_gaps s' \<and> base_kept s s'"

lemma session_ok_refl: "session_inv s \<Longrightarrow> session_ok s s"
  by (simp add: session_ok_def)

lemma session_ok_trans: "session_ok s s' \<Longrightarrow> session_ok s' s'' \<Longrightarrow> session_ok s s''"
  unfolding session_ok_def using base_kept_trans by blast

lemma send_ok: "session_inv s \<Longrightarrow> send_kept s s' \<Longrightarrow> session_ok s s'"
  by (simp add: send_kept_def session_ok_def session_inv_def gap_ok_def open_gaps_def)

lemma update_state_ok: "session_inv s \<Longrightarrow> st \<notin> {CONNECTING, DISCONNECTING} \<Longrightarrow> session_ok s (updateSessionState st s)"
  by (simp add: session_ok_def session_inv_def gap_ok_def open_gaps_def updateSessionState_def base_kept_def)

lemma stop_timer_ok: "session_inv s \<Longrightarrow> session_ok s (stopHeartbeatTimer s)"
  by (auto simp: session_ok_def session_inv_def gap_ok_def open_gaps_def stopHeartbeatTimer_def base_kept_def)

lemma start_timer_ok: "session_inv s \<Longrightarrow> \<exists>s'. startHeartbeatTimer s = Some s' \<and> session_ok s s'"
  by (simp add: session_ok_def session_inv_def gap_ok_def open_gaps_def startHeartbeatTimer_def base_kept_def)

lemma neutral_ok:
  assumes "session_inv s"
  shows "session_ok s (s\<lparr>sm_config := cfg\<rparr>)" "session_ok s (s\<lparr>sm_expected_incoming_seq_num := n\<rparr>)"
    "session_ok s (s\<lparr>sm_pending_test_request_id := i\<rparr>)" "session_ok s (s\<lparr>sm_last_message_received := t\<rparr>)"
    "ss_current_state x = ss_current_state (sm_stats s) \<Longrightarrow> session_ok s (s\<lparr>sm_stats := x\<rparr>)"
  using assms by (simp_all add: session_ok_def session_inv_def gap_ok_def open_gaps_def base_kept_def)

section \<open>Gaps\<close>

lemma addGapEntry_general:
  assumes "gap_inv gm"
  shows "\<exists>gm'. addGapEntry now seq gm = Some gm' \<and> gap_inv gm' \<and> tracked gm \<subseteq> tracked gm' \<and> tracked gm' \<subseteq> insert seq (tracked gm)"
proof (cases "length (entries gm) < gap_room gm")
  case True
  from addGapEntry_spec [OF assms this, of now seq] show ?thesis by (auto simp: requeued_def tracked_def GapQueueEntry_def split: if_splits)
next
  case False
  obtain gm1 where g: "hasGap seq gm = Some (seq \<in> tracked gm, gm1)" "requeued (entries gm) gm gm1"
    using hasGap_spec [OF assms] by blast
  have q: "queue_inv (gm_gap_queue gm1)" "\<not> isShutdown (gm_gap_queue gm1)" "entries gm1 = entries gm" "gap_room gm1 = gap_room gm"
    using g(2) by (simp_all add: requeued_def gap_inv_def)
  from q False g(1) lq.put_laws [OF q(1), of "GapQueueEntry now seq"] show ?thesis
    by (auto simp: addGapEntry_def gap_inv_def tracked_def)
qed

lemma add_gaps_general:
  assumes "gap_inv gm"
  shows "\<exists>gm'. add_gaps now seqs gm = Some gm' \<and> gap_inv gm' \<and> tracked gm \<subseteq> tracked gm' \<and> tracked gm' \<subseteq> tracked gm \<union> set seqs"
  using assms
proof (induction seqs arbitrary: gm)
  case (Cons seq seqs)
  obtain gm1 where 1: "addGapEntry now seq gm = Some gm1" "gap_inv gm1" "tracked gm \<subseteq> tracked gm1" "tracked gm1 \<subseteq> insert seq (tracked gm)"
    using addGapEntry_general [OF Cons.prems] by blast
  obtain gm' where "add_gaps now seqs gm1 = Some gm'" "gap_inv gm'" "tracked gm1 \<subseteq> tracked gm'" "tracked gm' \<subseteq> tracked gm1 \<union> set seqs"
    using Cons.IH [OF 1(2)] by blast
  with 1 show ?case by auto
qed simp

lemma add_gaps_tracked:
  assumes "gap_inv gm" "gaps_distinct gm" "length (entries gm) + length seqs \<le> gap_room gm"
  shows "\<exists>gm'. add_gaps now seqs gm = Some gm' \<and> gap_inv gm' \<and> gaps_distinct gm' \<and> tracked gm' = tracked gm \<union> set seqs"
  using assms
proof (induction seqs arbitrary: gm)
  case (Cons seq seqs)
  then obtain gm1 where "addGapEntry now seq gm = Some gm1" "gap_inv gm1" "gaps_distinct gm1" "tracked gm1 = insert seq (tracked gm)"
    "gap_room gm1 = gap_room gm" "length (entries gm1) \<le> Suc (length (entries gm))"
    using add_tracked [of gm now seq] by auto
  with Cons.IH [of gm1] Cons.prems(3) show ?case by auto
qed simp

section \<open>Every operation keeps the invariant and loses no gap\<close>

text \<open>Messages whose numbers leave room for the increment.\<close>

definition tame_session :: "fix_message \<Rightarrow> bool" where
  "tame_session m \<longleftrightarrow> (\<forall>t \<in> {Tag_MsgSeqNum, Tag_EndSeqNo}. getField_int t m \<noteq> Some INT_MAX)"

lemma tame_sessionD:
  assumes "tame_session m" "getField t m = Some v" "stoi v = Inr n" "t = Tag_MsgSeqNum \<or> t = Tag_EndSeqNo"
  shows "n \<noteq> INT_MAX"
  using assms by (auto simp: tame_session_def getField_int_def)

text \<open>The outcome of an operation, if it has one, is reached from \<open>s\<close> as it should be.\<close>

definition outcome_ok :: "session_manager \<Rightarrow> (bool \<times> session_manager) option \<Rightarrow> bool" where
  "outcome_ok s x \<longleftrightarrow> (case x of None \<Rightarrow> True | Some (r, s') \<Rightarrow> session_ok s s')"

lemma outcome_ok_simps [simp]: "outcome_ok s None" "outcome_ok s (Some p) \<longleftrightarrow> session_ok s (snd p)"
  by (simp_all add: outcome_ok_def split_def)

lemma validateSequenceNumber_ok:
  assumes "session_inv s"
  shows "outcome_ok s (validateSequenceNumber now m s)" "tame_session m \<Longrightarrow> validateSequenceNumber now m s \<noteq> None"
proof -
  have gap: "\<exists>gm'. add_gaps now seqs gm = Some gm' \<and> session_ok s (s\<lparr>sm_gap_manager := Some gm'\<rparr>)"
    if g: "sm_gap_manager s = Some gm" for gm seqs
    using add_gaps_general [of gm now seqs] assms g by (auto simp: session_ok_def session_inv_def gap_ok_def open_gaps_def base_kept_def)
  then have gap': "outcome_ok s (Option.bind (add_gaps now seqs gm) (\<lambda>gm. Some (False, s\<lparr>sm_gap_manager := Some gm\<rparr>)))"
    "add_gaps now seqs gm \<noteq> None" if "sm_gap_manager s = Some gm" for gm seqs
    using gap [OF that, of seqs] by (auto simp: bind_eq_Some_conv)
  show "outcome_ok s (validateSequenceNumber now m s)"
    using assms gap'(1) by (simp add: validateSequenceNumber_def Let_def neutral_ok session_ok_refl split: option.split sum.split)
  show "validateSequenceNumber now m s \<noteq> None" if "tame_session m"
    using tame_sessionD [OF that] gap'(2) by (auto simp: validateSequenceNumber_def Let_def bind_eq_None_conv simp del: not_None_eq split: option.split sum.split)
qed

lemma handleLogon_ok:
  assumes "session_inv s"
  shows "outcome_ok s (handleLogon m s)" "handleLogon m s \<noteq> None"
proof -
  define s1 where "s1 = (case getField Tag_HeartBtInt m of None \<Rightarrow> s | Some str \<Rightarrow>
    (case stoi str of Inl e \<Rightarrow> s | Inr n \<Rightarrow> if n > 0 then s\<lparr>sm_config := (sm_config s)\<lparr>cf_heartbeat_interval := n\<rparr>\<rparr> else s))"
  have 1: "session_ok s s1" using assms by (auto simp: s1_def neutral_ok session_ok_refl split: option.split sum.split)
  then have 2: "session_ok s (updateSessionState LOGGED_ON s1)"
    by (rule session_ok_trans) (use 1 in \<open>simp add: session_ok_def [of s] update_state_ok\<close>)
  then obtain s2 where "startHeartbeatTimer (updateSessionState LOGGED_ON s1) = Some s2" "session_ok (updateSessionState LOGGED_ON s1) s2"
    using start_timer_ok session_ok_def by blast
  with session_ok_trans [OF 2] show "outcome_ok s (handleLogon m s)" "handleLogon m s \<noteq> None" by (simp_all add: handleLogon_def s1_def [symmetric])
qed

lemma handleLogout_ok: "session_inv s \<Longrightarrow> session_ok s (snd (handleLogout sysnow m s))"
proof -
  assume s: "session_inv s"
  let ?s1 = "stopHeartbeatTimer s"
  let ?s2 = "if sm_session_state ?s1 = LOGGED_ON then snd (sendLogout sysnow ''Logout acknowledged'' ?s1) else ?s1"
  have 1: "session_ok s ?s1" using s by (rule stop_timer_ok)
  then have "session_ok ?s1 ?s2" by (simp add: session_ok_def [of s] send_ok session_ok_refl)
  then have 2: "session_ok s ?s2" by (rule session_ok_trans [OF 1])
  then have "session_ok ?s2 (updateSessionState DISCONNECTED ?s2)" by (intro update_state_ok) (simp_all add: session_ok_def [of s])
  from session_ok_trans [OF 2 this] show ?thesis by (simp add: handleLogout_def Let_def)
qed

lemma handleHeartbeat_ok: "session_inv s \<Longrightarrow> session_ok s (snd (handleHeartbeat now m s))"
  by (simp add: handleHeartbeat_def Let_def session_ok_def session_inv_def gap_ok_def open_gaps_def base_kept_def)

lemma handleTestRequest_ok:
  assumes "session_inv s"
  shows "session_ok s (snd (handleTestRequest now sysnow m s))"
proof -
  let ?s = "s\<lparr>sm_stats := (sm_stats s)\<lparr>ss_test_requests_received := ss_test_requests_received (sm_stats s) + 1\<rparr>\<rparr>"
  have 1: "session_ok s ?s" using assms by (simp add: neutral_ok)
  have 2: "session_ok ?s (snd (sendHeartbeat now sysnow i ?s))" for i using 1 by (simp add: session_ok_def [of s] send_ok)
  show ?thesis
    using 1 session_ok_trans [OF 1 2] by (simp add: handleTestRequest_def Let_def split: option.split)
qed

lemma handleResendRequest_ok:
  assumes "session_inv s"
  shows "outcome_ok s (handleResendRequest sysnow m s)" "tame_session m \<Longrightarrow> handleResendRequest sysnow m s \<noteq> None"
proof -
  show "outcome_ok s (handleResendRequest sysnow m s)"
    using assms by (simp add: handleResendRequest_def session_ok_refl send_ok split: option.split sum.split)
  show "handleResendRequest sysnow m s \<noteq> None" if "tame_session m"
    using tame_sessionD [OF that] by (auto simp: handleResendRequest_def split: option.split sum.split)
qed

lemma dispatch_ok:
  assumes "session_inv s"
  shows "outcome_ok s (dispatch now sysnow t m s)" "tame_session m \<Longrightarrow> dispatch now sysnow t m s \<noteq> None"
proof -
  have reset: "session_ok s (snd (handleSequenceReset m s))"
    using assms by (simp add: handleSequenceReset_def neutral_ok session_ok_refl split: option.split sum.split)
  note ok = handleLogon_ok [OF assms, of m] handleResendRequest_ok [OF assms, where sysnow = sysnow and m = m] handleLogout_ok [OF assms]
    handleHeartbeat_ok [OF assms] handleTestRequest_ok [OF assms] reset session_ok_refl [OF assms]
  show "outcome_ok s (dispatch now sysnow t m s)" using ok by (simp add: dispatch_def handleReject_def)
  show "dispatch now sysnow t m s \<noteq> None" if "tame_session m" using ok that by (simp add: dispatch_def del: not_None_eq)
qed

lemma handleMessage_ok:
  assumes "session_inv s"
  shows "outcome_ok s (handleMessage now sysnow (Some m) s)" "tame_session m \<Longrightarrow> handleMessage now sysnow (Some m) s \<noteq> None"
proof -
  let ?s = "s\<lparr>sm_last_message_received := now\<rparr>"
  let ?next = "\<lambda>t (ok, s). if ok then dispatch now sysnow t m s else Some (False, s)"
  have 1: "session_ok s ?s" using assms by (rule neutral_ok)
  then have inv: "session_inv ?s" by (simp add: session_ok_def)
  have lift: "outcome_ok s x" if "outcome_ok s1 x" "session_ok s s1" for s1 x
    using that session_ok_trans by (auto simp: outcome_ok_def split: option.splits)
  have v: "outcome_ok s (Option.bind (validateSequenceNumber now m ?s) (?next t))"
    "tame_session m \<Longrightarrow> Option.bind (validateSequenceNumber now m ?s) (?next t) \<noteq> None" for t
  proof (atomize (full), cases "validateSequenceNumber now m ?s")
    case None
    with validateSequenceNumber_ok(2) [OF inv, of m now] show "outcome_ok s (Option.bind (validateSequenceNumber now m ?s) (?next t))
      \<and> (tame_session m \<longrightarrow> Option.bind (validateSequenceNumber now m ?s) (?next t) \<noteq> None)" by auto
  next
    case (Some p)
    then have p: "session_ok ?s (snd p)" using validateSequenceNumber_ok(1) [OF inv, of now m] by simp
    then have p1: "session_ok s (snd p)" "session_inv (snd p)" using session_ok_trans [OF 1 p] by (simp_all add: session_ok_def)
    from lift [OF dispatch_ok(1) [OF p1(2)] p1(1)] dispatch_ok(2) [OF p1(2)] p1(1) Some
    show "outcome_ok s (Option.bind (validateSequenceNumber now m ?s) (?next t))
      \<and> (tame_session m \<longrightarrow> Option.bind (validateSequenceNumber now m ?s) (?next t) \<noteq> None)"
      by (simp add: split_def del: not_None_eq)
  qed
  show "outcome_ok s (handleMessage now sysnow (Some m) s)"
    using 1 v(1) lift [OF dispatch_ok(1) [OF inv] 1] by (simp add: handleMessage_def Let_def split: option.split)
  show "handleMessage now sysnow (Some m) s \<noteq> None" if "tame_session m"
    using v(2) dispatch_ok(2) [OF inv] that by (simp add: handleMessage_def Let_def split: option.split del: not_None_eq)
qed

section \<open>Runs\<close>

inductive session_step :: "session_manager \<Rightarrow> session_manager \<Rightarrow> bool" where
  start: "session_start now s = Some s' \<Longrightarrow> session_step s s'"
| stop: "session_step s (session_stop s)"
| logon: "session_step s (snd (initiateLogon sysnow s))"
| logout: "session_step s (snd (initiateLogout sysnow reason s))"
| handle: "handleMessage now sysnow (Some m) s = Some (r, s') \<Longrightarrow> session_step s s'"
| process: "processMessage now (session_handler sys) isMessageSupported message s = Some (r, s') \<Longrightarrow> session_step s s'"
| tick: "heartbeat_tick now sysnow s = Some s' \<Longrightarrow> session_step s s'"
| interval: "session_step s (updateHeartbeatInterval seconds s)"
| numbers: "session_step s (setSequenceNumbers incoming outgoing s)"
| pool: "session_step s (setMessagePool p s)"
| inbound: "session_step s (setInboundQueue q s)"
| outbound: "session_step s (setOutboundQueues qs s)"

inductive_cases session_stepE: "session_step s s'"

definition carries_on :: "session_manager \<Rightarrow> session_manager \<Rightarrow> bool" where
  "carries_on s s' \<longleftrightarrow> session_inv s' \<and> open_gaps s \<subseteq> open_gaps s'"

lemma carries_onI: "session_ok s s' \<Longrightarrow> carries_on s s'"
  by (simp add: session_ok_def carries_on_def)

lemma carries_on_trans: "carries_on s s' \<Longrightarrow> carries_on s' s'' \<Longrightarrow> carries_on s s''"
  by (auto simp: carries_on_def)

lemma gap_flag [simp]:
  "gap_inv (gap_stop gm) = gap_inv gm" "tracked (gap_stop gm) = tracked gm"
  by (simp_all add: gap_stop_def gap_inv_def tracked_def)

lemma gap_start_kept: "gap_start gm = Some gm' \<Longrightarrow> gap_inv gm' = gap_inv gm \<and> tracked gm' = tracked gm \<and> gm_thread_joinable gm'"
  by (auto simp: gap_start_def Let_def gap_inv_def tracked_def split: if_splits)

lemma inbound_start_frame [simp]:
  "sm_gap_manager (inbound_start s) = sm_gap_manager s" "sm_stats (inbound_start s) = sm_stats s" "sm_session_state (inbound_start s) = sm_session_state s"
  "sm_heartbeat_timer_running (inbound_start s) = sm_heartbeat_timer_running s" "sm_heartbeat_thread (inbound_start s) = sm_heartbeat_thread s"
  by (simp_all add: inbound_start_def)

lemma session_start_ok:
  assumes "session_inv s" "session_start now s = Some s'"
  shows "carries_on s s'"
proof (cases "sm_gap_manager s")
  case None
  with assms(2) have "s' = (inbound_start s)\<lparr>sm_stats := (sm_stats s)\<lparr>ss_session_start_time := now\<rparr>\<rparr>"
    by (simp add: session_start_def Let_def)
  with assms(1) show ?thesis by (simp add: carries_on_def session_inv_def gap_ok_def open_gaps_def)
next
  case (Some gm)
  with assms(2) obtain gm' where g: "gap_start gm = Some gm'"
    "s' = (inbound_start s)\<lparr>sm_gap_manager := Some gm', sm_stats := (sm_stats s)\<lparr>ss_session_start_time := now\<rparr>\<rparr>"
    by (auto simp: session_start_def Let_def)
  with assms(1) Some gap_start_kept [OF g(1)] show ?thesis
    by (simp add: carries_on_def session_inv_def gap_ok_def open_gaps_def)
qed

text \<open>A session that has been started can not be started again before it is stopped: the second call ends the program.\<close>

lemma session_start_twice:
  assumes "session_start now s = Some s'" "sm_gap_manager s \<noteq> None"
  shows "session_start now' s' = None"
proof -
  obtain gm gm' where g: "gap_start gm = Some gm'" "sm_gap_manager s' = Some gm'"
    using assms by (auto simp: session_start_def Let_def)
  then have "gm_thread_joinable gm'" using gap_start_kept by blast
  with g(2) show ?thesis by (simp add: session_start_def gap_start_def Let_def)
qed

lemma session_stop_ok:
  assumes "session_inv s"
  shows "carries_on s (session_stop s)"
proof -
  let ?s = "updateSessionState DISCONNECTED (stopHeartbeatTimer s)"
  have 1: "session_ok s (stopHeartbeatTimer s)" using assms by (rule stop_timer_ok)
  then have "session_ok s ?s" by (rule session_ok_trans) (use 1 in \<open>simp add: session_ok_def [of s] update_state_ok\<close>)
  then have "carries_on s ?s" by (rule carries_onI)
  then show ?thesis
    by (simp add: session_stop_def Let_def inbound_stop_def carries_on_def session_inv_def gap_ok_def open_gaps_def split: option.split_asm)
qed

lemma initiateLogon_ok:
  assumes "session_inv s"
  shows "session_ok s (snd (initiateLogon sysnow s))"
proof (cases "sm_session_state s = DISCONNECTED")
  case False
  with assms show ?thesis by (simp add: initiateLogon_def session_ok_refl)
next
  case True
  let ?s1 = "updateSessionState LOGON_SENT s"
  obtain ok s2 where s2: "sendLogon sysnow ?s1 = (ok, s2)" by (cases "sendLogon sysnow ?s1")
  have 1: "session_ok s ?s1" using assms by (simp add: update_state_ok)
  then have "session_ok ?s1 s2" using send_ok [of ?s1 s2] send_kept_sends(1) [of ?s1 sysnow] s2 by (simp add: session_ok_def [of s])
  then have 2: "session_ok s s2" by (rule session_ok_trans [OF 1])
  then have "session_ok s2 (s2\<lparr>sm_stats := (sm_stats s2)\<lparr>ss_logons_sent := n\<rparr>\<rparr>)" "session_ok s2 (updateSessionState DISCONNECTED s2)" for n
    by (simp_all add: session_ok_def [of s] neutral_ok update_state_ok)
  from this [THEN session_ok_trans [OF 2]] True s2 show ?thesis by (simp add: initiateLogon_def Let_def)
qed

lemma initiateLogout_ok:
  assumes "session_inv s"
  shows "session_ok s (snd (initiateLogout sysnow reason s))"
proof (cases "sm_session_state s \<noteq> LOGGED_ON \<and> sm_session_state s \<noteq> LOGON_SENT")
  case True
  with assms show ?thesis by (simp add: initiateLogout_def session_ok_refl)
next
  case False
  let ?s1 = "updateSessionState LOGOUT_SENT s"
  obtain ok s2 where s2: "sendLogout sysnow reason ?s1 = (ok, s2)" by (cases "sendLogout sysnow reason ?s1")
  have 1: "session_ok s ?s1" using assms by (simp add: update_state_ok)
  then have "session_ok ?s1 s2" using send_ok [of ?s1 s2] send_kept_sends(2) [of ?s1 sysnow reason] s2 by (simp add: session_ok_def [of s])
  then have 2: "session_ok s s2" by (rule session_ok_trans [OF 1])
  then have "session_ok s2 (s2\<lparr>sm_stats := (sm_stats s2)\<lparr>ss_logouts_sent := n\<rparr>\<rparr>)" for n
    by (simp add: session_ok_def [of s] neutral_ok)
  from session_ok_trans [OF 2 this] 2 False s2 show ?thesis by (auto simp: initiateLogout_def Let_def)
qed

lemma heartbeat_tick_ok:
  assumes "session_inv s" "heartbeat_tick now sysnow s = Some s'"
  shows "carries_on s s'"
proof -
  define s1 where "s1 = (if shouldSendHeartbeat now s then snd (sendHeartbeat now sysnow [] s) else s)"
  have 1: "session_ok s s1" using assms(1) by (simp add: s1_def session_ok_refl send_ok)
  have "session_ok s1 (snd (sendTestRequest now sysnow s1))" using 1 by (intro send_ok) (auto simp: session_ok_def [of s])
  then have 2: "session_ok s (snd (sendTestRequest now sysnow s1))" by (rule session_ok_trans [OF 1])
  have 3: "carries_on s (s\<lparr>sm_heartbeat_thread := Returned\<rparr>)" if "sm_heartbeat_thread s = Looping"
    using assms(1) that by (simp add: carries_on_def session_inv_def gap_ok_def open_gaps_def)
  consider "s' = s" | "sm_heartbeat_thread s = Looping" "s' = s\<lparr>sm_heartbeat_thread := Returned\<rparr>" | "s' = s1" | "s' = snd (sendTestRequest now sysnow s1)"
    using assms(2) unfolding heartbeat_tick_def Let_def s1_def [symmetric] by (auto split: if_splits option.splits)
  then show ?thesis
    by cases (use 1 2 3 assms(1) in \<open>simp_all add: carries_onI session_ok_refl\<close>)
qed

lemma processMessage_session_ok:
  assumes "session_inv s" "processMessage now (session_handler sys) isMessageSupported message s = Some (r, s')"
  shows "carries_on s s'"
proof (cases message)
  case None
  with assms show ?thesis by (simp add: processMessage_def carries_on_def)
next
  case (Some m)
  let ?s = "s\<lparr>im_stats := (im_stats s)\<lparr>st_last_message_time := now\<rparr>, im_processing_start_time := now\<rparr>"
  note defs = carries_on_def session_inv_def gap_ok_def open_gaps_def inbound_updateStats_def count_processed_def count_error_def
  have 1: "carries_on s ?s" using assms(1) by (simp add: defs)
  have stats: "carries_on s (inbound_updateStats t x)" "carries_on s (inbound_updateStats t (count_processed x))"
    "carries_on s (inbound_updateStats t (count_error x))" if "carries_on s x" for t x
    using that by (simp_all add: defs)
  show ?thesis
  proof (cases "session_handler sys now m ?s")
    case None
    then show ?thesis using assms(2) Some stats(1) [OF 1] by (auto simp: processMessage_def Let_def split: if_splits)
  next
    case h: (Some p)
    obtain e s1 where p: "p = (e, s1)" by (cases p)
    with h obtain r1 where "handleMessage now (sys now) (Some m) ?s = Some (r1, s1)" by (auto simp: session_handler_def)
    with handleMessage_ok(1) [of ?s now "sys now" m] 1 have "session_ok ?s s1" by (simp add: carries_on_def)
    then have "carries_on s s1" using 1 carries_on_trans carries_onI by blast
    then show ?thesis
      using assms(2) Some h p stats [OF 1] stats [of s1]
      by (auto simp: processMessage_def Let_def split: if_splits sum.splits bool.splits)
  qed
qed

lemma session_step_ok:
  assumes "session_step s s'" "session_inv s"
  shows "carries_on s s'"
  using assms
proof (cases rule: session_step.cases)
  case (handle now sysnow m r)
  with handleMessage_ok(1) [OF assms(2), of now sysnow m] show ?thesis by (simp add: carries_onI)
next
  case (start now)
  with assms(2) show ?thesis by (rule session_start_ok)
qed (use assms(2) in \<open>simp_all add: session_stop_ok initiateLogon_ok initiateLogout_ok heartbeat_tick_ok processMessage_session_ok
  carries_onI updateHeartbeatInterval_def neutral_ok\<close>,
  simp_all add: setSequenceNumbers_def setMessagePool_def setInboundQueue_def setOutboundQueues_def carries_on_def session_inv_def gap_ok_def open_gaps_def)

lemma session_run_ok:
  assumes "session_step\<^sup>*\<^sup>* s s'" "session_inv s"
  shows "carries_on s s'"
  using assms
proof (induction rule: rtranclp_induct)
  case (step y z)
  then show ?case using carries_on_trans session_step_ok by (metis carries_on_def)
qed (simp add: carries_on_def)

lemma new_session_inv:
  assumes "g = None \<or> (\<exists>gm. g = Some gm \<and> gap_inv gm)"
  shows "session_inv (new_session cfg g)"
  using assms by (auto simp: session_inv_def gap_ok_def new_session_def inbound_manager.defs session_manager.defs new_inbound_manager_def zero_session_stats_def)

text \<open>C9: In every state that a session manager can reach through its operations, the session is in one of the four states DISCONNECTED, LOGON\_SENT,
  LOGGED\_ON and LOGOUT\_SENT and its statistics report that state, the timer flag says whether there is a timer thread to join, and a
  message whose numbers are below the largest \<open>int\<close> is always handled with a defined result. CONNECTING and DISCONNECTING are never
  entered. A second start without a stop, which ends the program, is not a step.\<close>

theorem session_reachable:
  assumes "session_step\<^sup>*\<^sup>* (new_session cfg g) s" "g = None \<or> (\<exists>gm. g = Some gm \<and> gap_inv gm)"
  shows "sm_session_state s \<in> {DISCONNECTED, LOGON_SENT, LOGGED_ON, LOGOUT_SENT}
    \<and> ss_current_state (sm_stats s) = sm_session_state s
    \<and> (sm_heartbeat_timer_running s \<longleftrightarrow> sm_heartbeat_thread s \<noteq> No_Thread)
    \<and> (tame_session m \<longrightarrow> handleMessage now sysnow (Some m) s \<noteq> None)"
proof -
  have "session_inv (new_session cfg g)" using assms(2) by (rule new_session_inv)
  with session_run_ok [OF assms(1)] have inv: "session_inv s" by (simp add: carries_on_def)
  moreover from inv have "sm_session_state s \<in> {DISCONNECTED, LOGON_SENT, LOGGED_ON, LOGOUT_SENT}"
    by (cases "sm_session_state s") (simp_all add: session_inv_def)
  ultimately show ?thesis using handleMessage_ok(2) [OF inv] by (auto simp: session_inv_def)
qed

definition demo_config :: session_config where
  "demo_config = SessionConfig ''CLIENT'' ''BROKER''"

lemma session_reachable_witness:
  "\<exists>s m. session_step\<^sup>*\<^sup>* (new_session demo_config None) s \<and> tame_session m \<and> sm_session_state s = LOGGED_ON
     \<and> handleMessage 1 1 (Some m) s \<noteq> None"
proof -
  let ?m = "setField Tag_MsgSeqNum ''1'' (setField Tag_TargetCompID ''CLIENT'' (setField Tag_SenderCompID ''BROKER'' (setField Tag_MsgType ''A'' empty_message)))"
  have "map_option (\<lambda>p. (fst p, sm_session_state (snd p))) (handleMessage 1 1 (Some ?m) (new_session demo_config None)) = Some (True, LOGGED_ON)"
    by code_simp
  then obtain s where h: "handleMessage 1 1 (Some ?m) (new_session demo_config None) = Some (True, s)" "sm_session_state s = LOGGED_ON" by auto
  have step: "session_step\<^sup>*\<^sup>* (new_session demo_config None) s" by (rule r_into_rtranclp) (rule session_step.handle [OF h(1)])
  have t: "tame_session ?m" by code_simp
  from session_reachable [OF step, of ?m 1 1] t h(2) show ?thesis using step by blast
qed

text \<open>C35: The session manager never tells the gap manager that a gap is filled: through any sequence of its operations, whatever messages
  arrive, no missing sequence number is ever taken off the list. Only the gap manager's own retries remove it.\<close>

theorem gaps_never_resolved:
  assumes "session_inv s" "session_step\<^sup>*\<^sup>* s s'"
  shows "open_gaps s \<subseteq> open_gaps s'"
  using session_run_ok [OF assms(2,1)] by (simp add: carries_on_def)

end
