(* ===== verification/Session_Messages.thy ===== *)
theory Session_Messages
  imports Session_Properties
begin

text \<open>
  What the session manager does with numbered messages and what it sends: sequence number checking with the gap manager, the
  messages that reach the outbound queues, and the accounting of the polling loop for its handler.
\<close>

section \<open>Sequence numbers\<close>

text \<open>C10: Which messages pass the check of their sequence number. A message without a readable number is refused. A numbered message is accepted exactly when it
  has the expected number or is marked as a possible duplicate. An expected message, and a marked one that is ahead, set the
  expected number to its successor, for which the number has to be below the largest \<open>int\<close>; every other message leaves it unchanged. An
  unmarked message that is ahead is refused and its skipped numbers are reported to the gap manager, if there is one: none that is already tracked is
  lost, no other numbers are added, and all skipped ones are tracked when the gap queue has room for them. The text
  docs/SEQ\_NUM\_GAP\_HANDLING\_DESIGN.md has a message that is ahead processed and counted as expected; the code does neither.\<close>

theorem validateSequenceNumber_spec:
  assumes "gap_ok s" "getField_int Tag_MsgSeqNum m \<noteq> Some INT_MAX"
  shows "case getField_int Tag_MsgSeqNum m of
      None \<Rightarrow> validateSequenceNumber now m s = Some (False, s)
    | Some n \<Rightarrow>
        let e = sm_expected_incoming_seq_num s; skipped = (if is_resend m then {} else {e ..< n})
        in \<exists>g. validateSequenceNumber now m s =
             Some (n = e \<or> is_resend m,
                   s\<lparr>sm_expected_incoming_seq_num := (if n = e \<or> (n > e \<and> is_resend m) then n + 1 else e), sm_gap_manager := g\<rparr>)
           \<and> (case sm_gap_manager s of
                None \<Rightarrow> g = None
              | Some gm \<Rightarrow> \<exists>gm'. g = Some gm' \<and> gap_inv gm' \<and> tracked gm \<subseteq> tracked gm' \<and> tracked gm' \<subseteq> tracked gm \<union> skipped
                  \<and> (gaps_distinct gm \<and> length (entries gm) + card skipped \<le> gap_room gm \<longrightarrow> tracked gm' = tracked gm \<union> skipped))"
proof (cases "getField_int Tag_MsgSeqNum m")
  case None
  then show ?thesis by (auto simp: validateSequenceNumber_def getField_int_def split: option.splits sum.splits)
next
  case (Some n)
  let ?e = "sm_expected_incoming_seq_num s"
  let ?upd = "\<lambda>k g. s\<lparr>sm_expected_incoming_seq_num := k, sm_gap_manager := g\<rparr>"
  obtain str where m: "getField Tag_MsgSeqNum m = Some str" "stoi str = Inr n" "n \<noteq> INT_MAX"
    using Some assms(2) by (auto simp: getField_int_def split: option.splits sum.splits)
  have same: "?upd ?e g = s\<lparr>sm_gap_manager := g\<rparr>" "?upd k (sm_gap_manager s) = s\<lparr>sm_expected_incoming_seq_num := k\<rparr>" "s\<lparr>sm_gap_manager := sm_gap_manager s\<rparr> = s" for k g
    by simp_all
  show ?thesis
  proof (cases "n > ?e \<and> \<not> is_resend m \<and> sm_gap_manager s \<noteq> None")
    case True
    then obtain gm where gm: "sm_gap_manager s = Some gm" "gap_inv gm" using assms(1) by (auto simp: gap_ok_def)
    have set: "set [?e .. n - 1] = {?e ..< n}" "length [?e .. n - 1] = card {?e ..< n}" by auto
    obtain gm' where g: "add_gaps now [?e .. n - 1] gm = Some gm'" "gap_inv gm'" "tracked gm \<subseteq> tracked gm'" "tracked gm' \<subseteq> tracked gm \<union> {?e ..< n}"
      using add_gaps_general [OF gm(2), of now "[?e .. n - 1]"] set(1) by auto
    moreover have "tracked gm' = tracked gm \<union> {?e ..< n}" if "gaps_distinct gm" "length (entries gm) + card {?e ..< n} \<le> gap_room gm"
      using add_gaps_tracked [OF gm(2) that(1), of "[?e .. n - 1]" now] that(2) g(1) set by auto
    moreover have "validateSequenceNumber now m s = Some (False, ?upd ?e (Some gm'))"
      unfolding same(1) using True m gm(1) g(1) by (simp add: validateSequenceNumber_def)
    ultimately show ?thesis unfolding Some option.case Let_def using True gm(1) by (intro exI [of _ "Some gm'"]) simp
  next
    case False
    let ?k = "if n = ?e \<or> (n > ?e \<and> is_resend m) then n + 1 else ?e"
    have "validateSequenceNumber now m s = Some (n = ?e \<or> is_resend m, ?upd ?k (sm_gap_manager s))"
      unfolding same(2) using m False by (auto simp: validateSequenceNumber_def Let_def)
    moreover have "is_resend m \<or> {?e ..< n} = {} \<or> sm_gap_manager s = None" using False by auto
    ultimately show ?thesis unfolding Some option.case Let_def
      by (intro exI [of _ "sm_gap_manager s"]) (use assms(1) in \<open>auto simp: gap_ok_def split: option.split\<close>)
  qed
qed

definition numbered :: "string \<Rightarrow> string \<Rightarrow> fix_message" where
  "numbered t n = setField Tag_MsgSeqNum n (setField Tag_TargetCompID ''CLIENT'' (setField Tag_SenderCompID ''BROKER'' (setField Tag_MsgType t empty_message)))"

lemma numbered_fields:
  "getField Tag_MsgSeqNum (numbered t n) = Some n" "getField Tag_MsgType (numbered t n) = Some t" "getField Tag_SenderCompID (numbered t n) = Some ''BROKER''"
  "getField Tag_TargetCompID (numbered t n) = Some ''CLIENT''" "\<not> is_resend (numbered t n)" "getField Tag_TestReqID (numbered t n) = None"
  by (simp_all add: numbered_def is_resend_def getField_setField tag_defs) (simp_all add: getField_def empty_message_def)

lemma validateSequenceNumber_spec_witness:
  "\<exists>gm gm'. validateSequenceNumber 5 (numbered ''0'' ''4'') (new_session demo_config (Some gm)) = Some (False, new_session demo_config (Some gm'))
     \<and> tracked gm' = {1, 2, 3}"
proof -
  obtain gm where g: "gap_inv gm" "entries gm = []" "gap_room gm = 1023" using demo_gaps [of "[]" undefined "SessionContext [] []" "[]"] by auto
  let ?s = "new_session demo_config (Some gm)"
  have s: "sm_gap_manager ?s = Some gm" "sm_expected_incoming_seq_num ?s = 1"
    by (simp_all add: new_session_def inbound_manager.defs session_manager.defs new_inbound_manager_def)
  have up: "?s\<lparr>sm_expected_incoming_seq_num := 1, sm_gap_manager := Some gm'\<rparr> = new_session demo_config (Some gm')" for gm'
    by (simp add: new_session_def inbound_manager.defs session_manager.defs new_inbound_manager_def)
  have "stoi ''4'' = Inr 4" by code_simp
  then have n: "getField_int Tag_MsgSeqNum (numbered ''0'' ''4'') = Some 4" by (simp add: getField_int_def numbered_fields)
  have "gap_ok ?s" "getField_int Tag_MsgSeqNum (numbered ''0'' ''4'') \<noteq> Some INT_MAX" using g(1) s(1) n by (simp_all add: gap_ok_def INT_MAX_def)
  from validateSequenceNumber_spec [OF this, of 5] n g s(1,2) have
    "\<exists>gm'. validateSequenceNumber 5 (numbered ''0'' ''4'') ?s = Some (False, new_session demo_config (Some gm')) \<and> tracked gm' = tracked gm \<union> {1 ..< 4}"
    by (auto simp: Let_def numbered_fields up gaps_distinct_def)
  moreover have "tracked gm \<union> {1 ..< 4} = {1, 2, 3}" using g(2) by (auto simp: tracked_def)
  ultimately show ?thesis by auto
qed

lemma heartbeat_in_order:
  assumes "sm_config s = demo_config" "stoi str = Inr (sm_expected_incoming_seq_num s)" "sm_expected_incoming_seq_num s \<noteq> INT_MAX"
  shows "\<exists>s'. handleMessage now sysnow (Some (numbered ''0'' str)) s = Some (True, s') \<and> sm_config s' = demo_config
    \<and> sm_expected_incoming_seq_num s' = sm_expected_incoming_seq_num s + 1"
  using assms
  by (simp add: handleMessage_def numbered_fields validateSessionMessage_def isValidSenderCompId_def isValidTargetCompId_def validateSequenceNumber_def
      dispatch_def handleHeartbeat_def Let_def) (simp add: demo_config_def SessionConfig_def)

lemma gaps_never_resolved_witness:
  "\<exists>s s1 s2. open_gaps s = {3, 4} \<and> handleMessage 1 1 (Some (numbered ''0'' ''3'')) s = Some (True, s1)
     \<and> handleMessage 2 2 (Some (numbered ''0'' ''4'')) s1 = Some (True, s2) \<and> sm_expected_incoming_seq_num s2 = 5 \<and> {3, 4} \<subseteq> open_gaps s2"
proof -
  let ?es = "[GapQueueEntry 5 3, GapQueueEntry 6 4]"
  obtain gm where g: "gap_inv gm" "entries gm = ?es" using demo_gaps [of ?es undefined "SessionContext [] []" "[]"] by auto
  have n: "stoi ''3'' = Inr 3" "stoi ''4'' = Inr 4" by code_simp+
  define s where "s = setSequenceNumbers 3 1 (new_session demo_config (Some gm))"
  have s: "sm_config s = demo_config" "sm_expected_incoming_seq_num s = 3" "sm_gap_manager s = Some gm"
    by (simp_all add: s_def setSequenceNumbers_def new_session_def inbound_manager.defs session_manager.defs new_inbound_manager_def)
  have gaps: "open_gaps s = {3, 4}" by (simp add: open_gaps_def s tracked_def g(2) GapQueueEntry_def)
  obtain s1 where h1: "handleMessage 1 1 (Some (numbered ''0'' ''3'')) s = Some (True, s1)" "sm_config s1 = demo_config"
    "sm_expected_incoming_seq_num s1 = 4" using heartbeat_in_order [OF s(1), of "''3''"] n by (auto simp: s INT_MAX_def)
  obtain s2 where h2: "handleMessage 2 2 (Some (numbered ''0'' ''4'')) s1 = Some (True, s2)" "sm_expected_incoming_seq_num s2 = 5"
    using heartbeat_in_order [OF h1(2), of "''4''"] n by (auto simp: h1 INT_MAX_def)
  have inv: "session_inv s"
    using new_session_inv [of "Some gm" demo_config] g(1) by (simp add: s_def setSequenceNumbers_def session_inv_def gap_ok_def)
  have "session_step\<^sup>*\<^sup>* s s2"
    using session_step.handle [OF h1(1)] session_step.handle [OF h2(1)] by (meson converse_rtranclp_into_rtranclp rtranclp.rtrancl_refl)
  from gaps_never_resolved [OF inv this] gaps h1(1) h2 show ?thesis by (intro exI [of _ s] exI [of _ s1] exI [of _ s2]) simp
qed

section \<open>Messages sent\<close>

definition session_heap :: "session_manager \<Rightarrow> addr \<rightharpoonup> fix_message" where
  "session_heap s = (case sm_message_pool s of None \<Rightarrow> Map.empty | Some pool \<Rightarrow> pool_heap pool)"

definition outbound :: "priority \<Rightarrow> session_manager \<Rightarrow> addr list" where
  "outbound pr s = (case im_outbound_queues s of None \<Rightarrow> [] | Some qs \<Rightarrow> contents (getQueue pr qs))"

text \<open>A pool with a free slot and an open queue with room are connected.\<close>

definition ready :: "priority \<Rightarrow> session_manager \<Rightarrow> bool" where
  "ready pr s \<longleftrightarrow> (\<exists>pool qs. sm_message_pool s = Some pool \<and> im_outbound_queues s = Some qs \<and> pool_inv pool \<and> \<not> p_shutdown pool
     \<and> card (dom (pool_heap pool)) < unat (p_size pool) \<and> container_inv qs \<and> \<not> isShutdown (getQueue pr qs)
     \<and> length (contents (getQueue pr qs)) < usable (getQueue pr qs))"

text \<open>One new message, at the end of one outbound queue, and nothing else changes in the pool and the queues.\<close>

definition sent :: "priority \<Rightarrow> fix_message \<Rightarrow> session_manager \<Rightarrow> session_manager \<Rightarrow> bool" where
  "sent pr m s s' \<longleftrightarrow> (\<exists>a. a \<notin> dom (session_heap s) \<and> session_heap s' = (session_heap s)(a \<mapsto> m) \<and> outbound pr s' = outbound pr s @ [a])
     \<and> (\<forall>pr'. pr' \<noteq> pr \<longrightarrow> outbound pr' s' = outbound pr' s)"

lemma send_created_ok:
  assumes "ready pr s"
  shows "\<exists>s'. send_created (create_message sysnow t f s) pr g = (True, g s')
    \<and> sent pr (f (session_header sysnow (sm_config s) t (wrap_int32 (sm_outgoing_seq_num s + 1)) (new_FixMessage sysnow))) s s'
    \<and> sm_outgoing_seq_num s' = wrap_int32 (sm_outgoing_seq_num s + 1) \<and> send_kept s s' \<and> sm_stats s' = sm_stats s"
proof -
  obtain pool qs where r: "sm_message_pool s = Some pool" "im_outbound_queues s = Some qs" "pool_inv pool" "\<not> p_shutdown pool"
    "card (dom (pool_heap pool)) < unat (p_size pool)" "container_inv qs" "\<not> isShutdown (getQueue pr qs)"
    "length (contents (getQueue pr qs)) < usable (getQueue pr qs)"
    using assms by (auto simp: ready_def)
  let ?m = "new_FixMessage sysnow" and ?n = "wrap_int32 (sm_outgoing_seq_num s + 1)"
  let ?f = "\<lambda>m. f (session_header sysnow (sm_config s) t ?n m)"
  obtain a p1 where al: "allocate ?m pool = (a, p1)" by (cases "allocate ?m pool")
  note laws = allocate_laws [OF r(3), of ?m, unfolded al fst_conv snd_conv]
  have a: "a \<noteq> 0" using laws(4) r(4,5) by simp
  note mlaws = modify_at_laws [OF laws(1), of a ?f]
  have heap: "pool_heap (modify_at a ?f p1) = (pool_heap pool)(a \<mapsto> ?f ?m)" using mlaws(2) laws(6) a by simp
  define s1 where "s1 = s\<lparr>sm_outgoing_seq_num := ?n, sm_message_pool := Some (modify_at a ?f p1)\<rparr>"
  have create: "create_message sysnow t f s = (a, s1)"
    using a by (simp add: create_message_def r(1) al getNextOutgoingSeqNum_def Let_def s1_def)
  note plaws = push_to_laws [OF r(6), where pr = pr and a = a]
  have q: "queue_inv (getQueue pr qs)" by (rule container_inv_queue [OF r(6)])
  have ok: "fst (push_to pr a qs)" using lq.put_ok [OF q, of a] r(7,8) plaws(4) by simp
  define s' where "s' = s1\<lparr>im_outbound_queues := Some (snd (push_to pr a qs)), im_stats := count_routed pr (im_stats s1)\<rparr>"
  have route: "routeToOutbound a pr s1 = (True, s')"
    using ok a r(2) by (simp add: routeToOutbound_def s'_def s1_def split_def Let_def)
  have cont: "outbound pr s' = outbound pr s @ [a]"
    using lq.put_cont [OF q, of a] ok plaws(3,4) r(2) by (simp add: outbound_def s'_def)
  have other: "outbound pr' s' = outbound pr' s" if "pr' \<noteq> pr" for pr'
    using that plaws(3) r(2) by (simp add: outbound_def s'_def)
  have kept: "send_kept s s'"
    using send_kept_trans [OF create_message_kept [of s sysnow t f] routeToOutbound_kept [of _ a pr]] by (simp add: create route)
  have "session_heap s' = (session_heap s)(a \<mapsto> ?f ?m)" using heap r(1) by (simp add: session_heap_def s'_def s1_def)
  then have "sent pr (?f ?m) s s'" using laws(5) a cont other r(1) by (auto simp: sent_def session_heap_def)
  moreover have "send_created (create_message sysnow t f s) pr g = (True, g s')" using a create route by (simp add: send_created_def)
  moreover have "sm_outgoing_seq_num s' = ?n" "sm_stats s' = sm_stats s" by (simp_all add: s'_def s1_def)
  ultimately show ?thesis using kept by blast
qed

lemma session_header_fields:
  "getField Tag_MsgType (session_header sysnow cfg t n m) = Some t"
  "getField Tag_MsgSeqNum (session_header sysnow cfg t n m) = Some (to_string_int n)"
  "getField Tag_SenderCompID (session_header sysnow cfg t n m) = Some (cf_sender_comp_id cfg)"
  "getField Tag_TargetCompID (session_header sysnow cfg t n m) = Some (cf_target_comp_id cfg)"
  by (simp_all add: session_header_def Let_def getField_setField tag_defs)

text \<open>A message with the header of session \<open>s\<close> and the next outgoing number.\<close>

definition from_session :: "session_manager \<Rightarrow> string \<Rightarrow> fix_message \<Rightarrow> bool" where
  "from_session s t m \<longleftrightarrow> getField Tag_MsgType m = Some t \<and> getField Tag_MsgSeqNum m = Some (to_string_int (wrap_int32 (sm_outgoing_seq_num s + 1)))
     \<and> getField Tag_SenderCompID m = Some (cf_sender_comp_id (sm_config s)) \<and> getField Tag_TargetCompID m = Some (cf_target_comp_id (sm_config s))"

text \<open>C24: A TestRequest with the expected number from the right counterparty is answered at once: exactly one new message is put on an outbound
  queue, at the end of the HIGH queue, and it is a Heartbeat with the received TestReqID, the next outgoing number and the session's
  identifiers. Both sequence numbers advance by one and the session state is unchanged.\<close>

theorem testRequest_answered:
  assumes "ready HIGH s" "getField Tag_MsgType m = Some ''1''" "getField Tag_TestReqID m = Some i" "i \<noteq> []"
    and "validateSessionMessage m s" "getField_int Tag_MsgSeqNum m = Some (sm_expected_incoming_seq_num s)" "sm_expected_incoming_seq_num s < INT_MAX"
    and "cf_validate_sequence_numbers (sm_config s)"
  shows "\<exists>reply s'. handleMessage now sysnow (Some m) s = Some (True, s') \<and> sent HIGH reply s s'
    \<and> from_session s ''0'' reply \<and> getField Tag_TestReqID reply = Some i
    \<and> sm_expected_incoming_seq_num s' = sm_expected_incoming_seq_num s + 1
    \<and> sm_outgoing_seq_num s' = wrap_int32 (sm_outgoing_seq_num s + 1) \<and> sm_session_state s' = sm_session_state s"
proof -
  define s0 where "s0 = s\<lparr>sm_last_message_received := now, sm_expected_incoming_seq_num := sm_expected_incoming_seq_num s + 1,
    sm_stats := (sm_stats s)\<lparr>ss_test_requests_received := ss_test_requests_received (sm_stats s) + 1\<rparr>\<rparr>"
  let ?f = "\<lambda>msg. if i \<noteq> [] then setField Tag_TestReqID i msg else msg"
  let ?g = "\<lambda>s. s\<lparr>sm_stats := (sm_stats s)\<lparr>ss_heartbeats_sent := ss_heartbeats_sent (sm_stats s) + 1\<rparr>, sm_last_heartbeat_sent := now\<rparr>"
  let ?reply = "?f (session_header sysnow (sm_config s0) ''0'' (wrap_int32 (sm_outgoing_seq_num s0 + 1)) (new_FixMessage sysnow))"
  have "ready HIGH s0" using assms(1) by (simp add: ready_def s0_def)
  from send_created_ok [OF this, where sysnow = sysnow and t = "''0''" and f = ?f and g = ?g]
  obtain s' where c: "send_created (create_message sysnow ''0'' ?f s0) HIGH ?g = (True, ?g s')" "sent HIGH ?reply s0 s'"
    "sm_outgoing_seq_num s' = wrap_int32 (sm_outgoing_seq_num s0 + 1)" "send_kept s0 s'" by blast
  obtain str where n: "getField Tag_MsgSeqNum m = Some str" "stoi str = Inr (sm_expected_incoming_seq_num s)"
    using assms(6) by (auto simp: getField_int_def split: option.splits sum.splits)
  have v: "validateSessionMessage m (s\<lparr>sm_last_message_received := now\<rparr>)"
    using assms(5) by (simp add: validateSessionMessage_def isValidSenderCompId_def isValidTargetCompId_def cong: option.case_cong)
  have "handleMessage now sysnow (Some m) s = Some (sendHeartbeat now sysnow i s0)"
    using assms(2,3,7,8) n v
    by (simp add: handleMessage_def Let_def validateSequenceNumber_def dispatch_def handleTestRequest_def s0_def)
  also have "sendHeartbeat now sysnow i s0 = (True, ?g s')" using c(1) by (simp add: sendHeartbeat_def createHeartbeatMessage_def)
  finally have h: "handleMessage now sysnow (Some m) s = Some (True, ?g s')" .
  have "sent HIGH ?reply s (?g s')" using c(2) by (simp add: sent_def outbound_def session_heap_def s0_def)
  moreover have "from_session s ''0'' ?reply" "getField Tag_TestReqID ?reply = Some i"
    using assms(4) by (simp_all add: from_session_def getField_setField session_header_fields s0_def) (simp_all add: tag_defs)
  ultimately show ?thesis
    using h c(3,4) by (intro exI [of _ ?reply] exI [of _ "?g s'"]) (simp add: send_kept_def s0_def)
qed

text \<open>Initiating a logon from DISCONNECTED puts exactly one Logon on the CRITICAL queue and moves the session to LOGON\_SENT. The message carries
  the number after the current outgoing number, so that the first message of a new session has number 2, and the logon counter advances by two.\<close>

lemma initiateLogon_sends:
  assumes "ready CRITICAL s" "sm_session_state s = DISCONNECTED"
  shows "\<exists>logon s'. initiateLogon sysnow s = (True, s') \<and> sent CRITICAL logon s s' \<and> from_session s ''A'' logon
    \<and> getField Tag_HeartBtInt logon = Some (to_string_int (cf_heartbeat_interval (sm_config s)))
    \<and> sm_session_state s' = LOGON_SENT \<and> sm_outgoing_seq_num s' = wrap_int32 (sm_outgoing_seq_num s + 1)
    \<and> ss_logons_sent (sm_stats s') = ss_logons_sent (sm_stats s) + 2"
proof -
  define s0 where "s0 = updateSessionState LOGON_SENT s"
  let ?f = "logon_fields (sm_config s0)"
  let ?g = "\<lambda>s. s\<lparr>sm_stats := (sm_stats s)\<lparr>ss_logons_sent := ss_logons_sent (sm_stats s) + 1\<rparr>\<rparr>"
  let ?logon = "?f (session_header sysnow (sm_config s0) ''A'' (wrap_int32 (sm_outgoing_seq_num s0 + 1)) (new_FixMessage sysnow))"
  have "ready CRITICAL s0" using assms(1) by (simp add: ready_def s0_def updateSessionState_def)
  from send_created_ok [OF this, where sysnow = sysnow and t = "''A''" and f = ?f and g = ?g]
  obtain s' where c: "send_created (create_message sysnow ''A'' ?f s0) CRITICAL ?g = (True, ?g s')" "sent CRITICAL ?logon s0 s'"
    "sm_outgoing_seq_num s' = wrap_int32 (sm_outgoing_seq_num s0 + 1)" "send_kept s0 s'" "sm_stats s' = sm_stats s0" by blast
  have h: "initiateLogon sysnow s = (True, ?g (?g s'))"
    using assms(2) c(1) by (simp add: initiateLogon_def s0_def [symmetric] sendLogon_def createLogonMessage_def)
  have "sent CRITICAL ?logon s (?g (?g s'))"
    using c(2) by (simp add: sent_def outbound_def session_heap_def s0_def updateSessionState_def)
  moreover have "from_session s ''A'' ?logon" "getField Tag_HeartBtInt ?logon = Some (to_string_int (cf_heartbeat_interval (sm_config s)))"
    by (simp_all add: from_session_def logon_fields_def Let_def getField_setField session_header_fields s0_def updateSessionState_def)
      (simp_all add: tag_defs)
  ultimately show ?thesis
    using h c(3-5) by (intro exI [of _ ?logon] exI [of _ "?g (?g s')"]) (simp add: send_kept_def s0_def updateSessionState_def)
qed

lemma demo_session:
  "\<exists>s. (\<forall>pr. ready pr s) \<and> sm_config s = demo_config \<and> sm_session_state s = DISCONNECTED \<and> sm_outgoing_seq_num s = 1
     \<and> sm_expected_incoming_seq_num s = 1 \<and> sm_stats s = zero_session_stats \<and> im_inbound_queue s = None \<and> session_inv s \<and> im_stats s = zero_inbound_stats"
proof -
  obtain p :: "fix_message pool" where p: "newPool 4096 64 9 ''pool'' = Inr p" by (simp add: newPool_def)
  have inv: "pool_inv p" "pool_heap p = Map.empty" "p_size p = 9" "\<not> p_shutdown p" using newPool_inv [OF p] by auto
  let ?s = "setMessagePool (Some p) (setOutboundQueues (Some new_container) (new_session demo_config None))"
  have "nextPowerOfTwo 2048 = 2048" "nextPowerOfTwo 1024 = 1024" "nextPowerOfTwo 512 = 512" by code_simp+
  then have q: "0 < usable (getQueue pr new_container)" for pr
    by (cases pr) (simp_all add: usable_def getQueue_def new_container_def newQueue_def)
  have "contents (getQueue pr new_container) = []" "\<not> isShutdown (getQueue pr new_container)" for pr
    by (cases pr; simp add: getQueue_def new_container_def) (cases pr; simp add: getQueue_def new_container_def isShutdown_def newQueue_def)
  then have "ready pr ?s" for pr
    using q [of pr] inv new_container_inv(1) by (simp add: ready_def setMessagePool_def setOutboundQueues_def)
  moreover have "session_inv ?s"
    using new_session_inv [of None demo_config] by (simp add: session_inv_def gap_ok_def setMessagePool_def setOutboundQueues_def)
  ultimately show ?thesis
    by (intro exI [of _ ?s])
      (simp add: setMessagePool_def setOutboundQueues_def new_session_def inbound_manager.defs session_manager.defs new_inbound_manager_def)
qed

lemma initiateLogon_sends_witness:
  "\<exists>s s' logon. initiateLogon 7 s = (True, s') \<and> sent CRITICAL logon s s' \<and> getField Tag_MsgSeqNum logon = Some ''2''
     \<and> ss_logons_sent (sm_stats s') = 2"
proof -
  obtain s where s: "ready CRITICAL s" "sm_session_state s = DISCONNECTED" "sm_outgoing_seq_num s = 1" "sm_stats s = zero_session_stats"
    using demo_session by blast
  have "to_string_int (wrap_int32 2) = ''2''" by code_simp
  with initiateLogon_sends [OF s(1,2), of 7] s(3,4) show ?thesis
    by (auto simp: from_session_def zero_session_stats_def)
qed

lemma testRequest_answered_witness:
  "\<exists>s s' reply. handleMessage 5 5 (Some (setField Tag_TestReqID ''PING'' (numbered ''1'' ''1''))) s = Some (True, s')
     \<and> sent HIGH reply s s' \<and> getField Tag_TestReqID reply = Some ''PING'' \<and> getField Tag_MsgSeqNum reply = Some ''2''"
proof -
  obtain s where s: "ready HIGH s" "sm_config s = demo_config" "sm_outgoing_seq_num s = 1" "sm_expected_incoming_seq_num s = 1"
    using demo_session by blast
  let ?m = "setField Tag_TestReqID ''PING'' (numbered ''1'' ''1'')"
  have n: "to_string_int (wrap_int32 2) = ''2''" "stoi ''1'' = Inr 1" by code_simp+
  have m: "getField Tag_MsgType ?m = Some ''1''" "getField Tag_TestReqID ?m = Some ''PING''" "getField Tag_SenderCompID ?m = Some ''BROKER''"
    "getField Tag_TargetCompID ?m = Some ''CLIENT''" "getField Tag_MsgSeqNum ?m = Some ''1''"
    by (simp_all add: getField_setField numbered_fields) (simp_all add: tag_defs)
  have v: "validateSessionMessage ?m s" "getField_int Tag_MsgSeqNum ?m = Some (sm_expected_incoming_seq_num s)"
    "sm_expected_incoming_seq_num s < INT_MAX" "cf_validate_sequence_numbers (sm_config s)"
    using m n by (simp_all add: validateSessionMessage_def isValidSenderCompId_def isValidTargetCompId_def getField_int_def s demo_config_def SessionConfig_def INT_MAX_def)
  from testRequest_answered [OF s(1) m(1,2) _ v, of 5 5] n s(3) show ?thesis by (auto simp: from_session_def)
qed

section \<open>Accounting of the polling loop\<close>

interpretation session: message_handler "session_handler sys" isMessageSupported session_inv tame_session
proof
  show "session_inv (im\<lparr>im_stats := st\<rparr>) = session_inv im" for im :: session_manager and st
    by (simp add: session_inv_def gap_ok_def)
  show "session_inv (im\<lparr>im_processing_start_time := t\<rparr>) = session_inv im" for im :: session_manager and t
    by (simp add: session_inv_def gap_ok_def)
  show "session_inv (im\<lparr>im_inbound_queue := q\<rparr>) = session_inv im" for im :: session_manager and q
    by (simp add: session_inv_def gap_ok_def)
  show "\<exists>r s'. session_handler sys now m s = Some (r, s') \<and> session_inv s' \<and> base_kept s s'" if "session_inv s" "tame_session m" for s m now
    using handleMessage_ok [OF that(1), where now = now and sysnow = "sys now" and m = m] that(2) by (auto simp: session_handler_def session_ok_def)
qed

text \<open>C25: The polling loop of a running session manager empties its inbound queue: as many passes as there are queued messages handle every
  message, in queue order and with a defined result, and account for each exactly once. Every well-formed session message is counted
  either as processed or as an error, and every message under its type.\<close>

theorem session_polling_accounts:
  assumes "session_inv s" "im_running s" "im_inbound_queue s = Some q" "queue_inv q" "\<not> isShutdown q" "0 \<notin> set (contents q)"
    and "map deref (contents q) = map Some ms" "list_all tame_session ms" "length nows = length ms"
  shows "\<exists>s' q'. processMessages deref (session_handler sys) isMessageSupported nows s = Some s' \<and> session_inv s'
    \<and> im_inbound_queue s' = Some q' \<and> contents q' = []
    \<and> st_processed (im_stats s') + st_processing_errors (im_stats s')
        = st_processed (im_stats s) + st_processing_errors (im_stats s) + of_nat (length (filter (\<lambda>m. validateMessage (Some m) \<and> isMessageSupported m) ms))
    \<and> st_type_counts (im_stats s') t = st_type_counts (im_stats s) t + of_nat (length (filter (\<lambda>m. simple_type m = t) ms))"
  using session.poll_loop_counts [where sys = sys, OF assms, of t] assms(2,3)
  by (simp add: processMessages_def verdicts_def type_count_def)

lemma session_polling_accounts_witness:
  "\<exists>s q s' q'. im_inbound_queue s = Some q \<and> contents q = [8, 16]
     \<and> processMessages [8 \<mapsto> numbered ''0'' ''1'', 16 \<mapsto> numbered ''D'' ''2''] (session_handler id) isMessageSupported [5, 6] s = Some s'
     \<and> im_inbound_queue s' = Some q' \<and> contents q' = [] \<and> st_processed (im_stats s') + st_processing_errors (im_stats s') = 1
     \<and> st_type_counts (im_stats s') HEARTBEAT = 1"
proof -
  obtain s0 where s0: "session_inv s0" "im_stats s0 = zero_inbound_stats" using demo_session by blast
  define q :: "addr lfq" where "q = snd (push 16 (snd (push 8 (newQueue 0 4 ''q''))))"
  have q0: "queue_inv (newQueue 0 4 ''q'' :: addr lfq)" "\<not> isShutdown (newQueue 0 4 ''q'' :: addr lfq)" "usable (newQueue 0 4 ''q'' :: addr lfq) = 3"
  proof -
    have "nextPowerOfTwo 4 = 4" by code_simp
    then show "usable (newQueue 0 4 ''q'' :: addr lfq) = 3" by (simp add: usable_def newQueue_def)
    show "queue_inv (newQueue 0 4 ''q'' :: addr lfq)" by (rule queue_inv_newQueue) simp
    show "\<not> isShutdown (newQueue 0 4 ''q'' :: addr lfq)" by (simp add: isShutdown_def newQueue_def)
  qed
  let ?q1 = "snd (push 8 (newQueue 0 4 ''q'' :: addr lfq))"
  have q1: "queue_inv ?q1" "\<not> isShutdown ?q1" "usable ?q1 = 3" "contents ?q1 = [8]" using lq.put_laws [OF q0(1), of 8] q0(2,3) by auto
  have q: "queue_inv q" "\<not> isShutdown q" "contents q = [8, 16]" using lq.put_laws [OF q1(1), of 16] q1(2-4) by (auto simp: q_def)
  define s where "s = s0\<lparr>im_running := True, im_inbound_queue := Some q\<rparr>"
  have s: "session_inv s" "im_running s" "im_inbound_queue s = Some q" "im_stats s = zero_inbound_stats"
    using s0 by (simp_all add: s_def session_inv_def gap_ok_def)
  let ?ms = "[numbered ''0'' ''1'', numbered ''D'' ''2'']"
  have m: "list_all tame_session ?ms" "length (filter (\<lambda>m. validateMessage (Some m) \<and> isMessageSupported m) ?ms) = 1"
    "length (filter (\<lambda>m. simple_type m = HEARTBEAT) ?ms) = 1" by code_simp+
  have deref: "map [8 \<mapsto> numbered ''0'' ''1'', 16 \<mapsto> numbered ''D'' ''2''] (contents q) = map Some ?ms" "0 \<notin> set (contents q)" "length [5, 6 :: nat] = length ?ms"
    by (simp_all add: q)
  from session_polling_accounts [OF s(1-3) q(1,2) deref(2,1) m(1) deref(3), of id HEARTBEAT, unfolded m(2,3)] s(4)
  obtain s' q' where "processMessages [8 \<mapsto> numbered ''0'' ''1'', 16 \<mapsto> numbered ''D'' ''2''] (session_handler id) isMessageSupported [5, 6] s = Some s'"
    "im_inbound_queue s' = Some q'" "contents q' = []" "st_processed (im_stats s') + st_processing_errors (im_stats s') = 1"
    "st_type_counts (im_stats s') HEARTBEAT = 1"
    by (auto simp: zero_inbound_stats_def)
  with s(3) q(3) show ?thesis by blast
qed

end
