(* ===== verification/Pipeline_Message.thy ===== *)
theory Pipeline_Message
  imports Message_Router
begin

text \<open>
  \<open>common::Message\<close> (include/common/message.h, src/common/message.cpp), the message of the sending pipeline. Times are nanoseconds of the
  steady clock; a stored time of 0 means that it is not set. A callback is a number that identifies the function object, and
  executing one gives the call that is made. The constructors take the values of the clock and of the sequence counter;
  \<open>create\<close> and \<open>destroy\<close> work on the global pool.
\<close>

section \<open>Data\<close>

datatype message_type =
  MT_ORDER | MT_CANCEL | MT_FILL | MT_HEARTBEAT | MT_LOGON | MT_LOGOUT | MT_REJECT | MT_ACCEPT | MT_ERROR | MT_UNKNOWN

datatype message_state = PENDING | SENDING | SENT | FAILED | EXPIRED

record message =
  msg_id :: string
  msg_sequence_number :: string
  msg_payload :: string
  msg_payload_size :: uint64
  msg_priority :: priority
  msg_type :: message_type
  msg_session_id :: string
  msg_destination :: string
  msg_creation_time :: uint64
  msg_queue_entry_time :: uint64
  msg_send_time :: uint64
  msg_deadline_time :: uint64
  msg_completion_callback :: "nat option"
  msg_error_callback :: "nat option"
  msg_user_callback :: "nat option"
  msg_user_context :: nat
  msg_state :: message_state
  msg_retry_count :: int
  msg_error_code :: int
  msg_error_message :: string

section \<open>Construction, copy and move\<close>

definition generateSequenceNumber :: "uint64 \<Rightarrow> string \<times> uint64" where
  "generateSequenceNumber counter = (to_string_nat (unat counter), counter + 1)"

definition Message_detailed ::
    "uint64 \<Rightarrow> string \<Rightarrow> string \<Rightarrow> string \<Rightarrow> priority \<Rightarrow> message_type \<Rightarrow> string \<Rightarrow> string \<Rightarrow> uint64 \<Rightarrow> message" where
  "Message_detailed now message_id sequence_number payload pr ty session_id destination deadline =
    \<lparr> msg_id = message_id, msg_sequence_number = sequence_number, msg_payload = payload, msg_payload_size = of_nat (length payload),
      msg_priority = pr, msg_type = ty, msg_session_id = session_id, msg_destination = destination, msg_creation_time = now,
      msg_queue_entry_time = 0, msg_send_time = 0, msg_deadline_time = deadline, msg_completion_callback = None, msg_error_callback = None,
      msg_user_callback = None, msg_user_context = 0, msg_state = PENDING, msg_retry_count = 0, msg_error_code = 0, msg_error_message = [] \<rparr>"

definition Message_simple ::
    "uint64 \<Rightarrow> string \<Rightarrow> string \<Rightarrow> priority \<Rightarrow> message_type \<Rightarrow> string \<Rightarrow> string \<Rightarrow> uint64 \<Rightarrow> message \<times> uint64" where
  "Message_simple now message_id payload pr ty session_id destination counter =
    (let (seq, counter) = generateSequenceNumber counter
     in (Message_detailed now message_id seq payload pr ty session_id destination 0, counter))"

definition copyFrom :: "message \<Rightarrow> message \<Rightarrow> message" where
  "copyFrom other this = other"

text \<open>The moved-from object keeps everything but its strings and callbacks, which are left empty.\<close>

definition moveFrom :: "message \<Rightarrow> message \<Rightarrow> message \<times> message" where
  "moveFrom other this =
    (other, other\<lparr>msg_id := [], msg_sequence_number := [], msg_payload := [], msg_session_id := [], msg_destination := [],
       msg_completion_callback := None, msg_error_callback := None, msg_user_callback := None, msg_error_message := []\<rparr>)"

text \<open>The copy and the move constructor, and the assignments, fill the object \<open>this\<close>; assigning an object to itself does nothing. The results of moving are the
  new and the moved-from object.\<close>

definition Message_copy :: "message \<Rightarrow> message \<Rightarrow> message" where
  "Message_copy this other = copyFrom other this"

definition Message_move :: "message \<Rightarrow> message \<Rightarrow> message \<times> message" where
  "Message_move this other = moveFrom other this"

section \<open>Pool\<close>

definition Message_create :: "message \<Rightarrow> message pool \<Rightarrow> addr \<times> message pool" where
  "Message_create m pool = allocate_args m pool"

definition Message_destroy :: "addr \<Rightarrow> message pool \<Rightarrow> message pool" where
  "Message_destroy a pool = (if a = 0 then pool else deallocate a pool)"

section \<open>Timing\<close>

definition msg_set_queue_entry :: "uint64 \<Rightarrow> message \<Rightarrow> message" where
  "msg_set_queue_entry time m = m\<lparr>msg_queue_entry_time := time\<rparr>"

definition msg_set_send_time :: "uint64 \<Rightarrow> message \<Rightarrow> message" where
  "msg_set_send_time time m = m\<lparr>msg_send_time := time\<rparr>"

definition msg_set_deadline :: "uint64 \<Rightarrow> message \<Rightarrow> message" where
  "msg_set_deadline time m = m\<lparr>msg_deadline_time := time\<rparr>"

text \<open>A number of nanoseconds is a signed 64-bit value made from the unsigned difference.\<close>

definition getQueueLatency :: "message \<Rightarrow> int" where
  "getQueueLatency m = (if msg_queue_entry_time m = 0 then 0 else sint (msg_queue_entry_time m - msg_creation_time m))"

definition getSendLatency :: "message \<Rightarrow> int" where
  "getSendLatency m =
    (if msg_send_time m = 0 \<or> msg_queue_entry_time m = 0 then 0 else sint (msg_send_time m - msg_queue_entry_time m))"

definition getTotalLatency :: "message \<Rightarrow> int" where
  "getTotalLatency m = (if msg_send_time m = 0 then 0 else sint (msg_send_time m - msg_creation_time m))"

definition msg_isExpired :: "uint64 \<Rightarrow> message \<Rightarrow> bool" where
  "msg_isExpired now m \<longleftrightarrow> (if msg_deadline_time m = 0 then False else now > msg_deadline_time m)"

definition getTimeToDeadline :: "uint64 \<Rightarrow> message \<Rightarrow> int" where
  "getTimeToDeadline now m =
    (if msg_deadline_time m = 0 then 9223372036854775807
     else if now > msg_deadline_time m then 0
     else sint (msg_deadline_time m - now))"

section \<open>State, errors and callbacks\<close>

definition setState :: "message_state \<Rightarrow> message \<Rightarrow> message" where
  "setState st m = m\<lparr>msg_state := st\<rparr>"

definition isPending :: "message \<Rightarrow> bool" where "isPending m \<longleftrightarrow> msg_state m = PENDING"
definition isSending :: "message \<Rightarrow> bool" where "isSending m \<longleftrightarrow> msg_state m = SENDING"
definition isSent :: "message \<Rightarrow> bool" where "isSent m \<longleftrightarrow> msg_state m = SENT"
definition isFailed :: "message \<Rightarrow> bool" where "isFailed m \<longleftrightarrow> msg_state m = FAILED"
definition isExpiredState :: "message \<Rightarrow> bool" where "isExpiredState m \<longleftrightarrow> msg_state m = EXPIRED"

definition incrementRetryCount :: "message \<Rightarrow> message option" where
  "incrementRetryCount m = (if msg_retry_count m = INT_MAX then None else Some (m\<lparr>msg_retry_count := msg_retry_count m + 1\<rparr>))"

definition setError :: "int \<Rightarrow> string \<Rightarrow> message \<Rightarrow> message" where
  "setError error_code error_message m = m\<lparr>msg_error_code := error_code, msg_error_message := error_message\<rparr>"

definition clearError :: "message \<Rightarrow> message" where
  "clearError m = m\<lparr>msg_error_code := 0, msg_error_message := []\<rparr>"

datatype callback_call =
  Completion_Call nat message
| Error_Call nat message int string
| User_Call nat message nat

definition setCompletionCallback :: "nat option \<Rightarrow> message \<Rightarrow> message" where
  "setCompletionCallback callback m = m\<lparr>msg_completion_callback := callback\<rparr>"

definition setErrorCallback :: "nat option \<Rightarrow> message \<Rightarrow> message" where
  "setErrorCallback callback m = m\<lparr>msg_error_callback := callback\<rparr>"

definition setUserCallback :: "nat option \<Rightarrow> nat \<Rightarrow> message \<Rightarrow> message" where
  "setUserCallback callback user_context m = m\<lparr>msg_user_callback := callback, msg_user_context := user_context\<rparr>"

definition executeCompletionCallback :: "message \<Rightarrow> callback_call option" where
  "executeCompletionCallback m = map_option (\<lambda>c. Completion_Call c m) (msg_completion_callback m)"

definition executeErrorCallback :: "int \<Rightarrow> string \<Rightarrow> message \<Rightarrow> callback_call option" where
  "executeErrorCallback error_code error_message m = map_option (\<lambda>c. Error_Call c m error_code error_message) (msg_error_callback m)"

definition executeUserCallback :: "message \<Rightarrow> callback_call option" where
  "executeUserCallback m = map_option (\<lambda>c. User_Call c m (msg_user_context m)) (msg_user_callback m)"

section \<open>Comparison\<close>

definition msg_less :: "message \<Rightarrow> message \<Rightarrow> bool" where
  "msg_less m other \<longleftrightarrow> getPriorityIndex (msg_priority m) < getPriorityIndex (msg_priority other)"

definition msg_greater :: "message \<Rightarrow> message \<Rightarrow> bool" where
  "msg_greater m other \<longleftrightarrow> getPriorityIndex (msg_priority m) > getPriorityIndex (msg_priority other)"

definition msg_equal :: "message \<Rightarrow> message \<Rightarrow> bool" where
  "msg_equal m other \<longleftrightarrow> msg_id m = msg_id other \<and> msg_sequence_number m = msg_sequence_number other"

definition MessagePriorityComparator :: "message \<Rightarrow> message \<Rightarrow> bool" where
  "MessagePriorityComparator lhs rhs \<longleftrightarrow> getPriorityIndex (msg_priority lhs) < getPriorityIndex (msg_priority rhs)"

section \<open>Names of the enumerators\<close>

fun messageTypeToString :: "message_type \<Rightarrow> string" where
  "messageTypeToString MT_ORDER = ''ORDER''"
| "messageTypeToString MT_CANCEL = ''CANCEL''"
| "messageTypeToString MT_FILL = ''FILL''"
| "messageTypeToString MT_HEARTBEAT = ''HEARTBEAT''"
| "messageTypeToString MT_LOGON = ''LOGON''"
| "messageTypeToString MT_LOGOUT = ''LOGOUT''"
| "messageTypeToString MT_REJECT = ''REJECT''"
| "messageTypeToString MT_ACCEPT = ''ACCEPT''"
| "messageTypeToString MT_ERROR = ''ERROR''"
| "messageTypeToString MT_UNKNOWN = ''UNKNOWN''"

fun messageStateToString :: "message_state \<Rightarrow> string" where
  "messageStateToString PENDING = ''PENDING''"
| "messageStateToString SENDING = ''SENDING''"
| "messageStateToString SENT = ''SENT''"
| "messageStateToString FAILED = ''FAILED''"
| "messageStateToString EXPIRED = ''EXPIRED''"

fun priorityToString :: "priority \<Rightarrow> string" where
  "priorityToString LOW = ''LOW''"
| "priorityToString MEDIUM = ''MEDIUM''"
| "priorityToString HIGH = ''HIGH''"
| "priorityToString CRITICAL = ''CRITICAL''"

definition stringToMessageType :: "string \<Rightarrow> message_type" where
  "stringToMessageType s =
    (if s = ''ORDER'' then MT_ORDER
     else if s = ''CANCEL'' then MT_CANCEL
     else if s = ''FILL'' then MT_FILL
     else if s = ''HEARTBEAT'' then MT_HEARTBEAT
     else if s = ''LOGON'' then MT_LOGON
     else if s = ''LOGOUT'' then MT_LOGOUT
     else if s = ''REJECT'' then MT_REJECT
     else if s = ''ACCEPT'' then MT_ACCEPT
     else if s = ''ERROR'' then MT_ERROR
     else MT_UNKNOWN)"

definition stringToMessageState :: "string \<Rightarrow> message_state" where
  "stringToMessageState s =
    (if s = ''PENDING'' then PENDING
     else if s = ''SENDING'' then SENDING
     else if s = ''SENT'' then SENT
     else if s = ''FAILED'' then FAILED
     else if s = ''EXPIRED'' then EXPIRED
     else PENDING)"

definition stringToPriority :: "string \<Rightarrow> priority" where
  "stringToPriority s =
    (if s = ''LOW'' then LOW
     else if s = ''MEDIUM'' then MEDIUM
     else if s = ''HIGH'' then HIGH
     else if s = ''CRITICAL'' then CRITICAL
     else LOW)"

definition msg_toString :: "message \<Rightarrow> string" where
  "msg_toString m =
    ''Message{id='' @ msg_id m @ '', seq='' @ msg_sequence_number m @ '', type='' @ messageTypeToString (msg_type m)
    @ '', state='' @ messageStateToString (msg_state m) @ '', priority='' @ priorityToString (msg_priority m)
    @ '', payload_size='' @ to_string_nat (unat (msg_payload_size m)) @ '', created='' @ to_string_nat (unat (msg_creation_time m))
    @ '', queue_latency='' @ to_string_int (getQueueLatency m) @ ''ns, send_latency='' @ to_string_int (getSendLatency m)
    @ ''ns, total_latency='' @ to_string_int (getTotalLatency m) @ ''ns, retry_count='' @ to_string_int (msg_retry_count m) @ ''}''"

section \<open>Properties\<close>

text \<open>The names are read back.\<close>

lemma enumerator_names:
  "stringToMessageType (messageTypeToString t) = t" "stringToMessageState (messageStateToString st) = st" "stringToPriority (priorityToString pr) = pr"
proof -
  show "stringToMessageType (messageTypeToString t) = t" by (cases t) (simp_all add: stringToMessageType_def)
  show "stringToMessageState (messageStateToString st) = st" by (cases st) (simp_all add: stringToMessageState_def)
  show "stringToPriority (priorityToString pr) = pr" by (cases pr) (simp_all add: stringToPriority_def)
qed

text \<open>For a message with increasing time stamps the latencies are the real differences and add up.\<close>

lemma latencies_add:
  assumes "0 < msg_creation_time m" "msg_creation_time m \<le> msg_queue_entry_time m" "msg_queue_entry_time m \<le> msg_send_time m"
    "unat (msg_send_time m) < 2 ^ 63"
  shows "getTotalLatency m = getQueueLatency m + getSendLatency m" "getQueueLatency m = int (unat (msg_queue_entry_time m)) - int (unat (msg_creation_time m))"
    "0 \<le> getQueueLatency m" "0 \<le> getSendLatency m"
proof -
  have small: "sint (b - a) = int (unat b) - int (unat a)" if "a \<le> b" "unat b < 2 ^ 63" for a b :: uint64
  proof -
    have "unat (b - a) = unat b - unat a" using that(1) by (rule unat_sub)
    moreover have "sint (b - a) = int (unat (b - a))"
      using that(2) calculation by (simp add: sint_uint uint_nat signed_take_bit_int_eq_self)
    ultimately show ?thesis using that(1) by (simp add: word_le_nat_alt of_nat_diff)
  qed
  have nz: "msg_queue_entry_time m \<noteq> 0" "msg_send_time m \<noteq> 0" using assms(1-3) by auto
  have le: "msg_creation_time m \<le> msg_send_time m" using assms(2,3) by order
  have q: "unat (msg_queue_entry_time m) < 2 ^ 63" using assms(3,4) by (simp add: word_le_nat_alt)
  note s = small [OF assms(2) q] small [OF assms(3,4)] small [OF le assms(4)]
  show "getTotalLatency m = getQueueLatency m + getSendLatency m" "getQueueLatency m = int (unat (msg_queue_entry_time m)) - int (unat (msg_creation_time m))"
    using nz s by (simp_all add: getTotalLatency_def getQueueLatency_def getSendLatency_def)
  show "0 \<le> getQueueLatency m" "0 \<le> getSendLatency m"
    using nz s assms(2,3) by (simp_all add: getQueueLatency_def getSendLatency_def word_le_def)
qed

end
