(* ===== verification/Std_Heap.thy ===== *)
theory Std_Heap
  imports Main "HOL-Library.Multiset"
begin

text \<open>
  The binary heap behind \<open>std::priority_queue\<close>: \<open>std::push_heap\<close> and \<open>std::pop_heap\<close> on a vector, as in the common
  implementation of the standard library, for a comparison by a natural number \<open>key\<close>. The largest key is at the front. The lemmas
  show what the language standard promises of these functions: they keep the heap order and the multiset of elements, and the
  front has the largest key.
\<close>

abbreviation parent :: "nat \<Rightarrow> nat" where
  "parent i \<equiv> (i - 1) div 2"

text \<open>Moves the hole at index \<open>i\<close> towards the front until \<open>v\<close> fits.\<close>

function sift_up :: "('a \<Rightarrow> nat) \<Rightarrow> 'a list \<Rightarrow> nat \<Rightarrow> 'a \<Rightarrow> 'a list" where
  "sift_up key h i v =
    (if 0 < i \<and> key (h ! parent i) < key v then sift_up key (h[i := h ! parent i]) (parent i) v else h[i := v])"
  by pat_completeness auto
termination
  by (relation "measure (\<lambda>(key, h, i, v). i)") auto

declare sift_up.simps [simp del]

text \<open>Moves the hole at index \<open>i\<close> to a leaf of the first \<open>n\<close> elements by pulling up the larger child; the result is the new hole.\<close>

function sift_down :: "('a \<Rightarrow> nat) \<Rightarrow> 'a list \<Rightarrow> nat \<Rightarrow> nat \<Rightarrow> 'a list \<times> nat" where
  "sift_down key h n i =
    (if 2 * i + 2 < n then
       let c = (if key (h ! (2 * i + 2)) < key (h ! (2 * i + 1)) then 2 * i + 1 else 2 * i + 2) in sift_down key (h[i := h ! c]) n c
     else if 2 * i + 1 < n then (h[i := h ! (2 * i + 1)], 2 * i + 1)
     else (h, i))"
  by pat_completeness auto
termination
  by (relation "measure (\<lambda>(key, h, n, i). n - i)") (auto split: if_splits)

declare sift_down.simps [simp del]

definition heap_push :: "('a \<Rightarrow> nat) \<Rightarrow> 'a \<Rightarrow> 'a list \<Rightarrow> 'a list" where
  "heap_push key v h = sift_up key (h @ [v]) (length h) v"

text \<open>Removes the front: the last element is put into the hole that it leaves.\<close>

definition heap_pop :: "('a \<Rightarrow> nat) \<Rightarrow> 'a list \<Rightarrow> 'a list" where
  "heap_pop key h =
    (let v = last h; h = butlast h
     in if h = [] then [] else let (h, i) = sift_down key h (length h) 0 in sift_up key h i v)"

section \<open>Heap order\<close>

definition heap :: "('a \<Rightarrow> nat) \<Rightarrow> 'a list \<Rightarrow> bool" where
  "heap key h \<longleftrightarrow> (\<forall>i < length h. 0 < i \<longrightarrow> key (h ! i) \<le> key (h ! parent i))"

text \<open>Heap order everywhere except at a hole.\<close>

definition heap_hole :: "('a \<Rightarrow> nat) \<Rightarrow> 'a list \<Rightarrow> nat \<Rightarrow> bool" where
  "heap_hole key h j \<longleftrightarrow> j < length h \<and> (\<forall>i < length h. 0 < i \<longrightarrow>
     (i \<noteq> j \<and> parent i \<noteq> j \<longrightarrow> key (h ! i) \<le> key (h ! parent i)) \<and>
     (parent i = j \<and> 0 < j \<longrightarrow> key (h ! i) \<le> key (h ! parent j)))"

lemma length_sift_up [simp]: "length (sift_up key h i v) = length h"
  by (induction key h i v rule: sift_up.induct) (subst sift_up.simps, simp)

lemma length_sift_down [simp]: "length (fst (sift_down key h n i)) = length h"
  by (induction key h n i rule: sift_down.induct) (subst sift_down.simps, simp add: Let_def)

lemma sift_up_heap:
  assumes "heap_hole key h j" "\<forall>i < length h. 0 < i \<and> parent i = j \<longrightarrow> key (h ! i) \<le> key v"
  shows "heap key (sift_up key h j v)"
  using assms
proof (induction key h j v rule: sift_up.induct)
  case (1 key h j v)
  show ?case
  proof (cases "0 < j \<and> key (h ! parent j) < key v")
    case True
    let ?h = "h[j := h ! parent j]"
    have p: "parent j < j" "j < length h" using True 1(2) by (auto simp: heap_hole_def)
    have hole: "heap_hole key ?h (parent j)"
      unfolding heap_hole_def
    proof (intro conjI allI impI)
      fix i assume i: "i < length ?h" "0 < i"
      { assume "i \<noteq> parent j \<and> parent i \<noteq> parent j"
        then show "key (?h ! i) \<le> key (?h ! parent i)"
          using 1(2) i p by (cases "parent i = j") (auto simp: heap_hole_def nth_list_update) }
      { assume a: "parent i = parent j \<and> 0 < parent j"
        have "key (h ! parent j) \<le> key (h ! parent (parent j))" using 1(2) p a by (auto simp: heap_hole_def)
        moreover have "i \<noteq> j \<Longrightarrow> key (h ! i) \<le> key (h ! parent j)" using 1(2) i a p by (auto simp: heap_hole_def)
        ultimately show "key (?h ! i) \<le> key (?h ! parent (parent j))"
          using a p i by (cases "i = j") (auto simp: nth_list_update) }
    qed (use p in simp)
    have kids: "\<forall>i < length ?h. 0 < i \<and> parent i = parent j \<longrightarrow> key (?h ! i) \<le> key v"
    proof (intro allI impI)
      fix i assume i: "i < length ?h" "0 < i \<and> parent i = parent j"
      show "key (?h ! i) \<le> key v"
      proof (cases "i = j")
        case False
        then have "key (h ! i) \<le> key (h ! parent j)" using 1(2) i p by (auto simp: heap_hole_def)
        with False True i show ?thesis by simp
      qed (use True p in simp)
    qed
    have "sift_up key h j v = sift_up key ?h (parent j) v" using True by (subst sift_up.simps) (rule if_P)
    with 1(1) [OF True hole kids] show ?thesis by (simp only:)
  next
    case False
    have "heap key (h[j := v])"
      unfolding heap_def
    proof (intro allI impI)
      fix i assume i: "i < length (h[j := v])" "0 < i"
      show "key (h[j := v] ! i) \<le> key (h[j := v] ! parent i)"
      proof (cases "i = j")
        case True
        with False i show ?thesis by (simp add: nth_list_update)
      next
        case ne: False
        show ?thesis
        proof (cases "parent i = j")
          case True
          then show ?thesis using 1(2,3) i ne by (auto simp: heap_hole_def nth_list_update)
        next
          case False
          then show ?thesis using 1(2) i ne by (auto simp: heap_hole_def nth_list_update)
        qed
      qed
    qed
    moreover have "sift_up key h j v = h[j := v]" using False by (subst sift_up.simps) (rule if_not_P)
    ultimately show ?thesis by (simp only:)
  qed
qed

lemma sift_down_step:
  assumes "heap_hole key h j" "c < length h" "parent c = j" "j < c" "\<And>i. i < length h \<Longrightarrow> 0 < i \<Longrightarrow> parent i = j \<Longrightarrow> key (h ! i) \<le> key (h ! c)"
  shows "heap_hole key (h[j := h ! c]) c"
proof -
  have j: "j < length h" using assms(2,4) by simp
  have H1: "key (h ! i) \<le> key (h ! parent i)" if "i < length h" "0 < i" "i \<noteq> j" "parent i \<noteq> j" for i
    using assms(1) that by (simp add: heap_hole_def)
  have H2: "key (h ! i) \<le> key (h ! parent j)" if "i < length h" "0 < i" "parent i = j" "0 < j" for i
    using assms(1) that by (simp add: heap_hole_def)
  have other: "key (h[j := h ! c] ! i) \<le> key (h[j := h ! c] ! parent i)" if i: "i < length h" "0 < i" "parent i \<noteq> c" for i
  proof -
    consider "i = j" | "i \<noteq> j" "parent i = j" | "i \<noteq> j" "parent i \<noteq> j" by blast
    then show ?thesis
    proof cases
      case 1
      then have "parent i \<noteq> j" "0 < c" using i(2) assms(4) by linarith+
      then show ?thesis using 1 i j H2 [OF assms(2) _ assms(3)] by simp
    next
      case 2
      then show ?thesis using assms(5) [OF i(1,2)] j by simp
    next
      case 3
      then show ?thesis using H1 [OF i(1,2)] by simp
    qed
  qed
  have kids: "key (h[j := h ! c] ! i) \<le> key (h[j := h ! c] ! parent c)" if i: "i < length h" "0 < i" "parent i = c" for i
  proof -
    have "i \<noteq> j" "parent i \<noteq> j" using i assms(4) by linarith+
    then show ?thesis using H1 [OF i(1,2)] i(3) assms(3) j by simp
  qed
  show ?thesis
    unfolding heap_hole_def using other kids assms(2) by simp
qed

lemma sift_down_hole:
  assumes "heap_hole key h j" "n = length h"
  shows "heap_hole key (fst (sift_down key h n j)) (snd (sift_down key h n j)) \<and> \<not> 2 * snd (sift_down key h n j) + 1 < n"
  using assms
proof (induction key h n j rule: sift_down.induct)
  case (1 key h n j)
  have kid: "i = 2 * j + 1 \<or> i = 2 * j + 2" if "0 < i" "parent i = j" for i using that by auto
  consider (two) "2 * j + 2 < n" | (one) "\<not> 2 * j + 2 < n" "2 * j + 1 < n" | (leaf) "\<not> 2 * j + 1 < n" by linarith
  then show ?case
  proof cases
    case two
    define c where "c = (if key (h ! (2 * j + 2)) < key (h ! (2 * j + 1)) then 2 * j + 1 else 2 * j + 2)"
    have "heap_hole key (h[j := h ! c]) c"
    proof (rule sift_down_step [OF 1(2)])
      show "key (h ! i) \<le> key (h ! c)" if "0 < i" "parent i = j" for i using kid [OF that] by (auto simp: c_def)
    qed (use two 1(3) in \<open>auto simp: c_def\<close>)
    with 1(1) [OF two c_def] 1(3) have "heap_hole key (fst (sift_down key (h[j := h ! c]) n c)) (snd (sift_down key (h[j := h ! c]) n c))
      \<and> \<not> 2 * snd (sift_down key (h[j := h ! c]) n c) + 1 < n" by simp
    moreover have eq: "sift_down key h n j = sift_down key (h[j := h ! c]) n c"
      using two by (subst sift_down.simps) (simp add: c_def Let_def)
    ultimately show ?thesis unfolding eq by blast
  next
    case one
    have "heap_hole key (h[j := h ! (2 * j + 1)]) (2 * j + 1)"
    proof (rule sift_down_step [OF 1(2)])
      show "key (h ! i) \<le> key (h ! (2 * j + 1))" if "i < length h" "0 < i" "parent i = j" for i using kid [OF that(2,3)] that(1) one 1(3) by auto
    qed (use one 1(3) in auto)
    moreover have "sift_down key h n j = (h[j := h ! (2 * j + 1)], 2 * j + 1)" using one by (subst sift_down.simps) simp
    ultimately show ?thesis using one by simp
  next
    case leaf
    then show ?thesis using 1(2) by (subst (1 2 3) sift_down.simps) simp
  qed
qed

section \<open>Elements\<close>

lemma mset_move:
  assumes "i < length h" "j < length h" "i \<noteq> j"
  shows "mset ((h[i := h ! j])[j := v]) = mset (h[i := v])"
proof -
  have "(h[i := h ! j])[j := v] = (h[i := v])[i := (h[i := v]) ! j, j := (h[i := v]) ! i]"
    using assms by simp
  then show ?thesis using assms mset_swap [of j "h[i := v]" i] by (simp add: list_update_swap)
qed

lemma mset_sift_up: "j < length h \<Longrightarrow> mset (sift_up key h j v) = mset (h[j := v])"
proof (induction key h j v rule: sift_up.induct)
  case (1 key h j v)
  show ?case
  proof (cases "0 < j \<and> key (h ! parent j) < key v")
    case True
    then have p: "parent j < length h" "parent j \<noteq> j" using 1(2) by linarith+
    have "sift_up key h j v = sift_up key (h[j := h ! parent j]) (parent j) v" using True by (subst sift_up.simps) (rule if_P)
    with 1(1) [OF True] p mset_move [OF 1(2) p(1)] show ?thesis by auto
  next
    case False
    then have "sift_up key h j v = h[j := v]" by (subst sift_up.simps) (rule if_not_P)
    then show ?thesis by (simp only:)
  qed
qed

lemma mset_sift_down:
  assumes "j < length h" "n = length h"
  shows "snd (sift_down key h n j) < n \<and> mset ((fst (sift_down key h n j))[snd (sift_down key h n j) := v]) = mset (h[j := v])"
  using assms
proof (induction key h n j rule: sift_down.induct)
  case (1 key h n j)
  consider (two) "2 * j + 2 < n" | (one) "\<not> 2 * j + 2 < n" "2 * j + 1 < n" | (leaf) "\<not> 2 * j + 1 < n" by linarith
  then show ?case
  proof cases
    case two
    define c where "c = (if key (h ! (2 * j + 2)) < key (h ! (2 * j + 1)) then 2 * j + 1 else 2 * j + 2)"
    have c: "c < n" "j \<noteq> c" using two by (auto simp: c_def)
    have eq: "sift_down key h n j = sift_down key (h[j := h ! c]) n c"
      using two by (subst sift_down.simps) (simp add: c_def Let_def)
    show ?thesis
      unfolding eq using 1(1) [OF two c_def] 1(2,3) c mset_move [of j h c v] by simp
  next
    case one
    then have eq: "sift_down key h n j = (h[j := h ! (2 * j + 1)], 2 * j + 1)" by (subst sift_down.simps) simp
    show ?thesis unfolding eq using one 1(2,3) mset_move [of j h "2 * j + 1" v] by simp
  next
    case leaf
    then have eq: "sift_down key h n j = (h, j)" by (subst sift_down.simps) simp
    show ?thesis unfolding eq using 1(2,3) by simp
  qed
qed

section \<open>The operations\<close>

lemma heap_Nil [simp]: "heap key []"
  by (simp add: heap_def)

lemma heap_push_laws:
  assumes "heap key h"
  shows "heap key (heap_push key v h)" "mset (heap_push key v h) = add_mset v (mset h)"
proof -
  have "heap_hole key (h @ [v]) (length h)"
    using assms by (auto simp: heap_hole_def heap_def nth_append)
  then show "heap key (heap_push key v h)"
    unfolding heap_push_def by (rule sift_up_heap) auto
  show "mset (heap_push key v h) = add_mset v (mset h)"
    unfolding heap_push_def by (simp add: mset_sift_up)
qed

lemma heap_pop_laws:
  assumes "heap key h" "h \<noteq> []"
  shows "heap key (heap_pop key h)" "mset h = add_mset (hd h) (mset (heap_pop key h))"
proof -
  let ?h = "butlast h" and ?v = "last h"
  have h: "h = ?h @ [?v]" using assms(2) by simp
  have "heap key (heap_pop key h) \<and> mset h = add_mset (hd h) (mset (heap_pop key h))"
  proof (cases "?h = []")
    case True
    then have "heap_pop key h = []" by (simp add: heap_pop_def)
    moreover have "h = [hd h]" using True assms(2) by (cases h) (auto split: if_splits)
    ultimately show ?thesis by (metis heap_Nil mset.simps)
  next
    case False
    obtain h1 i where d: "sift_down key ?h (length ?h) 0 = (h1, i)" by (cases "sift_down key ?h (length ?h) 0")
    have pop: "heap_pop key h = sift_up key h1 i ?v" using False unfolding heap_pop_def Let_def d by simp
    have "0 < length ?h" using False by blast
    then have "heap_hole key ?h 0"
      using assms(1) unfolding heap_hole_def heap_def by (simp add: nth_butlast)
    then have hole: "heap_hole key h1 i" "\<not> 2 * i + 1 < length ?h" using sift_down_hole [of key ?h 0 "length ?h", unfolded d] by simp_all
    have len: "length h1 = length ?h" using length_sift_down [of key ?h "length ?h" 0, unfolded d] by simp
    have "heap key (heap_pop key h)" unfolding pop by (rule sift_up_heap [OF hole(1)]) (use hole(2) len in auto)
    moreover have "mset (h1[i := ?v]) = mset (?h[0 := ?v])" "i < length ?h"
      using mset_sift_down [of 0 ?h "length ?h" key ?v, unfolded d] \<open>0 < length ?h\<close> by simp_all
    then have "mset (heap_pop key h) = mset (?h[0 := ?v])" unfolding pop using mset_sift_up len by metis
    moreover have "mset h = add_mset (hd h) (mset (?h[0 := ?v]))"
    proof -
      obtain a t where c: "?h = a # t" using False by (cases ?h) auto
      then have "hd h = a" by (subst h) simp
      then show ?thesis by (subst h) (simp add: c)
    qed
    ultimately show ?thesis by simp
  qed
  then show "heap key (heap_pop key h)" "mset h = add_mset (hd h) (mset (heap_pop key h))" by auto
qed

lemma heap_front_max:
  assumes "heap key h" "x \<in> set h"
  shows "key x \<le> key (hd h)"
proof -
  have "i < length h \<Longrightarrow> key (h ! i) \<le> key (h ! 0)" for i
  proof (induction i rule: less_induct)
    case (less i)
    show ?case
    proof (cases "i = 0")
      case False
      then have "parent i < i" by linarith
      with less have "key (h ! parent i) \<le> key (h ! 0)" by simp
      moreover have "key (h ! i) \<le> key (h ! parent i)" using assms(1) less.prems False by (simp add: heap_def)
      ultimately show ?thesis by linarith
    qed simp
  qed
  with assms(2) show ?thesis by (metis hd_conv_nth in_set_conv_nth length_greater_0_conv list.size(3) not_less_zero)
qed

lemma length_heap_push [simp]: "length (heap_push key v h) = Suc (length h)"
  by (simp add: heap_push_def)

lemma length_heap_pop [simp]: "length (heap_pop key h) = length h - 1"
  by (cases h rule: rev_cases) (simp_all add: heap_pop_def Let_def split_def)

end
