(* ===== verification/Priority_Queue.thy ===== *)
theory Priority_Queue
  imports Pipeline_Message Std_Heap
begin

text \<open>
  \<open>PriorityQueue\<close> (include/utils/priority_queue.h, src/utils/priority_queue.cpp), the mutex-protected queue of message pointers. An operation works
  on the queue and the pool that holds the messages; it runs under the lock, so that each is one step. The order is that of
  \<open>MessagePriorityComparator\<close>, which reads the messages; \<open>None\<close> means that a pointer to no live message was followed. Waiting on a
  condition variable is an argument \<open>wait\<close>: it gives what the wait returns and the state when the lock is held again. Clock
  readings are arguments. The floating point average latency and the texts with it are left out.
\<close>

section \<open>State\<close>

datatype overflow_policy = DROP_OLDEST | DROP_NEWEST | BLOCK | REJECT_NEW

record pqueue =
  pq_queue :: "addr list"
  pq_max_size :: size_t
  pq_policy :: overflow_policy
  pq_name :: string
  pq_is_shutdown :: bool
  pq_total_pushed :: uint64
  pq_total_popped :: uint64
  pq_total_dropped :: uint64
  pq_peak_size :: size_t
  pq_total_latency :: uint64
  pq_latency_samples :: uint64

type_synonym pq_state = "pqueue \<times> message pool"

definition new_pqueue :: "size_t \<Rightarrow> overflow_policy \<Rightarrow> string \<Rightarrow> pqueue" where
  "new_pqueue max_size policy name =
    \<lparr> pq_queue = [], pq_max_size = max_size, pq_policy = policy, pq_name = name, pq_is_shutdown = False, pq_total_pushed = 0,
      pq_total_popped = 0, pq_total_dropped = 0, pq_peak_size = 0, pq_total_latency = 0, pq_latency_samples = 0 \<rparr>"

text \<open>The number that the comparator compares.\<close>

definition message_key :: "message pool \<Rightarrow> addr \<Rightarrow> nat" where
  "message_key pool a = (case pool_heap pool a of None \<Rightarrow> 0 | Some m \<Rightarrow> getPriorityIndex (msg_priority m))"

definition all_live :: "addr list \<Rightarrow> message pool \<Rightarrow> bool" where
  "all_live as pool \<longleftrightarrow> list_all (\<lambda>a. pool_heap pool a \<noteq> None) as"

definition queue_full :: "pqueue \<Rightarrow> bool" where
  "queue_full q \<longleftrightarrow> length (pq_queue q) \<ge> unat (pq_max_size q)"

section \<open>Adding\<close>

definition recordLatency :: "uint64 \<Rightarrow> pqueue \<Rightarrow> pqueue" where
  "recordLatency latency_ns q = q\<lparr>pq_total_latency := pq_total_latency q + latency_ns, pq_latency_samples := pq_latency_samples q + 1\<rparr>"

definition pushInternal :: "addr \<Rightarrow> pq_state \<Rightarrow> pq_state" where
  "pushInternal message st =
    (let (q, pool) = st;
         q = q\<lparr>pq_queue := heap_push (message_key pool) message (pq_queue q), pq_total_pushed := pq_total_pushed q + 1\<rparr>;
         current_size = of_nat (length (pq_queue q))
     in (if current_size > pq_peak_size q then q\<lparr>pq_peak_size := current_size\<rparr> else q, pool))"

definition handleOverflow :: "pq_state \<Rightarrow> bool \<times> pq_state" where
  "handleOverflow st =
    (let (q, pool) = st
     in if pq_policy q = DROP_OLDEST \<and> pq_queue q \<noteq> []
        then (True, q\<lparr>pq_queue := heap_pop (message_key pool) (pq_queue q), pq_total_dropped := pq_total_dropped q + 1\<rparr>,
                    Message_destroy (hd (pq_queue q)) pool)
        else (False, q, pool))"

definition drop_new :: "addr \<Rightarrow> pq_state \<Rightarrow> bool \<times> pq_state" where
  "drop_new message st =
    (let (q, pool) = st in (False, q\<lparr>pq_total_dropped := pq_total_dropped q + 1\<rparr>, Message_destroy message pool))"

definition store_new :: "uint64 \<Rightarrow> addr \<Rightarrow> pq_state \<Rightarrow> (bool \<times> pq_state) option" where
  "store_new latency message st =
    (if \<not> all_live (message # pq_queue (fst st)) (snd st) then None
     else let (q, pool) = pushInternal message st in Some (True, recordLatency latency q, pool))"

definition pq_push ::
    "(pq_state \<Rightarrow> bool \<times> pq_state) \<Rightarrow> uint64 \<Rightarrow> uint64 \<Rightarrow> addr \<Rightarrow> pq_state \<Rightarrow> (bool \<times> pq_state) option" where
  "pq_push wait now latency message st =
    (let (q, pool) = st
     in if pq_is_shutdown q then Some (False, q, Message_destroy message pool)
        else if message = 0 then Some (False, q, pool)
        else if pool_heap pool message = None then None
        else let pool = modify_at message (msg_set_queue_entry now) pool
             in if \<not> queue_full q then store_new latency message (q, pool)
                else case pq_policy q of
                       DROP_OLDEST \<Rightarrow>
                         if \<not> all_live (pq_queue q) pool then None
                         else let (ok, q, pool) = handleOverflow (q, pool)
                              in if \<not> ok then Some (False, q, Message_destroy message pool) else store_new latency message (q, pool)
                     | DROP_NEWEST \<Rightarrow> Some (drop_new message (q, pool))
                     | BLOCK \<Rightarrow>
                         let (success, q, pool) = wait (q, pool)
                         in if \<not> success \<or> pq_is_shutdown q then Some (False, q, Message_destroy message pool)
                            else store_new latency message (q, pool)
                     | REJECT_NEW \<Rightarrow> Some (drop_new message (q, pool)))"

section \<open>Removing\<close>

definition take_top :: "pq_state \<Rightarrow> (bool \<times> addr \<times> pq_state) option" where
  "take_top st =
    (let (q, pool) = st
     in if pq_queue q = [] then Some (False, 0, q, pool)
        else if \<not> all_live (pq_queue q) pool then None
        else Some (True, hd (pq_queue q),
               q\<lparr>pq_queue := heap_pop (message_key pool) (pq_queue q), pq_total_popped := pq_total_popped q + 1\<rparr>, pool))"

definition pq_pop :: "(pq_state \<Rightarrow> bool \<times> pq_state) \<Rightarrow> pq_state \<Rightarrow> (bool \<times> addr \<times> pq_state) option" where
  "pq_pop wait st =
    (let (success, q, pool) = (if pq_queue (fst st) \<noteq> [] \<or> pq_is_shutdown (fst st) then (True, st) else wait st)
     in if \<not> success \<or> (pq_queue q = [] \<and> pq_is_shutdown q) then Some (False, 0, q, pool)
        else take_top (q, pool))"

definition pq_tryPop :: "pq_state \<Rightarrow> (bool \<times> addr \<times> pq_state) option" where
  "pq_tryPop st = take_top st"

section \<open>Management\<close>

text \<open>Removes and destroys tops while a condition on the queue holds and it is not empty.\<close>

function destroy_tops :: "(pqueue \<Rightarrow> bool) \<Rightarrow> (pqueue \<Rightarrow> pqueue) \<Rightarrow> pq_state \<Rightarrow> pq_state option" where
  "destroy_tops cond tally (q, pool) =
    (if pq_queue q \<noteq> [] \<and> cond q then
       if \<not> all_live (pq_queue q) pool then None
       else destroy_tops cond tally
              ((tally q)\<lparr>pq_queue := heap_pop (message_key pool) (pq_queue q)\<rparr>, Message_destroy (hd (pq_queue q)) pool)
     else Some (q, pool))"
  by pat_completeness auto
termination
  by (relation "measure (\<lambda>(cond, tally, q, pool). length (pq_queue q))") auto

declare destroy_tops.simps [simp del]

definition pq_clear :: "pq_state \<Rightarrow> pq_state option" where
  "pq_clear st = destroy_tops (\<lambda>q. True) (\<lambda>q. q) st"

definition pq_shutdown :: "pqueue \<Rightarrow> pqueue" where
  "pq_shutdown q = q\<lparr>pq_is_shutdown := True\<rparr>"

definition pq_size :: "pqueue \<Rightarrow> size_t" where "pq_size q = of_nat (length (pq_queue q))"
definition pq_empty :: "pqueue \<Rightarrow> bool" where "pq_empty q \<longleftrightarrow> pq_queue q = []"
definition pq_capacity :: "pqueue \<Rightarrow> size_t" where "pq_capacity q = pq_max_size q"

definition setOverflowPolicy :: "overflow_policy \<Rightarrow> pqueue \<Rightarrow> pqueue" where
  "setOverflowPolicy policy q = q\<lparr>pq_policy := policy\<rparr>"

definition setMaxSize :: "size_t \<Rightarrow> pq_state \<Rightarrow> pq_state option" where
  "setMaxSize max_size st =
    (let (q, pool) = st
     in destroy_tops (\<lambda>q. length (pq_queue q) > unat (pq_max_size q) \<and> pq_policy q = DROP_OLDEST)
          (\<lambda>q. q\<lparr>pq_total_dropped := pq_total_dropped q + 1\<rparr>) (q\<lparr>pq_max_size := max_size\<rparr>, pool))"

fun overflowPolicyToString :: "overflow_policy \<Rightarrow> string" where
  "overflowPolicyToString DROP_OLDEST = ''DROP_OLDEST''"
| "overflowPolicyToString DROP_NEWEST = ''DROP_NEWEST''"
| "overflowPolicyToString BLOCK = ''BLOCK''"
| "overflowPolicyToString REJECT_NEW = ''REJECT''"

definition stringToOverflowPolicy :: "string \<Rightarrow> overflow_policy" where
  "stringToOverflowPolicy s =
    (if s = ''DROP_OLDEST'' then DROP_OLDEST
     else if s = ''DROP_NEWEST'' then DROP_NEWEST
     else if s = ''BLOCK'' then BLOCK
     else if s = ''REJECT'' then REJECT_NEW
     else DROP_OLDEST)"

section \<open>Invariant\<close>

definition pq_inv :: "pq_state \<Rightarrow> bool" where
  "pq_inv st \<longleftrightarrow> pool_inv (snd st) \<and> distinct (pq_queue (fst st)) \<and> set (pq_queue (fst st)) \<subseteq> dom (pool_heap (snd st))
     \<and> heap (message_key (snd st)) (pq_queue (fst st))"

lemma heap_cong: "(\<And>a. a \<in> set h \<Longrightarrow> key a = key' a) \<Longrightarrow> heap key h = heap key' h"
  by (simp add: heap_def)

lemma all_live_iff: "all_live as pool \<longleftrightarrow> set as \<subseteq> dom (pool_heap pool)"
  by (auto simp: all_live_def list_all_iff)

lemma message_key_cong: "pool_heap pool' a = pool_heap pool a \<Longrightarrow> message_key pool' a = message_key pool a"
  by (simp add: message_key_def)

lemma pq_inv_live: "pq_inv (q, pool) \<Longrightarrow> all_live (pq_queue q) pool"
  by (simp add: pq_inv_def all_live_iff)

lemma destroy_laws:
  assumes "pool_inv pool" "a \<in> dom (pool_heap pool)"
  shows "pool_inv (Message_destroy a pool)" "pool_heap (Message_destroy a pool) = (pool_heap pool)(a := None)"
proof -
  have "a \<noteq> 0" using mp.null_not_live [OF assms(1)] assms(2) by auto
  then show "pool_inv (Message_destroy a pool)" "pool_heap (Message_destroy a pool) = (pool_heap pool)(a := None)"
    using deallocate_laws [OF assms] by (simp_all add: Message_destroy_def)
qed

lemma pop_inv:
  assumes "pq_inv (q, pool)" "pq_queue q \<noteq> []" "pq_queue q' = heap_pop (message_key pool) (pq_queue q)"
  shows "pq_inv (q', pool)" "mset (pq_queue q) = add_mset (hd (pq_queue q)) (mset (pq_queue q'))" "hd (pq_queue q) \<notin> set (pq_queue q')"
    "set (pq_queue q') = set (pq_queue q) - {hd (pq_queue q)}"
proof -
  have h: "heap (message_key pool) (pq_queue q)" "distinct (pq_queue q)" using assms(1) by (simp_all add: pq_inv_def)
  note laws = heap_pop_laws [OF h(1) assms(2), folded assms(3)]
  show m: "mset (pq_queue q) = add_mset (hd (pq_queue q)) (mset (pq_queue q'))" by (rule laws(2))
  have "count (mset (pq_queue q)) a \<le> 1" for a using h(2) by (metis distinct_count_atmost_1 order.refl zero_le)
  then have d: "distinct (pq_queue q')" "hd (pq_queue q) \<notin> set (pq_queue q')"
    using h(2) m by (metis distinct.simps(2) mset.simps(2) mset_eq_imp_distinct_iff)+
  then show "hd (pq_queue q) \<notin> set (pq_queue q')" by simp
  show s: "set (pq_queue q') = set (pq_queue q) - {hd (pq_queue q)}"
    using m d(2) by (metis Diff_insert_absorb set_mset_add_mset_insert set_mset_mset)
  show "pq_inv (q', pool)" using assms(1) d(1) s laws(1) by (auto simp: pq_inv_def)
qed

section \<open>Order of service\<close>

primrec pop_n :: "nat \<Rightarrow> pq_state \<Rightarrow> (addr list \<times> pq_state) option" where
  "pop_n 0 st = Some ([], st)"
| "pop_n (Suc n) st =
    Option.bind (pq_tryPop st) (\<lambda>(ok, a, st). if ok then map_option (\<lambda>(as, st). (a # as, st)) (pop_n n st) else Some ([], st))"

lemma pop_n_order:
  assumes "pq_inv (q, pool)" "n = length (pq_queue q)"
  shows "\<exists>as q'. pop_n n (q, pool) = Some (as, q', pool) \<and> mset as = mset (pq_queue q) \<and> pq_queue q' = []
    \<and> sorted_wrt (\<lambda>a b. message_key pool a \<ge> message_key pool b) as"
  using assms
proof (induction n arbitrary: q)
  case (Suc n)
  then have ne: "pq_queue q \<noteq> []" by auto
  let ?a = "hd (pq_queue q)"
  let ?q = "q\<lparr>pq_queue := heap_pop (message_key pool) (pq_queue q), pq_total_popped := pq_total_popped q + 1\<rparr>"
  have t: "pq_tryPop (q, pool) = Some (True, ?a, ?q, pool)"
    using ne pq_inv_live [OF Suc.prems(1)] by (simp add: pq_tryPop_def take_top_def)
  have p: "pq_inv (?q, pool)" "mset (pq_queue q) = add_mset ?a (mset (pq_queue ?q))"
    using pop_inv [OF Suc.prems(1) ne, of ?q] by simp_all
  moreover have "n = length (pq_queue ?q)" using Suc.prems(2) by simp
  ultimately obtain as q' where r: "pop_n n (?q, pool) = Some (as, q', pool)" "mset as = mset (pq_queue ?q)" "pq_queue q' = []"
    "sorted_wrt (\<lambda>a b. message_key pool a \<ge> message_key pool b) as" using Suc.IH by blast
  have "message_key pool b \<le> message_key pool ?a" if "b \<in> set as" for b
  proof (rule heap_front_max)
    show "heap (message_key pool) (pq_queue q)" using Suc.prems(1) by (simp add: pq_inv_def)
    show "b \<in> set (pq_queue q)" using that r(2) p(2) by (metis insertCI set_mset_add_mset_insert set_mset_mset)
  qed
  with t r p(2) show ?case by (intro exI [of _ "?a # as"] exI [of _ q']) simp
qed simp

text \<open>C36: Taking all messages out of the queue returns each exactly once, and in the order of their priority number from the largest to the
  smallest: messages of priority LOW are served first and those of priority CRITICAL last.\<close>

theorem pq_serves_low_first:
  assumes "pq_inv (q, pool)"
  shows "\<exists>as q'. pop_n (length (pq_queue q)) (q, pool) = Some (as, q', pool) \<and> mset as = mset (pq_queue q) \<and> pq_queue q' = []
    \<and> (\<forall>i j. i < j \<and> j < length as \<longrightarrow> message_key pool (as ! i) \<ge> message_key pool (as ! j))"
  using pop_n_order [OF assms refl] by (auto simp: sorted_wrt_iff_nth_less)

lemma demo_queue:
  "\<exists>pool a b. pool_inv pool \<and> pool_heap pool = [a \<mapsto> Message_detailed 1 ''1'' ''1'' ''critical'' CRITICAL MT_ORDER [] [] 0,
     b \<mapsto> Message_detailed 1 ''2'' ''2'' ''low'' LOW MT_ORDER [] [] 0] \<and> a \<noteq> b \<and> p_size pool = 3 \<and> \<not> p_shutdown pool"
proof -
  let ?c = "Message_detailed 1 ''1'' ''1'' ''critical'' CRITICAL MT_ORDER [] [] 0" and ?l = "Message_detailed 1 ''2'' ''2'' ''low'' LOW MT_ORDER [] [] 0"
  obtain p :: "message pool" where p: "newPool 4096 64 3 ''pool'' = Inr p" by (simp add: newPool_def)
  have inv: "pool_inv p" "pool_heap p = Map.empty" "p_size p = 3" "\<not> p_shutdown p" using newPool_inv [OF p] by auto
  obtain a p1 where a: "allocate ?c p = (a, p1)" by (cases "allocate ?c p")
  note l1 = allocate_laws [OF inv(1), of ?c, unfolded a fst_conv snd_conv]
  have a0: "a \<noteq> 0" using l1(4) inv by simp
  then have h1: "pool_heap p1 = [a \<mapsto> ?c]" using l1(6) inv(2) by simp
  obtain b p2 where b: "allocate ?l p1 = (b, p2)" by (cases "allocate ?l p1")
  note l2 = allocate_laws [OF l1(1), of ?l, unfolded b fst_conv snd_conv]
  have b0: "b \<noteq> 0" using l2(4) l1(2,3) inv(3,4) h1 by simp
  have "a \<noteq> b" using l2(5) b0 h1 by auto
  moreover have "p_size p2 = 3" "\<not> p_shutdown p2" using l2(2,3) l1(2,3) inv(3,4) by (simp_all add: word_unat_eq_iff)
  ultimately show ?thesis using l2(1,6) b0 h1 by (intro exI [of _ p2] exI [of _ a] exI [of _ b]) simp
qed

lemma pq_serves_low_first_witness:
  "\<exists>q pool a b q'. pq_queue q = [b, a] \<and> map_option msg_priority (pool_heap pool a) = Some CRITICAL \<and> map_option msg_priority (pool_heap pool b) = Some LOW
     \<and> pop_n 2 (q, pool) = Some ([b, a], q', pool)"
proof -
  obtain pool a b where d: "pool_inv pool" "pool_heap pool = [a \<mapsto> Message_detailed 1 ''1'' ''1'' ''critical'' CRITICAL MT_ORDER [] [] 0,
     b \<mapsto> Message_detailed 1 ''2'' ''2'' ''low'' LOW MT_ORDER [] [] 0]" "a \<noteq> b" using demo_queue by blast
  let ?q = "(new_pqueue 3 DROP_OLDEST ''q'')\<lparr>pq_queue := [b, a]\<rparr>"
  have k: "message_key pool a = 0" "message_key pool b = 3" using d(3) by (simp_all add: message_key_def d(2) Message_detailed_def)
  have "pq_inv (?q, pool)" using d k by (auto simp: pq_inv_def heap_def less_Suc_eq)
  from pq_serves_low_first [OF this] obtain as q' where r: "pop_n 2 (?q, pool) = Some (as, q', pool)" "mset as = mset [b, a]"
    "\<And>i j. i < j \<Longrightarrow> j < length as \<Longrightarrow> message_key pool (as ! i) \<ge> message_key pool (as ! j)" by (auto simp: numeral_2_eq_2)
  have len: "length as = 2" using arg_cong [OF r(2), of size] by simp
  then obtain x y where as: "as = [x, y]" by (cases as; cases "tl as") auto
  have "{x, y} = {a, b}" using arg_cong [OF r(2), of set_mset] as by auto
  moreover have "message_key pool x \<ge> message_key pool y" using r(3) [of 0 1] as by simp
  ultimately have "as = [b, a]" using as k d(3) by (auto simp: doubleton_eq_iff)
  then show ?thesis
    using r(1) d(2,3) by (intro exI [of _ ?q] exI [of _ pool] exI [of _ a] exI [of _ b] exI [of _ q']) (simp add: Message_detailed_def)
qed

section \<open>Overflow and ownership\<close>

text \<open>The two ways an addition ends. The message is stored, after the messages \<open>gone\<close> have been dropped to make room, and is counted, as are
  the dropped ones; or the message is destroyed and \<open>n\<close> drops are counted.\<close>

definition push_stored :: "addr set \<Rightarrow> uint64 \<Rightarrow> addr \<Rightarrow> pq_state \<Rightarrow> pq_state \<Rightarrow> bool" where
  "push_stored gone latency message st st' \<longleftrightarrow>
    (let (q, pool) = st; (q', pool') = st'
     in mset (pq_queue q') = add_mset message (mset (pq_queue q) - mset_set gone) \<and> dom (pool_heap pool') = dom (pool_heap pool) - gone
      \<and> pq_total_pushed q' = pq_total_pushed q + 1 \<and> pq_total_popped q' = pq_total_popped q
      \<and> pq_total_dropped q' = pq_total_dropped q + of_nat (card gone) \<and> pq_peak_size q' = max (pq_peak_size q) (pq_size q')
      \<and> pq_latency_samples q' = pq_latency_samples q + 1 \<and> pq_total_latency q' = pq_total_latency q + latency)"

definition push_refused :: "uint64 \<Rightarrow> addr \<Rightarrow> pq_state \<Rightarrow> pq_state \<Rightarrow> bool" where
  "push_refused n message st st' \<longleftrightarrow>
    fst st' = (fst st)\<lparr>pq_total_dropped := pq_total_dropped (fst st) + n\<rparr>
    \<and> dom (pool_heap (snd st')) = dom (pool_heap (snd st)) - {message}"

lemma store_new_ok:
  assumes "pq_inv (q, pool)" "message \<in> dom (pool_heap pool)" "message \<notin> set (pq_queue q)"
  shows "\<exists>q'. store_new latency message (q, pool) = Some (True, q', pool) \<and> pq_inv (q', pool)
    \<and> push_stored {} latency message (q, pool) (q', pool) \<and> pq_max_size q' = pq_max_size q"
proof -
  let ?h = "heap_push (message_key pool) message (pq_queue q)"
  have laws: "heap (message_key pool) ?h" "mset ?h = add_mset message (mset (pq_queue q))"
    using heap_push_laws assms(1) by (auto simp: pq_inv_def)
  obtain q' where q': "store_new latency message (q, pool) = Some (True, q', pool)" "pq_queue q' = ?h" "pq_max_size q' = pq_max_size q"
    "push_stored {} latency message (q, pool) (q', pool)"
  proof (cases "of_nat (length ?h) > pq_peak_size q")
    case True
    let ?q = "q\<lparr>pq_queue := ?h, pq_total_pushed := pq_total_pushed q + 1, pq_peak_size := of_nat (length ?h),
        pq_total_latency := pq_total_latency q + latency, pq_latency_samples := pq_latency_samples q + 1\<rparr>"
    have "store_new latency message (q, pool) = Some (True, ?q, pool)"
      using True assms(1,2) by (simp add: store_new_def all_live_iff pq_inv_def pushInternal_def recordLatency_def Let_def)
    then show ?thesis using True laws(2) by (intro that [of ?q]) (auto simp: push_stored_def pq_size_def max_def)
  next
    case False
    let ?q = "q\<lparr>pq_queue := ?h, pq_total_pushed := pq_total_pushed q + 1,
        pq_total_latency := pq_total_latency q + latency, pq_latency_samples := pq_latency_samples q + 1\<rparr>"
    have "store_new latency message (q, pool) = Some (True, ?q, pool)"
      using False assms(1,2) by (simp add: store_new_def all_live_iff pq_inv_def pushInternal_def recordLatency_def Let_def)
    then show ?thesis using False laws(2) by (intro that [of ?q]) (auto simp: push_stored_def pq_size_def max_def)
  qed
  have "distinct (message # pq_queue q)" using assms(1,3) by (simp add: pq_inv_def)
  then have "distinct ?h" using laws(2) by (metis mset.simps(2) mset_eq_imp_distinct_iff)
  moreover have "set ?h = insert message (set (pq_queue q))" using laws(2) by (metis set_mset_add_mset_insert set_mset_mset)
  ultimately show ?thesis using q' laws assms(1,2) by (auto simp: pq_inv_def)
qed

lemma pq_inv_pool:
  assumes "pq_inv (q, pool)" "pool_inv pool'" "\<And>a. a \<in> set (pq_queue q') \<Longrightarrow> a \<in> dom (pool_heap pool') \<and> message_key pool' a = message_key pool a"
    "pq_queue q' = pq_queue q"
  shows "pq_inv (q', pool')"
proof -
  have "heap (message_key pool') (pq_queue q)" using assms by (subst heap_cong [of _ _ "message_key pool"]) (auto simp: pq_inv_def)
  with assms show ?thesis by (auto simp: pq_inv_def)
qed

text \<open>The time stamp set on entry changes neither the order nor what is live.\<close>

lemma entry_stamp:
  fixes now :: uint64
  assumes "pq_inv (q, pool)" "message \<in> dom (pool_heap pool)"
  defines "p1 \<equiv> modify_at message (msg_set_queue_entry now) pool"
  shows "pq_inv (q, p1)" "dom (pool_heap p1) = dom (pool_heap pool)" "message_key p1 = message_key pool"
proof -
  have inv: "pool_inv pool" using assms(1) by (simp add: pq_inv_def)
  have p1: "pool_inv p1" "pool_heap p1 = (pool_heap pool)(message \<mapsto> msg_set_queue_entry now (the (pool_heap pool message)))"
    using modify_at_laws [OF inv, of message "msg_set_queue_entry now"] assms(2) by (simp_all add: p1_def)
  show key: "message_key p1 = message_key pool"
    using assms(2) by (auto simp: fun_eq_iff message_key_def p1(2) msg_set_queue_entry_def)
  show dom: "dom (pool_heap p1) = dom (pool_heap pool)" using assms(2) by (auto simp: p1(2))
  show "pq_inv (q, p1)" using assms(1) key dom by (intro pq_inv_pool [OF assms(1) p1(1)]) (auto simp: pq_inv_def)
qed

lemma pq_push_cases:
  assumes "pq_inv (q, pool)" "message \<in> dom (pool_heap pool)" "\<not> pq_is_shutdown q"
  shows "pq_push wait now latency message (q, pool) =
    (let p1 = modify_at message (msg_set_queue_entry now) pool
     in if \<not> queue_full q then store_new latency message (q, p1)
        else case pq_policy q of
               DROP_OLDEST \<Rightarrow>
                 (let (ok, st) = handleOverflow (q, p1)
                  in if \<not> ok then Some (False, fst st, Message_destroy message (snd st)) else store_new latency message st)
             | BLOCK \<Rightarrow>
                 (let (success, st) = wait (q, p1)
                  in if \<not> success \<or> pq_is_shutdown (fst st) then Some (False, fst st, Message_destroy message (snd st))
                     else store_new latency message st)
             | _ \<Rightarrow> Some (drop_new message (q, p1)))"
proof -
  have nz: "message \<noteq> 0" "pool_heap pool message \<noteq> None" using mp.null_not_live [of pool] assms(1,2) by (auto simp: pq_inv_def)
  show ?thesis
    using nz assms(3) pq_inv_live [OF entry_stamp(1) [OF assms(1,2), of now]]
    by (cases "pq_policy q") (auto simp: pq_push_def Let_def split_def)
qed

lemma drop_front:
  assumes "pq_inv (q, pool)" "pq_queue q \<noteq> []" "pq_policy q = DROP_OLDEST"
  shows "\<exists>q' pool'. handleOverflow (q, pool) = (True, q', pool') \<and> pq_inv (q', pool')
    \<and> mset (pq_queue q) = add_mset (hd (pq_queue q)) (mset (pq_queue q')) \<and> set (pq_queue q') = set (pq_queue q) - {hd (pq_queue q)}
    \<and> dom (pool_heap pool') = dom (pool_heap pool) - {hd (pq_queue q)}
    \<and> (\<exists>h. q' = q\<lparr>pq_queue := h, pq_total_dropped := pq_total_dropped q + 1\<rparr>)"
proof -
  let ?v = "hd (pq_queue q)"
  let ?q = "q\<lparr>pq_queue := heap_pop (message_key pool) (pq_queue q), pq_total_dropped := pq_total_dropped q + 1\<rparr>"
  have "?v \<in> set (pq_queue q)" using assms(2) by simp
  then have v: "?v \<in> dom (pool_heap pool)" and inv: "pool_inv pool" using assms(1) by (auto simp: pq_inv_def)
  note d = destroy_laws [OF inv v]
  note pop = pop_inv [OF assms(1,2), of ?q, simplified]
  have "pq_inv (?q, Message_destroy ?v pool)"
    by (rule pq_inv_pool [OF pop(1) d(1)]) (use pop(1,3,4) in \<open>auto simp: pq_inv_def d(2) message_key_def\<close>)
  with pop(2,4) d(2) assms(2,3) show ?thesis by (auto simp: handleOverflow_def)
qed

text \<open>Destroying the message that could not be added.\<close>

lemma refuse_ok:
  assumes "pq_inv (q, pool)" "message \<in> dom (pool_heap pool)" "message \<notin> set (pq_queue q)" "q' = q\<lparr>pq_total_dropped := pq_total_dropped q + n\<rparr>"
  shows "pq_inv (q', Message_destroy message pool)" "push_refused n message (q, pool) (q', Message_destroy message pool)"
proof -
  have inv: "pool_inv pool" using assms(1) by (simp add: pq_inv_def)
  note d = destroy_laws [OF inv assms(2)]
  show "pq_inv (q', Message_destroy message pool)"
    by (rule pq_inv_pool [OF assms(1) d(1)]) (use assms(1,3,4) in \<open>auto simp: pq_inv_def d(2) message_key_def\<close>)
  show "push_refused n message (q, pool) (q', Message_destroy message pool)" using d(2) assms(4) by (simp add: push_refused_def)
qed

text \<open>A full queue that drops its front.\<close>

lemma push_drop_front:
  assumes "pq_inv (q, pool)" "message \<in> dom (pool_heap pool)" "message \<notin> set (pq_queue q)" "pq_queue q \<noteq> []" "pq_policy q = DROP_OLDEST"
  shows "\<exists>st q' pool'. handleOverflow (q, pool) = (True, st) \<and> store_new latency message st = Some (True, q', pool') \<and> pq_inv (q', pool')
    \<and> push_stored {hd (pq_queue q)} latency message (q, pool) (q', pool') \<and> pq_max_size q' = pq_max_size q"
proof -
  let ?v = "hd (pq_queue q)"
  obtain q2 p2 h where o: "handleOverflow (q, pool) = (True, q2, p2)" "pq_inv (q2, p2)" "mset (pq_queue q) = add_mset ?v (mset (pq_queue q2))"
    "set (pq_queue q2) = set (pq_queue q) - {?v}" "dom (pool_heap p2) = dom (pool_heap pool) - {?v}"
    "q2 = q\<lparr>pq_queue := h, pq_total_dropped := pq_total_dropped q + 1\<rparr>"
    using drop_front [OF assms(1,4,5)] by (elim exE conjE)
  have "message \<in> dom (pool_heap p2)" "message \<notin> set (pq_queue q2)"
    using assms(2,3) hd_in_set [OF assms(4)] unfolding o(4,5) by auto
  then obtain q' where q': "store_new latency message (q2, p2) = Some (True, q', p2)" "pq_inv (q', p2)"
    "push_stored {} latency message (q2, p2) (q', p2)" "pq_max_size q' = pq_max_size q2" using store_new_ok [OF o(2)] by blast
  have "push_stored {?v} latency message (q, pool) (q', p2)"
    using q'(3) o(3,5,6) by (simp add: push_stored_def pq_size_def)
  with o(1,6) q' show ?thesis by (intro exI [of _ "(q2, p2)"] exI [of _ q'] exI [of _ p2]) simp
qed

text \<open>What a waiting producer relies on: when \<open>wait_for\<close> reports success there is room or the queue has been shut down, and the other threads have kept the queue
  in order and left the message alone.\<close>

definition wait_keeps :: "addr \<Rightarrow> bool \<times> pq_state \<Rightarrow> bool" where
  "wait_keeps message r \<longleftrightarrow>
    (let (success, q, pool) = r
     in pq_inv (q, pool) \<and> message \<in> dom (pool_heap pool) \<and> message \<notin> set (pq_queue q) \<and> length (pq_queue q) \<le> unat (pq_max_size q)
      \<and> (success \<longrightarrow> length (pq_queue q) < unat (pq_max_size q) \<or> pq_is_shutdown q))"

text \<open>The outcome of an addition, for every policy.\<close>

definition push_outcome :: "(pq_state \<Rightarrow> bool \<times> pq_state) \<Rightarrow> uint64 \<Rightarrow> uint64 \<Rightarrow> addr \<Rightarrow> pq_state \<Rightarrow> bool \<Rightarrow> pq_state \<Rightarrow> bool" where
  "push_outcome wait now latency message st ok st' \<longleftrightarrow>
    (let (q, pool) = st
     in if pq_is_shutdown q then \<not> ok \<and> push_refused 0 message st st'
        else if length (pq_queue q) < unat (pq_max_size q) then ok \<and> push_stored {} latency message st st'
        else case pq_policy q of
               DROP_OLDEST \<Rightarrow>
                 if pq_queue q = [] then \<not> ok \<and> push_refused 0 message st st'
                 else ok \<and> push_stored {hd (pq_queue q)} latency message st st'
                   \<and> (\<forall>a \<in> set (pq_queue q). message_key pool a \<le> message_key pool (hd (pq_queue q)))
             | BLOCK \<Rightarrow>
                 (let (success, st1) = wait (q, modify_at message (msg_set_queue_entry now) pool)
                  in if success \<and> \<not> pq_is_shutdown (fst st1) then ok \<and> push_stored {} latency message st1 st'
                     else \<not> ok \<and> push_refused 0 message st1 st')
             | _ \<Rightarrow> \<not> ok \<and> push_refused 1 message st st')"

lemma push_effect_cong:
  assumes "dom (pool_heap pool1) = dom (pool_heap pool)"
  shows "push_stored gone latency message (q, pool1) st = push_stored gone latency message (q, pool) st"
    "push_refused n message (q, pool1) st = push_refused n message (q, pool) st"
  using assms by (simp_all add: push_stored_def push_refused_def)

lemma push_stored_length:
  "push_stored {} latency message (q, pool) (q', pool') \<Longrightarrow> length (pq_queue q') = Suc (length (pq_queue q))"
  "push_stored {v} latency message (q, pool) (q', pool') \<Longrightarrow> v \<in> set (pq_queue q) \<Longrightarrow> length (pq_queue q') = length (pq_queue q)"
proof -
  assume "push_stored {} latency message (q, pool) (q', pool')"
  then show "length (pq_queue q') = Suc (length (pq_queue q))"
    by (auto simp: push_stored_def dest: arg_cong [of _ _ size])
next
  assume p: "push_stored {v} latency message (q, pool) (q', pool')" and v: "v \<in> set (pq_queue q)"
  from p have "size (mset (pq_queue q')) = Suc (size (mset (pq_queue q) - {#v#}))" by (simp add: push_stored_def)
  with v show "length (pq_queue q') = length (pq_queue q)" by (simp add: size_Diff_singleton) (metis Suc_pred length_pos_if_in_set)
qed

lemma pq_push_full:
  assumes "pq_inv (q, pool)" "message \<in> dom (pool_heap pool)" "message \<notin> set (pq_queue q)" "\<not> pq_is_shutdown q"
    and "length (pq_queue q) = unat (pq_max_size q)"
    and "pq_policy q = BLOCK \<longrightarrow> wait_keeps message (wait (q, modify_at message (msg_set_queue_entry now) pool))"
  shows "\<exists>ok q' pool'. pq_push wait now latency message (q, pool) = Some (ok, q', pool') \<and> pq_inv (q', pool')
    \<and> length (pq_queue q') \<le> unat (pq_max_size q') \<and> push_outcome wait now latency message (q, pool) ok (q', pool')"
proof -
  define p1 where "p1 = modify_at message (msg_set_queue_entry now) pool"
  note p1 = entry_stamp [OF assms(1,2), of now, folded p1_def]
  note cong = push_effect_cong [OF p1(2)]
  have live1: "message \<in> dom (pool_heap p1)" using assms(2) p1(2) by simp
  have full: "queue_full q" using assms(5) by (simp add: queue_full_def)
  note push = pq_push_cases [OF assms(1,2,4), of wait now latency, folded p1_def, unfolded Let_def]
  note refuse = refuse_ok [OF p1(1) live1 assms(3)]
  show ?thesis
  proof (cases "pq_policy q")
    case DROP_OLDEST
    show ?thesis
    proof (cases "pq_queue q = []")
      case True
      with push full DROP_OLDEST have "pq_push wait now latency message (q, pool) = Some (False, q, Message_destroy message p1)" by (simp add: handleOverflow_def)
      with True DROP_OLDEST assms(4,5) refuse [of q 0] cong show ?thesis
        by (intro exI [of _ False] exI [of _ q] exI [of _ "Message_destroy message p1"]) (simp add: push_outcome_def)
    next
      case False
      obtain st q' pool' where o: "handleOverflow (q, p1) = (True, st)" "store_new latency message st = Some (True, q', pool')" "pq_inv (q', pool')"
        "push_stored {hd (pq_queue q)} latency message (q, p1) (q', pool')" "pq_max_size q' = pq_max_size q"
        using push_drop_front [OF p1(1) live1 assms(3) False DROP_OLDEST, of latency] by (elim exE conjE)
      have "\<forall>a \<in> set (pq_queue q). message_key pool a \<le> message_key pool (hd (pq_queue q))"
        using heap_front_max [of "message_key pool" "pq_queue q"] assms(1) by (auto simp: pq_inv_def)
      moreover have "length (pq_queue q') \<le> unat (pq_max_size q')" using push_stored_length(2) [OF o(4)] False assms(5) o(5) by simp
      ultimately show ?thesis using push full DROP_OLDEST False assms(4,5) o cong
        by (intro exI [of _ True] exI [of _ q'] exI [of _ pool']) (simp add: push_outcome_def)
    qed
  next
    case BLOCK
    obtain success q1 pool1 where w: "wait (q, p1) = (success, q1, pool1)" by (cases "wait (q, p1)")
    with assms(6) BLOCK have k: "pq_inv (q1, pool1)" "message \<in> dom (pool_heap pool1)" "message \<notin> set (pq_queue q1)"
      "length (pq_queue q1) \<le> unat (pq_max_size q1)" "success \<longrightarrow> length (pq_queue q1) < unat (pq_max_size q1) \<or> pq_is_shutdown q1"
      by (simp_all add: wait_keeps_def p1_def)
    show ?thesis
    proof (cases "success \<and> \<not> pq_is_shutdown q1")
      case True
      obtain q' where q': "store_new latency message (q1, pool1) = Some (True, q', pool1)" "pq_inv (q', pool1)"
        "push_stored {} latency message (q1, pool1) (q', pool1)" "pq_max_size q' = pq_max_size q1" using store_new_ok [OF k(1-3)] by blast
      moreover have "length (pq_queue q') \<le> unat (pq_max_size q')" using push_stored_length(1) [OF q'(3)] True k(5) q'(4) by simp
      ultimately show ?thesis using push full BLOCK w True assms(4,5)
        by (intro exI [of _ True] exI [of _ q'] exI [of _ pool1]) (simp add: push_outcome_def p1_def [symmetric])
    next
      case False
      then have "pq_push wait now latency message (q, pool) = Some (False, q1, Message_destroy message pool1)" using push full BLOCK w by auto
      with False BLOCK w k assms(4,5) refuse_ok [OF k(1-3), of q1 0] show ?thesis by (auto simp: push_outcome_def p1_def [symmetric])
    qed
  qed (use push full assms(4,5) refuse [OF refl, of 1] cong in
      \<open>auto simp: drop_new_def push_outcome_def intro!: exI [of _ False]\<close>)
qed

lemma pq_push_effect:
  assumes "pq_inv (q, pool)" "message \<in> dom (pool_heap pool)" "message \<notin> set (pq_queue q)" "length (pq_queue q) \<le> unat (pq_max_size q)"
    and "pq_policy q = BLOCK \<longrightarrow> wait_keeps message (wait (q, modify_at message (msg_set_queue_entry now) pool))"
  shows "\<exists>ok q' pool'. pq_push wait now latency message (q, pool) = Some (ok, q', pool') \<and> pq_inv (q', pool')
    \<and> length (pq_queue q') \<le> unat (pq_max_size q') \<and> push_outcome wait now latency message (q, pool) ok (q', pool')"
proof -
  consider "pq_is_shutdown q" | "\<not> pq_is_shutdown q" "length (pq_queue q) = unat (pq_max_size q)"
    | "\<not> pq_is_shutdown q" "length (pq_queue q) < unat (pq_max_size q)" using assms(4) by linarith
  then show ?thesis
  proof cases
    case 1
    with refuse_ok [OF assms(1-3), of q 0] assms(4) show ?thesis
      by (intro exI [of _ False] exI [of _ q] exI [of _ "Message_destroy message pool"]) (simp add: pq_push_def push_outcome_def)
  next
    case 2
    with assms(1-3,5) show ?thesis by (intro pq_push_full)
  next
    case 3
    define p1 where "p1 = modify_at message (msg_set_queue_entry now) pool"
    note p1 = entry_stamp [OF assms(1,2), of now, folded p1_def]
    obtain q' where q': "store_new latency message (q, p1) = Some (True, q', p1)" "pq_inv (q', p1)"
      "push_stored {} latency message (q, p1) (q', p1)" "pq_max_size q' = pq_max_size q" using store_new_ok [OF p1(1) _ assms(3)] assms(2) p1(2) by blast
    moreover have "length (pq_queue q') \<le> unat (pq_max_size q')" using push_stored_length(1) [OF q'(3)] 3 q'(4) by simp
    ultimately show ?thesis
      using pq_push_cases [OF assms(1,2) 3(1), of wait now latency, folded p1_def] 3 push_effect_cong [OF p1(2)]
      by (intro exI [of _ True] exI [of _ q'] exI [of _ p1]) (simp add: queue_full_def push_outcome_def)
  qed
qed

text \<open>C37: Adding a live message to a queue either stores it or destroys it, and never leaks one, whatever the overflow policy; the queue stays within its size.
  A queue that has been shut down destroys the message. With room it is stored. A full queue that drops or rejects new messages destroys it,
  keeps its content and counts one drop. A full queue that drops the oldest instead destroys the message at the front, one with the largest priority
  number, which is the one that would have been served next, counts that drop and stores the new one; with size 0 there is no such message and the
  new one is destroyed. A full queue that blocks stores the message into the queue it finds after the wait, or destroys it when
  the wait timed out or the queue was shut down, and counts no drop. What is stored is counted once, with its latency, and
  raises the peak size; other counters do not change. The condition on \<open>wait\<close> is for the policy BLOCK only.\<close>

theorem pq_push_spec:
  assumes "pq_inv (q, pool)" "message \<in> dom (pool_heap pool)" "message \<notin> set (pq_queue q)" "length (pq_queue q) \<le> unat (pq_max_size q)"
    and "pq_policy q = BLOCK \<longrightarrow> wait_keeps message (wait (q, modify_at message (msg_set_queue_entry now) pool))"
  shows "\<exists>ok q' pool'. pq_push wait now latency message (q, pool) = Some (ok, q', pool') \<and> pq_inv (q', pool')
    \<and> length (pq_queue q') \<le> unat (pq_max_size q') \<and> push_outcome wait now latency message (q, pool) ok (q', pool')"
  using assms by (rule pq_push_effect)

lemma pq_push_spec_witness:
  "\<exists>q pool message other q' pool'. pq_policy q = BLOCK \<and> length (pq_queue q) = 1
     \<and> pq_push (\<lambda>(q, pool). (True, q\<lparr>pq_queue := [], pq_total_popped := 1\<rparr>, pool)) 7 5 message (q, pool) = Some (True, q', pool')
     \<and> pq_queue q' = [message] \<and> pq_total_pushed q' = 2 \<and> pq_total_popped q' = 1 \<and> pq_total_dropped q' = 0 \<and> dom (pool_heap pool') = {message, other}"
proof -
  obtain pool a b where d: "pool_inv pool" "pool_heap pool = [a \<mapsto> Message_detailed 1 ''1'' ''1'' ''critical'' CRITICAL MT_ORDER [] [] 0,
     b \<mapsto> Message_detailed 1 ''2'' ''2'' ''low'' LOW MT_ORDER [] [] 0]" "a \<noteq> b" using demo_queue by blast
  let ?q = "(new_pqueue 1 BLOCK ''q'')\<lparr>pq_queue := [b], pq_total_pushed := 1\<rparr>"
  let ?wait = "\<lambda>(q :: pqueue, pool :: message pool). (True, q\<lparr>pq_queue := [], pq_total_popped := 1\<rparr>, pool)"
  have inv: "pq_inv (?q, pool)" using d by (auto simp: pq_inv_def heap_def)
  have h: "a \<in> dom (pool_heap pool)" "a \<notin> set (pq_queue ?q)" "length (pq_queue ?q) \<le> unat (pq_max_size ?q)"
    using d(2,3) by (simp_all add: new_pqueue_def)
  let ?p1 = "modify_at a (msg_set_queue_entry 7) pool"
  have p1: "pool_inv ?p1" "dom (pool_heap ?p1) = {a, b}"
    using entry_stamp(1,2) [OF inv h(1), of 7] d(2,3) by (auto simp: pq_inv_def)
  have w: "wait_keeps a (?wait (?q, ?p1))" using p1 by (simp add: wait_keeps_def pq_inv_def heap_def new_pqueue_def)
  have "push_outcome ?wait 7 5 a (?q, pool) ok (q', pool') = (ok \<and> push_stored {} 5 a (?q\<lparr>pq_queue := [], pq_total_popped := 1\<rparr>, ?p1) (q', pool'))"
    for ok q' pool' by (simp add: push_outcome_def new_pqueue_def)
  with pq_push_spec [OF inv h, of ?wait 7 5] w obtain q' pool' where r: "pq_push ?wait 7 5 a (?q, pool) = Some (True, q', pool')"
    "push_stored {} 5 a (?q\<lparr>pq_queue := [], pq_total_popped := 1\<rparr>, ?p1) (q', pool')" by auto
  have "pq_queue q' = [a]" "pq_total_pushed q' = 2" "pq_total_popped q' = 1" "pq_total_dropped q' = 0" "dom (pool_heap pool') = {a, b}"
    using r(2) p1(2) by (simp_all add: push_stored_def new_pqueue_def)
  then show ?thesis using r(1)
    by (intro exI [of _ ?q] exI [of _ pool] exI [of _ a] exI [of _ b] exI [of _ q'] exI [of _ pool']) (simp add: new_pqueue_def)
qed

end
