(* ===== verification/Tcp_Connection.thy ===== *)
theory Tcp_Connection
  imports Gateway_Prelude
begin

text \<open>
  \<open>TcpConnection\<close> (include/network/tcp_connection.h, src/network/tcp_connection.cpp). What the operating system answers is given to each
  operation: the outcome of the calls that set up a socket, and the list of results of \<open>send\<close> or \<open>recv\<close>. The record has two
  observations that the object itself does not store: the bytes that the system has accepted for transmission and the callbacks
  that were made. A loop that waits for a result that the list does not have gives \<open>None\<close>. Whether a thread object is joinable is
  part of the state; assigning to a joinable one ends the process, which is also \<open>None\<close>. \<open>reconnect\<close> and \<open>onError\<close> are declared but have
  no definition. Performance counters and logging are left out.
\<close>

section \<open>State\<close>

datatype errno = ECONNRESET | EPIPE | EWOULDBLOCK | ENOTCONN | EINTR | Other_Errno string

datatype send_result = Sent_Bytes nat | Send_Error errno

datatype recv_result = Received string | Recv_Error errno

datatype tcp_event = Data_Callback string | Error_Callback string | Disconnect_Callback

record tcp =
  tc_socket_open :: bool
  tc_connected :: bool
  tc_receiving :: bool
  tc_host :: string
  tc_port :: int
  tc_thread_joinable :: bool
  tc_receive_buffer :: string
  tc_last_error :: string
  tc_data_callback :: bool
  tc_error_callback :: bool
  tc_disconnect_callback :: bool
  tc_sent :: string
  tc_events :: "tcp_event list"

definition new_tcp :: tcp where
  "new_tcp =
    \<lparr> tc_socket_open = False, tc_connected = False, tc_receiving = False, tc_host = [], tc_port = 0, tc_thread_joinable = False,
      tc_receive_buffer = [], tc_last_error = [], tc_data_callback = False, tc_error_callback = False, tc_disconnect_callback = False,
      tc_sent = [], tc_events = [] \<rparr>"

section \<open>Connecting\<close>

text \<open>The answers of the system while a connection is set up; the options are listed in the order in which they are set.\<close>

record setup_answers =
  sa_resolves :: bool
  sa_socket :: bool
  sa_reuseaddr :: bool
  sa_nodelay :: bool
  sa_keepalive :: bool
  sa_getfl :: bool
  sa_nonblock :: bool
  sa_linger :: bool
  sa_connect :: int

definition setupSocketAddress :: "setup_answers \<Rightarrow> string \<Rightarrow> int \<Rightarrow> tcp \<Rightarrow> (string + unit) \<times> tcp" where
  "setupSocketAddress sa host port t =
    (let t = t\<lparr>tc_host := host, tc_port := port\<rparr>
     in if \<not> sa_resolves sa then (Inl (''Failed to resolve hostname: '' @ host), t) else (Inr (), t))"

definition createSocket :: "setup_answers \<Rightarrow> tcp \<Rightarrow> (string + unit) \<times> tcp" where
  "createSocket sa t =
    (if \<not> sa_socket sa then (Inl ''Failed to create socket'', t\<lparr>tc_socket_open := False\<rparr>) else (Inr (), t\<lparr>tc_socket_open := True\<rparr>))"

definition configureSocket :: "setup_answers \<Rightarrow> string + unit" where
  "configureSocket sa =
    (if \<not> sa_reuseaddr sa then Inl ''Failed to set SO_REUSEADDR''
     else if \<not> sa_nodelay sa then Inl ''Failed to set TCP_NODELAY''
     else if \<not> sa_keepalive sa then Inl ''Failed to set SO_KEEPALIVE''
     else if \<not> sa_getfl sa then Inl ''Failed to get socket flags''
     else if \<not> sa_nonblock sa then Inl ''Failed to set non-blocking mode''
     else if \<not> sa_linger sa then Inl ''Failed to set SO_LINGER''
     else Inr ())"

definition handleConnectionResult :: "int \<Rightarrow> bool" where
  "handleConnectionResult result = (if result < 0 then False else True)"

definition tcp_connect :: "setup_answers \<Rightarrow> string \<Rightarrow> int \<Rightarrow> tcp \<Rightarrow> (string + bool) \<times> tcp" where
  "tcp_connect sa host port t =
    (case setupSocketAddress sa host port t of
       (Inl e, t) \<Rightarrow> (Inl e, t)
     | (Inr _, t) \<Rightarrow>
       (case createSocket sa t of
          (Inl e, t) \<Rightarrow> (Inl e, t)
        | (Inr _, t) \<Rightarrow>
          (case configureSocket sa of
             Inl e \<Rightarrow> (Inl e, t)
           | Inr _ \<Rightarrow> (Inr (handleConnectionResult (sa_connect sa)), t))))"

section \<open>Errors\<close>

definition error_text :: "errno \<Rightarrow> string" where
  "error_text e =
    (case e of
       ECONNRESET \<Rightarrow> ''Connection reset by peer''
     | EPIPE \<Rightarrow> ''Broken pipe (connection closed)''
     | EWOULDBLOCK \<Rightarrow> ''Send would block (non-blocking socket)''
     | ENOTCONN \<Rightarrow> ''Socket not connected''
     | EINTR \<Rightarrow> ''Send interrupted by signal''
     | Other_Errno s \<Rightarrow> ''Socket error: '' @ s)"

definition emit :: "bool \<Rightarrow> tcp_event \<Rightarrow> tcp \<Rightarrow> tcp" where
  "emit registered ev t = (if registered then t\<lparr>tc_events := tc_events t @ [ev]\<rparr> else t)"

definition handleSocketError :: "errno \<Rightarrow> tcp \<Rightarrow> tcp" where
  "handleSocketError e t =
    (let t = (if e \<in> {ECONNRESET, EPIPE, ENOTCONN} then t\<lparr>tc_connected := False\<rparr> else t);
         t = t\<lparr>tc_last_error := error_text e\<rparr>;
         t = emit (tc_error_callback t) (Error_Callback (error_text e)) t
     in if \<not> tc_connected t then emit (tc_disconnect_callback t) Disconnect_Callback t else t)"

section \<open>Sending\<close>

text \<open>The result of \<open>sendRaw\<close> and the results that the system has left; no result is used when the socket is invalid.\<close>

definition sendRaw :: "string \<Rightarrow> send_result list \<Rightarrow> tcp \<Rightarrow> (int \<times> send_result list \<times> tcp) option" where
  "sendRaw data rs t =
    (if \<not> tc_socket_open t then Some (-1, rs, t)
     else case rs of
            [] \<Rightarrow> None
          | Sent_Bytes n # rs \<Rightarrow> Some (int n, rs, t\<lparr>tc_sent := tc_sent t @ take n data\<rparr>)
          | Send_Error e # rs \<Rightarrow> Some (-1, rs, handleSocketError e t))"

function handlePartialSend :: "string \<Rightarrow> send_result list \<Rightarrow> tcp \<Rightarrow> (bool \<times> tcp) option" where
  "handlePartialSend data rs t =
    (if data = [] then Some (True, t)
     else case sendRaw data rs t of
            None \<Rightarrow> None
          | Some (result, rs', t) \<Rightarrow>
            if result < 0 then Some (False, t)
            else if result = 0 then Some (False, t\<lparr>tc_connected := False\<rparr>)
            else handlePartialSend (drop (nat result) data) rs' t)"
  by pat_completeness auto
termination
  by (relation "measure (\<lambda>(data, rs, t). length rs)") (auto simp: sendRaw_def split: if_splits list.splits send_result.splits)

declare handlePartialSend.simps [simp del]

text \<open>Both \<open>send\<close> functions; they differ in the counters only.\<close>

definition tcp_send :: "string \<Rightarrow> send_result list \<Rightarrow> tcp \<Rightarrow> (bool \<times> tcp) option" where
  "tcp_send message rs t =
    (if \<not> tc_connected t then Some (False, t)
     else if message = [] then Some (True, t)
     else case sendRaw message rs t of
            None \<Rightarrow> None
          | Some (bytes_sent, rs, t) \<Rightarrow>
            if bytes_sent < 0 then Some (False, t)
            else if nat bytes_sent < length message then handlePartialSend (drop (nat bytes_sent) message) rs t
            else Some (True, t))"

text \<open>The overload on a byte vector repeats these steps.\<close>

definition tcp_send_data :: "char list \<Rightarrow> send_result list \<Rightarrow> tcp \<Rightarrow> (bool \<times> tcp) option" where
  "tcp_send_data data rs t = tcp_send data rs t"

section \<open>Receiving\<close>

definition startReceiveLoop :: "tcp \<Rightarrow> tcp option" where
  "startReceiveLoop t =
    (if tc_receiving t then Some t
     else if \<not> tc_connected t then Some t
     else if tc_thread_joinable t then None
     else Some (t\<lparr>tc_receiving := True, tc_thread_joinable := True\<rparr>))"

definition onDataReceived :: "string \<Rightarrow> tcp \<Rightarrow> tcp" where
  "onDataReceived data t = emit (tc_data_callback t) (Data_Callback data) t"

definition handleConnectionLost :: "tcp \<Rightarrow> tcp" where
  "handleConnectionLost t = (let t = t\<lparr>tc_connected := False\<rparr> in emit (tc_disconnect_callback t) Disconnect_Callback t)"

text \<open>The loop until the results at hand are used up or it ends.\<close>

primrec receiveLoop :: "recv_result list \<Rightarrow> tcp \<Rightarrow> tcp" where
  "receiveLoop [] t = (if tc_receiving t \<and> tc_connected t then t else t\<lparr>tc_receiving := False\<rparr>)"
| "receiveLoop (r # rs) t =
    (if \<not> (tc_receiving t \<and> tc_connected t) then t\<lparr>tc_receiving := False\<rparr>
     else case r of
            Received data \<Rightarrow>
              if data \<noteq> [] then receiveLoop rs (onDataReceived data t)
              else (handleConnectionLost (t\<lparr>tc_connected := False\<rparr>))\<lparr>tc_receiving := False\<rparr>
          | Recv_Error e \<Rightarrow>
              let t = handleSocketError e t
              in if e = EWOULDBLOCK \<or> e = EINTR then receiveLoop rs t else t\<lparr>tc_receiving := False\<rparr>)"

definition stopReceiveLoop :: "tcp \<Rightarrow> tcp" where
  "stopReceiveLoop t = (if \<not> tc_receiving t then t else t\<lparr>tc_receiving := False, tc_thread_joinable := False\<rparr>)"

section \<open>Disconnecting\<close>

definition disconnect :: "tcp \<Rightarrow> tcp" where
  "disconnect t =
    (if \<not> tc_connected t then t
     else (stopReceiveLoop t)\<lparr>tc_connected := False, tc_socket_open := False\<rparr>)"

definition tcp_cleanup :: "tcp \<Rightarrow> tcp" where
  "tcp_cleanup t =
    (let t = stopReceiveLoop t;
         t = (if tc_connected t then disconnect t else t)
     in t\<lparr>tc_receive_buffer := [], tc_data_callback := False, tc_error_callback := False, tc_disconnect_callback := False\<rparr>)"

definition tcp_destroy :: "tcp \<Rightarrow> tcp" where
  "tcp_destroy t = tcp_cleanup t"

definition setDataCallback :: "bool \<Rightarrow> tcp \<Rightarrow> tcp" where "setDataCallback b t = t\<lparr>tc_data_callback := b\<rparr>"
definition tcp_setErrorCallback :: "bool \<Rightarrow> tcp \<Rightarrow> tcp" where "tcp_setErrorCallback b t = t\<lparr>tc_error_callback := b\<rparr>"
definition setDisconnectCallback :: "bool \<Rightarrow> tcp \<Rightarrow> tcp" where "setDisconnectCallback b t = t\<lparr>tc_disconnect_callback := b\<rparr>"

section \<open>What is transmitted\<close>

lemma handleSocketError_keeps [simp]:
  "tc_sent (handleSocketError e t) = tc_sent t" "tc_socket_open (handleSocketError e t) = tc_socket_open t"
  by (simp_all add: handleSocketError_def emit_def Let_def)

lemma handlePartialSend_spec:
  assumes "tc_socket_open t" "length data \<le> length rs"
  shows "\<exists>ok t' k. handlePartialSend data rs t = Some (ok, t') \<and> k \<le> length data \<and> tc_sent t' = tc_sent t @ take k data \<and> (ok \<longleftrightarrow> k = length data)"
  using assms
proof (induction data rs t rule: handlePartialSend.induct)
  case (1 data rs t)
  show ?case
  proof (cases "data = []")
    case True
    then show ?thesis by (subst handlePartialSend.simps) auto
  next
    case False
    with 1(3) obtain r rs' where rs: "rs = r # rs'" by (cases rs) auto
    show ?thesis
    proof (cases r)
      case (Send_Error e)
      with rs False 1(2) show ?thesis by (subst handlePartialSend.simps) (auto simp: sendRaw_def)
    next
      case (Sent_Bytes n)
      let ?t = "t\<lparr>tc_sent := tc_sent t @ take n data\<rparr>"
      have raw: "sendRaw data rs t = Some (int n, rs', ?t)" using rs Sent_Bytes 1(2) by (simp add: sendRaw_def)
      show ?thesis
      proof (cases "n = 0")
        case True
        with raw False show ?thesis by (subst handlePartialSend.simps) auto
      next
        case n: False
        then have "length (drop n data) \<le> length rs'" using 1(3) rs False by (cases data) auto
        with 1(1) [OF False raw refl refl] n 1(2) obtain ok t' k where
          r: "handlePartialSend (drop n data) rs' ?t = Some (ok, t')" "k \<le> length (drop n data)" "tc_sent t' = tc_sent t @ take n data @ take k (drop n data)"
          "ok \<longleftrightarrow> k = length (drop n data)" by auto
        have "handlePartialSend data rs t = Some (ok, t')" using r(1) raw False n by (subst handlePartialSend.simps) simp
        moreover have "take n data @ take k (drop n data) = take (min n (length data) + k) data"
          using r(2) by (cases "n \<le> length data") (simp_all add: take_add)
        moreover have "min n (length data) + k \<le> length data" "(ok \<longleftrightarrow> min n (length data) + k = length data)" using r(2,4) by auto
        ultimately show ?thesis using r(3) by metis
      qed
    qed
  qed
qed

lemma tcp_send_spec:
  assumes "tc_connected t" "tc_socket_open t" "length message < length rs"
  shows "\<exists>ok t' k. tcp_send message rs t = Some (ok, t') \<and> k \<le> length message \<and> tc_sent t' = tc_sent t @ take k message \<and> (ok \<longleftrightarrow> k = length message)"
proof (cases "message = []")
  case False
  obtain r rs' where rs: "rs = r # rs'" using assms(3) by (cases rs) auto
  show ?thesis
  proof (cases r)
    case (Send_Error e)
    with False assms(1,2) rs show ?thesis by (auto simp: tcp_send_def sendRaw_def)
  next
    case (Sent_Bytes n)
    let ?t = "t\<lparr>tc_sent := tc_sent t @ take n message\<rparr>"
    show ?thesis
    proof (cases "n < length message")
      case True
      have "length (drop n message) \<le> length rs'" using assms(3) rs by simp
      with handlePartialSend_spec [of ?t "drop n message" rs'] assms(2) obtain ok t' k where
        r: "handlePartialSend (drop n message) rs' ?t = Some (ok, t')" "k \<le> length (drop n message)"
        "tc_sent t' = tc_sent t @ take n message @ take k (drop n message)" "ok \<longleftrightarrow> k = length (drop n message)" by auto
      have "tcp_send message rs t = Some (ok, t')" using r(1) True False assms(1,2) rs Sent_Bytes by (simp add: tcp_send_def sendRaw_def)
      moreover have "take n message @ take k (drop n message) = take (n + k) message" by (simp add: take_add)
      moreover have "n + k \<le> length message" "ok \<longleftrightarrow> n + k = length message" using r(2,4) True by auto
      ultimately show ?thesis using r(3) by metis
    next
      case n: False
      then have "tcp_send message rs t = Some (True, ?t)" using False assms(1,2) rs Sent_Bytes by (simp add: tcp_send_def sendRaw_def)
      then show ?thesis using n by (intro exI [of _ True] exI [of _ ?t] exI [of _ "length message"]) simp
    qed
  qed
qed (use assms(1) in \<open>auto simp: tcp_send_def\<close>)

section \<open>Runs\<close>

text \<open>The operations that clients use; \<open>sendRaw\<close> and \<open>handlePartialSend\<close> are called by \<open>send\<close> only.\<close>

inductive tcp_step :: "tcp \<Rightarrow> tcp \<Rightarrow> bool" where
  connect: "tcp_step t (snd (tcp_connect sa host port t))"
| send: "tcp_send message rs t = Some (ok, t') \<Longrightarrow> tcp_step t t'"
| start: "startReceiveLoop t = Some t' \<Longrightarrow> tcp_step t t'"
| receive: "tcp_step t (receiveLoop results t)"
| stop: "tcp_step t (stopReceiveLoop t)"
| lost: "tcp_step t (handleConnectionLost t)"
| socket_error: "tcp_step t (handleSocketError e t)"
| disconnect: "tcp_step t (disconnect t)"
| cleanup: "tcp_step t (tcp_cleanup t)"
| data_callback: "tcp_step t (setDataCallback b t)"
| error_callback: "tcp_step t (tcp_setErrorCallback b t)"
| disconnect_callback: "tcp_step t (setDisconnectCallback b t)"

definition silent :: "tcp \<Rightarrow> bool" where
  "silent t \<longleftrightarrow> \<not> tc_connected t \<and> tc_sent t = [] \<and> (\<forall>d. Data_Callback d \<notin> set (tc_events t))"

lemma handleSocketError_silent: "silent t \<Longrightarrow> silent (handleSocketError e t)"
  by (auto simp: silent_def handleSocketError_def emit_def Let_def)

lemma tcp_step_silent: "tcp_step t t' \<Longrightarrow> silent t \<Longrightarrow> silent t'"
proof (induction rule: tcp_step.induct)
  case (connect t sa host port)
  then show ?case
    by (auto simp: silent_def tcp_connect_def setupSocketAddress_def createSocket_def Let_def split: sum.split)
next
  case (receive t results)
  then have "receiveLoop results t = t\<lparr>tc_receiving := False\<rparr>" by (cases results) (simp_all add: silent_def)
  with receive show ?case by (simp add: silent_def)
qed (auto simp: silent_def tcp_send_def startReceiveLoop_def stopReceiveLoop_def handleConnectionLost_def handleSocketError_def disconnect_def
    tcp_cleanup_def setDataCallback_def tcp_setErrorCallback_def setDisconnectCallback_def emit_def Let_def split: if_splits)

lemma tcp_run_silent: "tcp_step\<^sup>*\<^sup>* t t' \<Longrightarrow> silent t \<Longrightarrow> silent t'"
  by (induction rule: rtranclp_induct) (auto dest: tcp_step_silent)

lemma silent_new: "silent new_tcp"
  by (simp add: silent_def new_tcp_def)

text \<open>A connection object is never connected. Whatever operations are called on it and whatever the system answers, even when \<open>connect\<close> reports success,
  \<open>isConnected\<close> stays false: every \<open>send\<close> returns false, no byte is handed to the system and no received data reaches the callback.\<close>

lemma tcp_never_connected:
  assumes "tcp_step\<^sup>*\<^sup>* new_tcp t"
  shows "\<not> tc_connected t \<and> tc_sent t = [] \<and> (\<forall>d. Data_Callback d \<notin> set (tc_events t)) \<and> tcp_send message rs t = Some (False, t)"
  using tcp_run_silent [OF assms silent_new] by (simp add: silent_def tcp_send_def)

lemma tcp_never_connected_witness:
  "\<exists>t. tcp_connect \<lparr> sa_resolves = True, sa_socket = True, sa_reuseaddr = True, sa_nodelay = True, sa_keepalive = True, sa_getfl = True,
       sa_nonblock = True, sa_linger = True, sa_connect = 0 \<rparr> ''127.0.0.1'' 9000 new_tcp = (Inr True, t)
     \<and> tcp_send ''8=FIX.4.4'' [Sent_Bytes 9] t = Some (False, t)"
proof -
  let ?sa = "\<lparr> sa_resolves = True, sa_socket = True, sa_reuseaddr = True, sa_nodelay = True, sa_keepalive = True, sa_getfl = True,
    sa_nonblock = True, sa_linger = True, sa_connect = 0 \<rparr>"
  have c: "tcp_connect ?sa ''127.0.0.1'' 9000 new_tcp = (Inr True, snd (tcp_connect ?sa ''127.0.0.1'' 9000 new_tcp))"
    by (simp add: tcp_connect_def setupSocketAddress_def createSocket_def configureSocket_def handleConnectionResult_def)
  have "tcp_step\<^sup>*\<^sup>* new_tcp (snd (tcp_connect ?sa ''127.0.0.1'' 9000 new_tcp))" by (rule r_into_rtranclp) (rule tcp_step.connect)
  from tcp_never_connected [OF this, of "''8=FIX.4.4''" "[Sent_Bytes 9]"] c show ?thesis by blast
qed

end
