(* ===== verification/Async_Sender.thy ===== *)
theory Async_Sender
  imports Priority_Queue Tcp_Connection
begin

text \<open>
  \<open>AsyncSender\<close> (include/network/async_sender.h, src/network/async_sender.cpp), the consumer of a message queue. The state holds the objects it
  refers to: the queue, of either kind, the connection and the pool of the messages. \<open>running_\<close> can be cleared by another thread at any
  time, so that the retry loop is given what it reads there before each attempt; the answers of the system to each attempt are given
  too. Waiting times are collected, not waited for, in milliseconds as the \<open>size_t\<close> that the product of the timeout and the retry count is. The retry
  count wraps around, so that the retry loop need not end: following a pointer to no live message, a retry loop that does not end and operations of the
  connection that do not return give \<open>None\<close>. The destructor calls \<open>shutdown\<close>.
\<close>

section \<open>State\<close>

datatype sender_queue = Mutex_Queue pqueue | Lockfree_Queue "addr lfq"

record sender =
  as_queue :: sender_queue
  as_tcp :: tcp
  as_pool :: "message pool"
  as_running :: bool
  as_shutdown_requested :: bool
  as_thread_joinable :: bool
  as_total_sent :: size_t
  as_total_failed :: size_t
  as_total_retried :: size_t
  as_enable_batch :: bool
  as_batch_size :: size_t
  as_max_retries :: size_t
  as_base_timeout :: nat
  as_error_callback :: bool
  as_error_reports :: "(addr \<times> string) list"
  as_waits :: "size_t list"

text \<open>The two constructors, for the two kinds of queue.\<close>

definition new_sender :: "pqueue option + addr lfq option \<Rightarrow> tcp option \<Rightarrow> message pool \<Rightarrow> string + sender" where
  "new_sender queue tcp pool =
    (case queue of
       Inl None \<Rightarrow> Inl ''PriorityQueue cannot be null''
     | Inr None \<Rightarrow> Inl ''LockFreeQueue cannot be null''
     | _ \<Rightarrow>
       (case tcp of
          None \<Rightarrow> Inl ''TcpConnection cannot be null''
        | Some t \<Rightarrow> Inr
          \<lparr> as_queue = (case queue of Inl q \<Rightarrow> Mutex_Queue (the q) | Inr q \<Rightarrow> Lockfree_Queue (the q)), as_tcp = t, as_pool = pool,
            as_running = False, as_shutdown_requested = False, as_thread_joinable = False,
            as_total_sent = 0, as_total_failed = 0, as_total_retried = 0, as_enable_batch = False, as_batch_size = 100,
            as_max_retries = 3, as_base_timeout = 100, as_error_callback = False, as_error_reports = [], as_waits = [] \<rparr>))"

section \<open>Life cycle and configuration\<close>

definition sender_start :: "sender \<Rightarrow> sender option" where
  "sender_start s =
    (if as_running s then Some s
     else if as_thread_joinable s then None
     else Some (s\<lparr>as_running := True, as_shutdown_requested := False, as_thread_joinable := True\<rparr>))"

definition sender_stop :: "sender \<Rightarrow> sender" where
  "sender_stop s = s\<lparr>as_running := False, as_thread_joinable := False\<rparr>"

definition sender_shutdown :: "sender \<Rightarrow> sender" where
  "sender_shutdown s =
    (if \<not> as_running s then s else s\<lparr>as_shutdown_requested := True, as_running := False, as_thread_joinable := False\<rparr>)"

definition sender_isConnected :: "sender \<Rightarrow> bool" where
  "sender_isConnected s \<longleftrightarrow> tc_connected (as_tcp s)"

definition setMaxRetries :: "size_t \<Rightarrow> sender \<Rightarrow> sender" where
  "setMaxRetries max_retries s = s\<lparr>as_max_retries := max_retries\<rparr>"

definition setBatchSize :: "size_t \<Rightarrow> sender \<Rightarrow> sender" where
  "setBatchSize n s = s\<lparr>as_batch_size := n, as_enable_batch := (n > 1)\<rparr>"

definition sender_resetStats :: "sender \<Rightarrow> sender" where
  "sender_resetStats s = s\<lparr>as_total_sent := 0, as_total_failed := 0, as_total_retried := 0\<rparr>"

definition getQueueSize :: "sender \<Rightarrow> size_t" where
  "getQueueSize s = (case as_queue s of Mutex_Queue q \<Rightarrow> pq_size q | Lockfree_Queue q \<Rightarrow> queue_size q)"

definition calculateTimeout :: "sender \<Rightarrow> nat" where
  "calculateTimeout s = as_base_timeout s"

section \<open>Popping\<close>

definition popMessage :: "(pq_state \<Rightarrow> bool \<times> pq_state) \<Rightarrow> sender \<Rightarrow> (bool \<times> addr \<times> sender) option" where
  "popMessage wait s =
    (case as_queue s of
       Lockfree_Queue q \<Rightarrow> let (ok, a, q) = tryPop 0 q in Some (ok, a, s\<lparr>as_queue := Lockfree_Queue q\<rparr>)
     | Mutex_Queue q \<Rightarrow>
       map_option (\<lambda>(ok, a, q, pool). (ok, a, s\<lparr>as_queue := Mutex_Queue q, as_pool := pool\<rparr>)) (pq_pop wait (q, as_pool s)))"

definition tryPopMessage :: "sender \<Rightarrow> (bool \<times> addr \<times> sender) option" where
  "tryPopMessage s =
    (case as_queue s of
       Lockfree_Queue q \<Rightarrow> let (ok, a, q) = tryPop 0 q in Some (ok, a, s\<lparr>as_queue := Lockfree_Queue q\<rparr>)
     | Mutex_Queue q \<Rightarrow>
       map_option (\<lambda>(ok, a, q, pool). (ok, a, s\<lparr>as_queue := Mutex_Queue q, as_pool := pool\<rparr>)) (pq_tryPop (q, as_pool s)))"

section \<open>Sending one message\<close>

text \<open>What follows when an attempt throws: the next retry count, and a wait or the report of the failure.\<close>

definition send_failed :: "addr \<Rightarrow> size_t \<Rightarrow> sender \<Rightarrow> size_t \<times> sender" where
  "send_failed message retry_count s =
    (let retry_count = retry_count + 1
     in (retry_count,
         if retry_count \<le> as_max_retries s
         then s\<lparr>as_total_retried := as_total_retried s + 1, as_waits := as_waits s @ [of_nat (calculateTimeout s) * retry_count]\<rparr>
         else if as_error_callback s
         then s\<lparr>as_error_reports := as_error_reports s @ [(message, ''Max retries exceeded: TCP connection is not available'')]\<rparr>
         else s))"

text \<open>What \<open>running_\<close> is before each attempt and the answers of the system to it are sequences; an attempt uses up the first element of both.\<close>

partial_function (option) send_loop ::
    "(nat \<Rightarrow> bool) \<Rightarrow> (nat \<Rightarrow> send_result list) \<Rightarrow> addr \<Rightarrow> string \<Rightarrow> size_t \<Rightarrow> sender \<Rightarrow> (bool \<times> sender) option" where
  "send_loop running answers message payload retry_count s =
    (if retry_count \<le> as_max_retries s \<and> running 0 then
       if \<not> sender_isConnected s then
         send_loop (\<lambda>i. running (Suc i)) (\<lambda>i. answers (Suc i)) message payload
           (fst (send_failed message retry_count s)) (snd (send_failed message retry_count s))
       else case tcp_send payload (answers 0) (as_tcp s) of
              None \<Rightarrow> None
            | Some (_, t) \<Rightarrow> Some (True, s\<lparr>as_tcp := t\<rparr>)
     else Some (False, s))"

definition sendMessage :: "(nat \<Rightarrow> bool) \<Rightarrow> (nat \<Rightarrow> send_result list) \<Rightarrow> addr \<Rightarrow> sender \<Rightarrow> sender option" where
  "sendMessage running answers message s =
    (if message = 0 then Some s
     else case pool_heap (as_pool s) message of
            None \<Rightarrow> None
          | Some m \<Rightarrow>
            (case send_loop running answers message (msg_payload m) 0 s of
               None \<Rightarrow> None
             | Some (success, s) \<Rightarrow>
               let s = (if success then s\<lparr>as_total_sent := as_total_sent s + 1\<rparr> else s\<lparr>as_total_failed := as_total_failed s + 1\<rparr>)
               in Some (s\<lparr>as_pool := Message_destroy message (as_pool s)\<rparr>)))"

section \<open>The sender thread\<close>

text \<open>What one pass of the loop meets: what its wait for a message returns, what \<open>running_\<close> is before each attempt, and the system's answers.\<close>

record pass =
  ps_wait :: "pq_state \<Rightarrow> bool \<times> pq_state"
  ps_running :: "nat \<Rightarrow> bool"
  ps_answers :: "nat \<Rightarrow> send_result list"

definition sender_pass :: "pass \<Rightarrow> sender \<Rightarrow> sender option" where
  "sender_pass ps s =
    Option.bind (case as_queue s of Mutex_Queue _ \<Rightarrow> popMessage (ps_wait ps) s | Lockfree_Queue _ \<Rightarrow> tryPopMessage s)
      (\<lambda>(ok, message, s). if ok then sendMessage (ps_running ps) (ps_answers ps) message s else Some s)"

text \<open>Messages that are left when the thread ends, one pass each; stops when the queue is empty.\<close>

primrec sender_drain :: "pass list \<Rightarrow> sender \<Rightarrow> sender option" where
  "sender_drain [] s = Some s"
| "sender_drain (ps # pss) s =
    Option.bind (tryPopMessage s)
      (\<lambda>(ok, message, s). if ok then Option.bind (sendMessage (ps_running ps) (ps_answers ps) message s) (sender_drain pss) else Some s)"

primrec sender_loop :: "pass list \<Rightarrow> sender \<Rightarrow> sender option" where
  "sender_loop [] s = Some s"
| "sender_loop (ps # pss) s =
    (if as_running s
     then Option.bind (sender_pass ps s) (\<lambda>s. if as_shutdown_requested s then Some s else sender_loop pss s)
     else Some s)"

definition senderLoop :: "pass list \<Rightarrow> pass list \<Rightarrow> sender \<Rightarrow> sender option" where
  "senderLoop passes rest s = Option.bind (sender_loop passes s) (sender_drain rest)"

section \<open>Without a connection\<close>

lemma next_retry:
  fixes k n :: size_t
  assumes "k \<le> n" "n \<noteq> - 1"
  shows "unat (k + 1) = Suc (unat k)"
proof -
  have "k \<noteq> - 1" using assms by (metis word_order.extremum_uniqueI)
  then have "1 + k \<noteq> 0" by (metis add.commute eq_neg_iff_add_eq_0)
  from unatSuc [OF this] show ?thesis by (simp add: add.commute)
qed

lemma send_loop_step:
  assumes "\<not> tc_connected (as_tcp s)" "k \<le> as_max_retries s" "running 0"
  shows "send_loop running answers message payload k s
    = send_loop (\<lambda>i. running (Suc i)) (\<lambda>i. answers (Suc i)) message payload (k + 1) (snd (send_failed message k s))"
  using assms by (subst send_loop.simps) (simp add: sender_isConnected_def send_failed_def Let_def)

lemma send_failed_frame [simp]:
  "as_tcp (snd (send_failed message k s)) = as_tcp s" "as_max_retries (snd (send_failed message k s)) = as_max_retries s"
  by (simp_all add: send_failed_def Let_def)

text \<open>Whenever \<open>running_\<close> is cleared, the loop ends without having sent anything, unless the maximum is the largest \<open>size_t\<close>.\<close>

lemma send_loop_offline:
  assumes "\<not> tc_connected (as_tcp s)" "as_max_retries s \<noteq> - 1"
  shows "\<exists>r w e. send_loop running answers message payload k s = Some (False, s\<lparr>as_total_retried := r, as_waits := w, as_error_reports := e\<rparr>)"
  using assms
proof (induction "Suc (unat (as_max_retries s)) - unat k" arbitrary: k s running answers rule: less_induct)
  case less
  show ?case
  proof (cases "k \<le> as_max_retries s \<and> running 0")
    case True
    let ?s = "snd (send_failed message k s)"
    have f: "?s = s\<lparr>as_total_retried := as_total_retried ?s, as_waits := as_waits ?s, as_error_reports := as_error_reports ?s\<rparr>"
      by (cases s) (simp add: send_failed_def Let_def)
    have "unat k \<le> unat (as_max_retries s)" using True by (simp add: word_le_nat_alt)
    then have "Suc (unat (as_max_retries ?s)) - unat (k + 1) < Suc (unat (as_max_retries s)) - unat k"
      using next_retry [of k "as_max_retries s"] True less.prems(2) by simp
    from less.hyps [OF this, of "\<lambda>i. running (Suc i)" "\<lambda>i. answers (Suc i)"] less.prems obtain r' w' e' where
      "send_loop (\<lambda>i. running (Suc i)) (\<lambda>i. answers (Suc i)) message payload (k + 1) ?s
        = Some (False, ?s\<lparr>as_total_retried := r', as_waits := w', as_error_reports := e'\<rparr>)" by auto
    moreover have "?s\<lparr>as_total_retried := r', as_waits := w', as_error_reports := e'\<rparr> = s\<lparr>as_total_retried := r', as_waits := w', as_error_reports := e'\<rparr>"
      by (subst f) simp
    ultimately show ?thesis using send_loop_step [of s k running answers message payload] True less.prems(1) by auto
  next
    case False
    then have "send_loop running answers message payload k s = Some (False, s)" by (subst send_loop.simps) auto
    then show ?thesis by (cases s) (auto intro!: exI)
  qed
qed

definition give_up :: "addr \<Rightarrow> size_t \<Rightarrow> sender \<Rightarrow> sender" where
  "give_up message k s =
    s\<lparr>as_total_retried := as_total_retried s + (as_max_retries s - k),
      as_waits := as_waits s @ map (\<lambda>i. of_nat (as_base_timeout s) * of_nat i) [Suc (unat k) ..< Suc (unat (as_max_retries s))],
      as_error_reports := as_error_reports s
        @ (if as_error_callback s then [(message, ''Max retries exceeded: TCP connection is not available'')] else [])\<rparr>"

lemma send_loop_disconnected:
  assumes "\<not> tc_connected (as_tcp s)" "\<forall>k. running k" "as_max_retries s \<noteq> - 1" "k \<le> as_max_retries s"
  shows "send_loop running answers message payload k s = Some (False, give_up message k s)"
  using assms
proof (induction "unat (as_max_retries s) - unat k" arbitrary: k s running answers)
  case 0
  then have k: "k = as_max_retries s" by (simp add: word_le_nat_alt word_unat_eq_iff)
  let ?s = "snd (send_failed message k s)"
  have "unat (k + 1) = Suc (unat k)" using next_retry [OF "0.prems"(4,3)] .
  then have above: "\<not> k + 1 \<le> as_max_retries s" by (simp add: k word_le_nat_alt)
  then have "?s = give_up message k s" by (cases s) (auto simp: k send_failed_def give_up_def Let_def)
  moreover have "send_loop running answers message payload k s
      = send_loop (\<lambda>i. running (Suc i)) (\<lambda>i. answers (Suc i)) message payload (k + 1) ?s"
    using "0.prems" by (intro send_loop_step) simp_all
  moreover have "send_loop (\<lambda>i. running (Suc i)) (\<lambda>i. answers (Suc i)) message payload (k + 1) ?s = Some (False, ?s)"
    using above by (subst send_loop.simps) simp
  ultimately show ?case by simp
next
  case (Suc n)
  have u: "unat (k + 1) = Suc (unat k)" using next_retry [OF Suc.prems(4,3)] .
  then have k: "k + 1 \<le> as_max_retries s" "Suc (unat k) \<le> unat (as_max_retries s)" using Suc.hyps(2) by (simp_all add: word_le_nat_alt)
  let ?s = "s\<lparr>as_total_retried := as_total_retried s + 1, as_waits := as_waits s @ [of_nat (as_base_timeout s) * (k + 1)]\<rparr>"
  have "send_loop running answers message payload k s = send_loop (\<lambda>i. running (Suc i)) (\<lambda>i. answers (Suc i)) message payload (k + 1) ?s"
    using send_loop_step [of s k running answers message payload] Suc.prems k(1) by (simp add: send_failed_def calculateTimeout_def Let_def)
  also have "\<dots> = Some (False, give_up message (k + 1) ?s)" using Suc.hyps(2) Suc.prems k u by (intro Suc.hyps(1)) simp_all
  also have "give_up message (k + 1) ?s = give_up message k s"
  proof -
    have "[Suc (unat k) ..< Suc (unat (as_max_retries s))] = Suc (unat k) # [Suc (Suc (unat k)) ..< Suc (unat (as_max_retries s))]"
      using k(2) by (simp add: upt_conv_Cons)
    moreover have "of_nat (Suc (unat k)) = k + 1" by (simp add: add.commute)
    ultimately show ?thesis unfolding give_up_def u by (cases s) (simp add: algebra_simps)
  qed
  finally show ?case .
qed

text \<open>With the largest \<open>size_t\<close> as the maximum every retry count is below it.\<close>

lemma send_loop_never_ends:
  assumes "\<not> tc_connected (as_tcp s)" "\<forall>k. running k" "as_max_retries s = - 1"
  shows "send_loop running answers message payload k s = None"
proof -
  have "\<not> tc_connected (as_tcp s) \<longrightarrow> (\<forall>k. running k) \<longrightarrow> as_max_retries s = - 1 \<longrightarrow> False"
    if "send_loop running answers message payload k s = Some y" for y
    using that
  proof (induction rule: send_loop.raw_induct [rotated 1, consumes 1])
    case (1 loop running answers message payload k s y)
    show ?case
    proof (intro impI)
      assume a: "\<not> tc_connected (as_tcp s)" "\<forall>k. running k" "as_max_retries s = - 1"
      with 1(2) have "loop (\<lambda>i. running (Suc i)) (\<lambda>i. answers (Suc i)) message payload (fst (send_failed message k s)) (snd (send_failed message k s)) = Some y"
        by (simp add: sender_isConnected_def)
      from 1(1) [OF this] a show False by simp
    qed
  qed
  with assms show ?thesis by (cases "send_loop running answers message payload k s") auto
qed

text \<open>C38: Without a connection a message is tried once and then as often as there are retries, with waits of 1, 2, 3, ... times the base timeout,
  and is then given up: exactly one failure is counted and reported, the message is destroyed, and the connection is untouched. This holds for every
  maximum of retries but the largest \<open>size_t\<close>; with that one the retry count wraps around and the call does not return as long as the sender is
  running.\<close>

theorem sendMessage_gives_up:
  assumes "pool_inv (as_pool s)" "message \<in> dom (pool_heap (as_pool s))" "\<not> tc_connected (as_tcp s)" "\<forall>k. running k"
  shows "if as_max_retries s = - 1 then sendMessage running answers message s = None
    else \<exists>s'. sendMessage running answers message s = Some s' \<and> as_tcp s' = as_tcp s \<and> as_queue s' = as_queue s
    \<and> as_total_sent s' = as_total_sent s \<and> as_total_failed s' = as_total_failed s + 1
    \<and> as_total_retried s' = as_total_retried s + as_max_retries s
    \<and> as_waits s' = as_waits s @ map (\<lambda>i. of_nat (as_base_timeout s) * of_nat i) [1 ..< Suc (unat (as_max_retries s))]
    \<and> length (as_error_reports s') = length (as_error_reports s) + (if as_error_callback s then 1 else 0)
    \<and> pool_inv (as_pool s') \<and> pool_heap (as_pool s') = (pool_heap (as_pool s))(message := None)"
proof -
  have nz: "message \<noteq> 0" using mp.null_not_live [OF assms(1)] assms(2) by auto
  obtain m where m: "pool_heap (as_pool s) message = Some m" using assms(2) by auto
  show ?thesis
  proof (cases "as_max_retries s = - 1")
    case True
    with nz m send_loop_never_ends [OF assms(3,4) True] show ?thesis by (simp add: sendMessage_def)
  next
    case False
    let ?s = "(give_up message 0 s)\<lparr>as_total_failed := as_total_failed s + 1, as_pool := Message_destroy message (as_pool s)\<rparr>"
    have "sendMessage running answers message s = Some ?s"
      using nz m send_loop_disconnected [OF assms(3,4) False, of 0] by (simp add: sendMessage_def give_up_def Let_def)
    then show ?thesis using False destroy_laws [OF assms(1,2)] by (simp add: give_up_def)
  qed
qed

section \<open>Shutting down\<close>

lemma sendMessage_not_running:
  assumes "pool_inv (as_pool s)" "message \<in> dom (pool_heap (as_pool s))" "\<not> running 0"
  shows "sendMessage running answers message s = Some (s\<lparr>as_total_failed := as_total_failed s + 1, as_pool := Message_destroy message (as_pool s)\<rparr>)"
proof -
  have "message \<noteq> 0" using mp.null_not_live [OF assms(1)] assms(2) by auto
  with assms(2,3) show ?thesis by (auto simp: sendMessage_def send_loop.simps [of _ _ _ _ 0] Let_def)
qed

text \<open>Nothing is sent when the thread drains the queue after \<open>stop\<close> or \<open>shutdown\<close>: with \<open>running_\<close> false every queued message is taken off, counted as failed
  and destroyed without an attempt to send it.\<close>

lemma sender_drain_discards:
  assumes "as_queue s = Lockfree_Queue q" "queue_inv q" "\<not> isShutdown q" "distinct (contents q)" "pool_inv (as_pool s)"
    and "set (contents q) \<subseteq> dom (pool_heap (as_pool s))" "length passes = length (contents q)" "list_all (\<lambda>ps. \<not> ps_running ps 0) passes"
  shows "\<exists>s' q'. sender_drain passes s = Some s' \<and> as_queue s' = Lockfree_Queue q' \<and> contents q' = []
    \<and> as_tcp s' = as_tcp s \<and> as_total_sent s' = as_total_sent s \<and> as_total_failed s' = as_total_failed s + of_nat (length (contents q))
    \<and> dom (pool_heap (as_pool s')) = dom (pool_heap (as_pool s)) - set (contents q)"
  using assms
proof (induction passes arbitrary: s q)
  case (Cons ps pss)
  then obtain a as where c: "contents q = a # as" by (cases "contents q") auto
  obtain ok x q1 where t: "tryPop 0 q = (ok, x, q1)" by (cases "tryPop 0 q")
  have q1: "ok" "x = a" "contents q1 = as" "queue_inv q1" "\<not> isShutdown q1"
    using lq.get_laws [OF Cons.prems(2), of 0, unfolded t fst_conv snd_conv] Cons.prems(3) c by (auto split: if_splits)
  let ?s = "s\<lparr>as_queue := Lockfree_Queue q1\<rparr>"
  let ?s1 = "?s\<lparr>as_total_failed := as_total_failed s + 1, as_pool := Message_destroy a (as_pool s)\<rparr>"
  have pop: "tryPopMessage s = Some (True, a, ?s)" using Cons.prems(1) t q1 by (simp add: tryPopMessage_def)
  have live: "a \<in> dom (pool_heap (as_pool s))" using Cons.prems(6) c by auto
  have send: "sendMessage (ps_running ps) (ps_answers ps) a ?s = Some ?s1"
    using sendMessage_not_running [of ?s a "ps_running ps" "ps_answers ps"] Cons.prems(5,8) live by simp
  note d = destroy_laws [OF Cons.prems(5) live]
  have "\<exists>s' q'. sender_drain pss ?s1 = Some s' \<and> as_queue s' = Lockfree_Queue q' \<and> contents q' = []
    \<and> as_tcp s' = as_tcp ?s1 \<and> as_total_sent s' = as_total_sent ?s1 \<and> as_total_failed s' = as_total_failed ?s1 + of_nat (length (contents q1))
    \<and> dom (pool_heap (as_pool s')) = dom (pool_heap (as_pool ?s1)) - set (contents q1)"
    by (rule Cons.IH) (use Cons.prems c q1 d in auto)
  then show ?case using pop send c q1(3) d(2) by (auto simp: algebra_simps)
qed auto

section \<open>The result of send is not used\<close>

text \<open>On a connection that is up, a message that the system refuses or accepts only in part is counted as sent and destroyed, without a retry: only
  a prefix of its payload has been transmitted.\<close>

lemma send_result_ignored:
  assumes "pool_inv (as_pool s)" "pool_heap (as_pool s) message = Some m" "tc_connected (as_tcp s)" "tc_socket_open (as_tcp s)" "running 0"
    and "length (msg_payload m) < length (answers 0)"
  shows "\<exists>s' n. sendMessage running answers message s = Some s' \<and> as_total_sent s' = as_total_sent s + 1 \<and> as_total_failed s' = as_total_failed s
    \<and> as_total_retried s' = as_total_retried s \<and> n \<le> length (msg_payload m) \<and> tc_sent (as_tcp s') = tc_sent (as_tcp s) @ take n (msg_payload m)
    \<and> (tcp_send (msg_payload m) (answers 0) (as_tcp s) = Some (False, as_tcp s') \<longrightarrow> n < length (msg_payload m))
    \<and> pool_heap (as_pool s') = (pool_heap (as_pool s))(message := None)"
proof -
  have live: "message \<in> dom (pool_heap (as_pool s))" using assms(2) by auto
  then have nz: "message \<noteq> 0" using mp.null_not_live [OF assms(1)] by auto
  obtain ok t n where r: "tcp_send (msg_payload m) (answers 0) (as_tcp s) = Some (ok, t)" "n \<le> length (msg_payload m)"
    "tc_sent t = tc_sent (as_tcp s) @ take n (msg_payload m)" "ok \<longleftrightarrow> n = length (msg_payload m)"
    using tcp_send_spec [OF assms(3,4,6)] by blast
  let ?s = "s\<lparr>as_tcp := t, as_total_sent := as_total_sent s + 1, as_pool := Message_destroy message (as_pool s)\<rparr>"
  have "send_loop running answers message (msg_payload m) 0 s = Some (True, s\<lparr>as_tcp := t\<rparr>)"
    using assms(3,5) r(1) by (subst send_loop.simps) (simp add: sender_isConnected_def)
  then have "sendMessage running answers message s = Some ?s" using nz assms(2) by (simp add: sendMessage_def Let_def)
  then show ?thesis using r destroy_laws(2) [OF assms(1) live] by (intro exI [of _ ?s] exI [of _ n]) auto
qed

section \<open>Examples\<close>

lemma demo_sender:
  "\<exists>s a b q m pool. new_sender (Inr (Some q)) (Some new_tcp) pool = Inr s \<and> pool_inv (as_pool s) \<and> dom (pool_heap (as_pool s)) = {a, b} \<and> a \<noteq> b
     \<and> queue_inv q \<and> \<not> isShutdown q \<and> contents q = [a, b] \<and> pool_heap (as_pool s) a = Some m \<and> msg_payload m = ''critical''"
proof -
  obtain pool a b where d: "pool_inv pool" "pool_heap pool = [a \<mapsto> Message_detailed 1 ''1'' ''1'' ''critical'' CRITICAL MT_ORDER [] [] 0,
     b \<mapsto> Message_detailed 1 ''2'' ''2'' ''low'' LOW MT_ORDER [] [] 0]" "a \<noteq> b" using demo_queue by blast
  define q0 :: "addr lfq" where "q0 = newQueue 0 4 ''q''"
  have q0: "queue_inv q0" "\<not> isShutdown q0" "usable q0 = 3" "contents q0 = []"
  proof -
    have "nextPowerOfTwo 4 = 4" by code_simp
    then show "usable q0 = 3" by (simp add: usable_def q0_def newQueue_def)
    show "queue_inv q0" unfolding q0_def by (rule queue_inv_newQueue) simp
    show "\<not> isShutdown q0" by (simp add: isShutdown_def q0_def newQueue_def)
    show "contents q0 = []" by (simp add: q0_def)
  qed
  let ?q1 = "snd (push a q0)"
  let ?q = "snd (push b ?q1)"
  have q1: "queue_inv ?q1" "\<not> isShutdown ?q1" "usable ?q1 = 3" "contents ?q1 = [a]" using lq.put_laws [OF q0(1), of a] q0(2-4) by auto
  have q: "queue_inv ?q" "\<not> isShutdown ?q" "contents ?q = [a, b]" using lq.put_laws [OF q1(1), of b] q1(2-4) by auto
  obtain s where s: "new_sender (Inr (Some ?q)) (Some new_tcp) pool = Inr s" "as_pool s = pool" by (simp add: new_sender_def)
  have h: "dom (pool_heap pool) = {a, b}" using d(2) by auto
  obtain m where m: "pool_heap pool a = Some m" "msg_payload m = ''critical''" using d(2,3) by (simp add: Message_detailed_def)
  from s d(1,3) q h m show ?thesis
    by (intro exI [of _ s] exI [of _ a] exI [of _ b] exI [of _ ?q] exI [of _ m] exI [of _ pool]) simp
qed

lemma sendMessage_gives_up_witness:
  "\<exists>s s' a. sendMessage (\<lambda>k. True) (\<lambda>k. []) a s = Some s' \<and> as_total_failed s' = 1 \<and> as_total_retried s' = 3 \<and> as_waits s' = [100, 200, 300]
     \<and> a \<in> dom (pool_heap (as_pool s)) \<and> a \<notin> dom (pool_heap (as_pool s'))"
proof -
  obtain s a b q pool where d: "new_sender (Inr (Some q)) (Some new_tcp) pool = Inr s" "pool_inv (as_pool s)" "dom (pool_heap (as_pool s)) = {a, b}"
    using demo_sender by blast
  have s: "\<not> tc_connected (as_tcp s)" "as_total_failed s = 0" "as_total_retried s = 0" "as_waits s = []" "as_max_retries s = 3" "as_base_timeout s = 100"
    using d(1) by (auto simp: new_sender_def new_tcp_def)
  have a: "a \<in> dom (pool_heap (as_pool s))" using d(3) by auto
  have n: "[1 ..< Suc (unat (3 :: size_t))] = [1, 2, 3]" by (simp add: upt_rec)
  have ne: "(3 :: size_t) \<noteq> - 1" by simp
  obtain s' where "sendMessage (\<lambda>k. True) (\<lambda>k. []) a s = Some s'" "as_total_failed s' = 1" "as_total_retried s' = 3" "as_waits s' = [100, 200, 300]"
    "pool_heap (as_pool s') = (pool_heap (as_pool s))(a := None)"
    using sendMessage_gives_up [OF d(2) a s(1), of "\<lambda>k. True" "\<lambda>k. []", unfolded s(2-6) n if_not_P [OF ne]] by auto
  then show ?thesis using a by (intro exI [of _ s] exI [of _ s'] exI [of _ a]) simp
qed

lemma sender_drain_discards_witness:
  "\<exists>s s' q' ps. sender_drain [ps, ps] s = Some s' \<and> as_queue s' = Lockfree_Queue q' \<and> contents q' = [] \<and> tc_sent (as_tcp s') = [] \<and> as_total_failed s' = 2
     \<and> card (dom (pool_heap (as_pool s))) = 2 \<and> dom (pool_heap (as_pool s')) = {}"
proof -
  obtain s a b q pool where d: "new_sender (Inr (Some q)) (Some new_tcp) pool = Inr s" "pool_inv (as_pool s)" "dom (pool_heap (as_pool s)) = {a, b}"
    "a \<noteq> b" "queue_inv q" "\<not> isShutdown q" "contents q = [a, b]" using demo_sender by blast
  have s: "as_queue s = Lockfree_Queue q" "as_total_failed s = 0" "tc_sent (as_tcp s) = []" using d(1) by (auto simp: new_sender_def new_tcp_def)
  let ?ps = "\<lparr> ps_wait = (\<lambda>st. (False, st)), ps_running = (\<lambda>k. False), ps_answers = (\<lambda>k. []) \<rparr>"
  have h: "distinct (contents q)" "set (contents q) \<subseteq> dom (pool_heap (as_pool s))" "length [?ps, ?ps] = length (contents q)"
    "list_all (\<lambda>ps. \<not> ps_running ps 0) [?ps, ?ps]" using d(3,4,7) by simp_all
  from sender_drain_discards [OF s(1) d(5,6) h(1) d(2) h(2-4)] obtain s' q' where
    r: "sender_drain [?ps, ?ps] s = Some s'" "as_queue s' = Lockfree_Queue q'" "contents q' = []" "as_tcp s' = as_tcp s" "as_total_failed s' = 2"
    "dom (pool_heap (as_pool s')) = {}" by (auto simp: s(2) d(3,7))
  have "card (dom (pool_heap (as_pool s))) = 2" using d(3,4) by simp
  then show ?thesis using r s(3) by (intro exI [of _ s] exI [of _ s'] exI [of _ q'] exI [of _ ?ps]) simp
qed

lemma send_result_ignored_witness:
  "\<exists>s s' a. tcp_send ''critical'' (Sent_Bytes 3 # replicate 9 (Send_Error EWOULDBLOCK)) (as_tcp s) = Some (False, as_tcp s')
     \<and> sendMessage (\<lambda>k. True) (\<lambda>k. Sent_Bytes 3 # replicate 9 (Send_Error EWOULDBLOCK)) a s = Some s' \<and> as_total_sent s' = 1
     \<and> tc_sent (as_tcp s') = ''cri''"
proof -
  obtain s0 a b q m pool where d: "new_sender (Inr (Some q)) (Some new_tcp) pool = Inr s0" "pool_inv (as_pool s0)" "pool_heap (as_pool s0) a = Some m"
    "msg_payload m = ''critical''" using demo_sender by blast
  let ?t = "new_tcp\<lparr>tc_connected := True, tc_socket_open := True\<rparr>"
  let ?rs = "Sent_Bytes 3 # replicate 9 (Send_Error EWOULDBLOCK)"
  define s where "s = s0\<lparr>as_tcp := ?t\<rparr>"
  have s: "pool_inv (as_pool s)" "pool_heap (as_pool s) a = Some m" "tc_connected (as_tcp s)" "tc_socket_open (as_tcp s)" "as_total_sent s = 0" "as_tcp s = ?t"
    using d by (auto simp: s_def new_sender_def)
  have p: "map_option (\<lambda>(ok, t). (ok, tc_sent t)) (tcp_send ''critical'' ?rs ?t) = Some (False, ''cri'')" by code_simp
  then obtain t where t: "tcp_send ''critical'' ?rs ?t = Some (False, t)" "tc_sent t = ''cri''" by auto
  from send_result_ignored [OF s(1-4), of "\<lambda>k. True" "\<lambda>k. ?rs"] d(4) obtain s' n where
    r: "sendMessage (\<lambda>k. True) (\<lambda>k. ?rs) a s = Some s'" "as_total_sent s' = 1" "tc_sent (as_tcp s') = take n ''critical''" by (auto simp: s(5,6) new_tcp_def)
  have "as_tcp s' = t"
  proof -
    have "send_loop (\<lambda>k. True) (\<lambda>k. ?rs) a ''critical'' 0 s = Some (True, s\<lparr>as_tcp := t\<rparr>)"
      using s(3,6) t(1) by (subst send_loop.simps) (simp add: sender_isConnected_def)
    moreover have "a \<noteq> 0" using mp.null_not_live [OF s(1)] s(2) by auto
    ultimately show ?thesis using r(1) s(2) d(4) by (auto simp: sendMessage_def Let_def)
  qed
  with t s(6) r(1,2) show ?thesis by (intro exI [of _ s] exI [of _ s'] exI [of _ a]) simp
qed

end
