(* ===== verification/Sender_Queues.thy ===== *)
theory Sender_Queues
  imports Async_Sender
begin

text \<open>
  The queue that a sender consumes, as one contract for its two implementations: \<open>AsyncSender\<close> and \<open>AsyncSenderManager\<close> choose between the mutex based
  and the lock-free queue behind the same operations. A queue owns the messages it holds: they are live in the pool, and
  none is held twice. Adding a message stores it, possibly at the price of a held one, which is then destroyed, or refuses it and
  changes nothing; taking hands one message over to the caller. The senders' use of the contract is proved once.
\<close>

section \<open>The contract\<close>

definition held_live :: "addr list \<Rightarrow> message pool \<Rightarrow> bool" where
  "held_live as pool \<longleftrightarrow> pool_inv pool \<and> distinct as \<and> set as \<subseteq> dom (pool_heap pool)"

locale owning_queue =
  fixes good :: "'q \<Rightarrow> message pool \<Rightarrow> bool"
    and held :: "'q \<Rightarrow> addr list"
    and put :: "addr \<Rightarrow> 'q \<times> message pool \<Rightarrow> (bool \<times> 'q \<times> message pool) option"
    and get :: "'q \<times> message pool \<Rightarrow> (bool \<times> addr \<times> 'q \<times> message pool) option"
  assumes good_live: "good q pool \<Longrightarrow> held_live (held q) pool"
    and good_pool: "good q pool \<Longrightarrow> pool_inv pool' \<Longrightarrow> (\<And>a. a \<in> set (held q) \<Longrightarrow> pool_heap pool' a = pool_heap pool a) \<Longrightarrow> good q pool'"
    and get_empty: "good q pool \<Longrightarrow> held q = [] \<Longrightarrow> \<exists>a. get (q, pool) = Some (False, a, q, pool)"
    and get_some: "good q pool \<Longrightarrow> held q \<noteq> [] \<Longrightarrow>
      \<exists>a q'. get (q, pool) = Some (True, a, q', pool) \<and> good q' pool \<and> mset (held q) = add_mset a (mset (held q'))"
    and put_some: "good q pool \<Longrightarrow> a \<in> dom (pool_heap pool) \<Longrightarrow> a \<notin> set (held q) \<Longrightarrow>
      \<exists>ok q' pool'. put a (q, pool) = Some (ok, q', pool') \<and> good q' pool'
        \<and> (\<forall>b. b \<noteq> a \<and> b \<notin> set (held q) \<longrightarrow> pool_heap pool' b = pool_heap pool b)
        \<and> (if ok then a \<in> set (held q') \<and> set (held q') \<subseteq> insert a (set (held q)) \<and> length (held q') \<le> Suc (length (held q))
              \<and> dom (pool_heap pool') = dom (pool_heap pool) - (set (held q) - set (held q'))
           else held q' = held q \<and> pool' = pool)"
begin

text \<open>Taking a message leaves the queue good in a pool from which the taken message has been removed.\<close>

lemma get_destroy:
  assumes "good q pool" "held q \<noteq> []"
  shows "\<exists>a q'. get (q, pool) = Some (True, a, q', pool) \<and> good q' (Message_destroy a pool) \<and> a \<in> dom (pool_heap pool)
    \<and> set (held q) = insert a (set (held q')) \<and> a \<notin> set (held q') \<and> length (held q) = Suc (length (held q'))
    \<and> pool_inv (Message_destroy a pool) \<and> pool_heap (Message_destroy a pool) = (pool_heap pool)(a := None)"
proof -
  obtain a q' where g: "get (q, pool) = Some (True, a, q', pool)" "good q' pool" "mset (held q) = add_mset a (mset (held q'))"
    using get_some [OF assms] by blast
  have l: "pool_inv pool" "distinct (held q)" "set (held q) \<subseteq> dom (pool_heap pool)" using good_live [OF assms(1)] by (simp_all add: held_live_def)
  have s: "set (held q) = insert a (set (held q'))" using g(3) by (metis set_mset_add_mset_insert set_mset_mset)
  have n: "a \<notin> set (held q')" using g(3) l(2) by (metis distinct.simps(2) mset.simps(2) mset_eq_imp_distinct_iff)
  have len: "length (held q) = Suc (length (held q'))" using g(3) by (metis size_add_mset size_mset)
  have "a \<in> dom (pool_heap pool)" using s l(3) by auto
  note d = destroy_laws [OF l(1) this]
  have "good q' (Message_destroy a pool)" using n d by (intro good_pool [OF g(2) d(1)]) auto
  with g(1) s n d len \<open>a \<in> dom (pool_heap pool)\<close> show ?thesis by blast
qed

end

section \<open>The mutex based queue\<close>

text \<open>The manager creates its queues open, with the policy to drop the oldest, and with room.\<close>

definition mutex_good :: "pqueue \<Rightarrow> message pool \<Rightarrow> bool" where
  "mutex_good q pool \<longleftrightarrow> pq_inv (q, pool) \<and> \<not> pq_is_shutdown q \<and> pq_policy q = DROP_OLDEST \<and> 0 < pq_max_size q
     \<and> length (pq_queue q) \<le> unat (pq_max_size q)"

lemma pq_push_frame:
  assumes "pq_push wait now latency message (q, pool) = Some (ok, q', pool')" "pq_policy q \<noteq> BLOCK" "pq_inv (q, pool)"
    "message \<in> dom (pool_heap pool)" "\<not> pq_is_shutdown q"
  shows "pq_is_shutdown q' = pq_is_shutdown q \<and> pq_policy q' = pq_policy q \<and> pq_max_size q' = pq_max_size q
    \<and> (\<forall>b. b \<noteq> message \<and> b \<notin> set (pq_queue q) \<longrightarrow> pool_heap pool' b = pool_heap pool b)"
proof -
  let ?p1 = "modify_at message (msg_set_queue_entry now) pool"
  note p1 = entry_stamp [OF assms(3,4), of now]
  have inv: "pool_inv pool" "pool_inv ?p1" using assms(3) p1(1) by (simp_all add: pq_inv_def)
  have heap1: "pool_heap ?p1 b = pool_heap pool b" if "b \<noteq> message" for b using assms(4) that by (simp add: modify_at_laws [OF inv(1)])
  have st: "pool' = pp \<and> pq_is_shutdown q' = pq_is_shutdown qq \<and> pq_policy q' = pq_policy qq \<and> pq_max_size q' = pq_max_size qq"
    if "store_new latency message (qq, pp) = Some (ok, q', pool')" for qq pp
    using that by (auto simp: store_new_def pushInternal_def recordLatency_def Let_def split: if_splits)
  have dead: "pool_heap (Message_destroy a ?p1) b = pool_heap pool b"
    if "a \<in> insert message (set (pq_queue q))" "b \<noteq> message" "b \<notin> set (pq_queue q)" for a b
  proof -
    have "a \<in> dom (pool_heap ?p1)" "a \<noteq> b" using that p1(1) assms(4) by (auto simp: pq_inv_def p1(2))
    with destroy_laws(2) [OF inv(2)] heap1 that(2) show ?thesis by simp
  qed
  note push = assms(1) [unfolded pq_push_cases [OF assms(3,4,5)] Let_def]
  show ?thesis
  proof (cases "queue_full q \<and> pq_policy q = DROP_OLDEST \<and> pq_queue q \<noteq> []")
    case True
    then have hd: "hd (pq_queue q) \<in> insert message (set (pq_queue q))" by simp
    let ?q = "q\<lparr>pq_queue := heap_pop (message_key ?p1) (pq_queue q), pq_total_dropped := pq_total_dropped q + 1\<rparr>"
    from True have "handleOverflow (q, ?p1) = (True, ?q, Message_destroy (hd (pq_queue q)) ?p1)" by (simp add: handleOverflow_def)
    with True push have "store_new latency message (?q, Message_destroy (hd (pq_queue q)) ?p1) = Some (ok, q', pool')" by simp
    from st [OF this] dead [OF hd] show ?thesis by simp
  next
    case False
    then consider "store_new latency message (q, ?p1) = Some (ok, q', pool')"
      | "q' = q \<or> q' = q\<lparr>pq_total_dropped := pq_total_dropped q + 1\<rparr>" "pool' = Message_destroy message ?p1"
      using push assms(2) by (cases "pq_policy q") (simp_all add: handleOverflow_def drop_new_def split: if_splits)
    then show ?thesis
    proof cases
      case 1
      from st [OF this] heap1 show ?thesis by auto
    next
      case 2
      from 2(1) have "pq_is_shutdown q' = pq_is_shutdown q \<and> pq_policy q' = pq_policy q \<and> pq_max_size q' = pq_max_size q" by (elim disjE) simp_all
      with 2(2) dead [of message] show ?thesis by simp
    qed
  qed
qed

lemma mutex_put:
  assumes "mutex_good q pool" "a \<in> dom (pool_heap pool)" "a \<notin> set (pq_queue q)"
  shows "\<exists>ok q' pool'. pq_push wait now latency a (q, pool) = Some (ok, q', pool') \<and> mutex_good q' pool'
    \<and> (\<forall>b. b \<noteq> a \<and> b \<notin> set (pq_queue q) \<longrightarrow> pool_heap pool' b = pool_heap pool b)
    \<and> (if ok then a \<in> set (pq_queue q') \<and> set (pq_queue q') \<subseteq> insert a (set (pq_queue q)) \<and> length (pq_queue q') \<le> Suc (length (pq_queue q))
          \<and> dom (pool_heap pool') = dom (pool_heap pool) - (set (pq_queue q) - set (pq_queue q'))
       else pq_queue q' = pq_queue q \<and> pool' = pool)"
proof -
  have g: "pq_inv (q, pool)" "\<not> pq_is_shutdown q" "pq_policy q = DROP_OLDEST" "pq_policy q \<noteq> BLOCK" "0 < pq_max_size q"
    "length (pq_queue q) \<le> unat (pq_max_size q)" using assms(1) by (auto simp: mutex_good_def)
  obtain ok q' pool' where r: "pq_push wait now latency a (q, pool) = Some (ok, q', pool')" "pq_inv (q', pool')"
    "length (pq_queue q') \<le> unat (pq_max_size q')" "push_outcome wait now latency a (q, pool) ok (q', pool')"
    using pq_push_effect [OF g(1) assms(2,3) g(6), of wait now latency] g(4) by blast
  note f = pq_push_frame [OF r(1) g(4,1) assms(2) g(2)]
  have d: "distinct (pq_queue q)" using g(1) by (simp add: pq_inv_def)
  have "ok \<and> a \<in> set (pq_queue q') \<and> set (pq_queue q') \<subseteq> insert a (set (pq_queue q)) \<and> length (pq_queue q') \<le> Suc (length (pq_queue q))
      \<and> dom (pool_heap pool') = dom (pool_heap pool) - (set (pq_queue q) - set (pq_queue q'))"
  proof (cases "length (pq_queue q) < unat (pq_max_size q)")
    case True
    with r(4) g(2) have m: "ok" "mset (pq_queue q') = add_mset a (mset (pq_queue q))" "dom (pool_heap pool') = dom (pool_heap pool)"
      by (simp_all add: push_outcome_def push_stored_def)
    from arg_cong [OF m(2), of set_mset] arg_cong [OF m(2), of size] m(1,3) show ?thesis by auto
  next
    case False
    let ?v = "hd (pq_queue q)"
    from False g(5) have ne: "pq_queue q \<noteq> []" by (auto simp: word_less_nat_alt)
    from False r(4) g(2,3) ne have m: "ok" "mset (pq_queue q') = add_mset a (mset (pq_queue q) - {#?v#})" "dom (pool_heap pool') = dom (pool_heap pool) - {?v}"
      by (simp_all add: push_outcome_def push_stored_def)
    have "set_mset (mset (pq_queue q) - {#?v#}) = set (pq_queue q) - {?v}" using d ne by (cases "pq_queue q") auto
    then have s: "set (pq_queue q') = insert a (set (pq_queue q) - {?v})" using arg_cong [OF m(2), of set_mset] by simp
    have "length (pq_queue q') = length (pq_queue q)" using arg_cong [OF m(2), of size] ne by (cases "pq_queue q") auto
    moreover have "a \<noteq> ?v" using ne assms(3) hd_in_set by metis
    moreover have "?v \<in> set (pq_queue q)" using ne by simp
    ultimately show ?thesis using m(1,3) s by auto
  qed
  moreover have "mutex_good q' pool'" using r(2,3) f g by (simp add: mutex_good_def)
  ultimately show ?thesis using r(1) f by (intro exI [of _ ok] exI [of _ q'] exI [of _ pool']) simp
qed

interpretation mutex_queue: owning_queue mutex_good pq_queue "pq_push wait now latency" pq_tryPop for wait now latency
proof
  fix q pool
  assume good: "mutex_good q pool"
  then have inv: "pq_inv (q, pool)" by (simp add: mutex_good_def)
  then show "held_live (pq_queue q) pool" by (simp add: held_live_def pq_inv_def)
  show "mutex_good q pool'" if "pool_inv pool'" "\<And>a. a \<in> set (pq_queue q) \<Longrightarrow> pool_heap pool' a = pool_heap pool a" for pool'
  proof -
    have "pq_inv (q, pool')"
    proof (rule pq_inv_pool [OF inv that(1) _ refl])
      fix a assume a: "a \<in> set (pq_queue q)"
      then have "a \<in> dom (pool_heap pool)" using inv by (auto simp: pq_inv_def)
      then show "a \<in> dom (pool_heap pool') \<and> message_key pool' a = message_key pool a"
        using that(2) [OF a] message_key_cong [OF that(2) [OF a]] by (simp add: dom_def)
    qed
    with good show ?thesis by (simp add: mutex_good_def)
  qed
  show "\<exists>a. pq_tryPop (q, pool) = Some (False, a, q, pool)" if "pq_queue q = []"
    using that by (simp add: pq_tryPop_def take_top_def)
  show "\<exists>a q'. pq_tryPop (q, pool) = Some (True, a, q', pool) \<and> mutex_good q' pool \<and> mset (pq_queue q) = add_mset a (mset (pq_queue q'))"
    if ne: "pq_queue q \<noteq> []"
  proof -
    let ?q = "q\<lparr>pq_queue := heap_pop (message_key pool) (pq_queue q), pq_total_popped := pq_total_popped q + 1\<rparr>"
    have "pq_tryPop (q, pool) = Some (True, hd (pq_queue q), ?q, pool)"
      using ne pq_inv_live [OF inv] by (simp add: pq_tryPop_def take_top_def)
    moreover have p: "pq_inv (?q, pool)" "mset (pq_queue q) = add_mset (hd (pq_queue q)) (mset (pq_queue ?q))"
      using pop_inv [OF inv ne, of ?q] by simp_all
    moreover have "length (pq_queue ?q) \<le> length (pq_queue q)" using arg_cong [OF p(2), of size] by simp
    ultimately show ?thesis using good by (intro exI [of _ "hd (pq_queue q)"] exI [of _ ?q]) (auto simp: mutex_good_def)
  qed
qed (rule mutex_put)

section \<open>The lock-free queue\<close>

definition lockfree_good :: "addr lfq \<Rightarrow> message pool \<Rightarrow> bool" where
  "lockfree_good q pool \<longleftrightarrow> queue_inv q \<and> \<not> isShutdown q \<and> held_live (contents q) pool"

definition lockfree_put :: "addr \<Rightarrow> addr lfq \<times> message pool \<Rightarrow> (bool \<times> addr lfq \<times> message pool) option" where
  "lockfree_put a st = (let (ok, q) = push a (fst st) in Some (ok, q, snd st))"

definition lockfree_get :: "addr lfq \<times> message pool \<Rightarrow> (bool \<times> addr \<times> addr lfq \<times> message pool) option" where
  "lockfree_get st = (let (ok, a, q) = tryPop 0 (fst st) in Some (ok, a, q, snd st))"

lemma tryPop_empty: "queue_inv q \<Longrightarrow> contents q = [] \<Longrightarrow> \<exists>a. tryPop d q = (False, a, q)"
  using lq.get_ok [of q d] by (auto simp: tryPop_def Let_def split: if_splits)

interpretation lockfree_queue: owning_queue lockfree_good contents lockfree_put lockfree_get
proof
  fix q pool
  assume good: "lockfree_good q pool"
  then have g: "queue_inv q" "\<not> isShutdown q" "held_live (contents q) pool" by (simp_all add: lockfree_good_def)
  show "held_live (contents q) pool" by (rule g)
  show "lockfree_good q pool'" if "pool_inv pool'" "\<And>a. a \<in> set (contents q) \<Longrightarrow> pool_heap pool' a = pool_heap pool a" for pool'
  proof -
    have "a \<in> dom (pool_heap pool')" if a: "a \<in> set (contents q)" for a
      using g(3) \<open>a \<in> set (contents q) \<Longrightarrow> pool_heap pool' a = pool_heap pool a\<close> [OF a] a by (auto simp: held_live_def)
    with g that(1) show ?thesis by (auto simp: lockfree_good_def held_live_def)
  qed
  show "\<exists>a. lockfree_get (q, pool) = Some (False, a, q, pool)" if "contents q = []"
    using tryPop_empty [OF g(1) that, of 0] by (auto simp: lockfree_get_def)
  show "\<exists>a q'. lockfree_get (q, pool) = Some (True, a, q', pool) \<and> lockfree_good q' pool \<and> mset (contents q) = add_mset a (mset (contents q'))"
    if ne: "contents q \<noteq> []"
  proof -
    obtain ok a q' where t: "tryPop 0 q = (ok, a, q')" by (cases "tryPop 0 q")
    have q': "ok" "contents q = a # contents q'" "queue_inv q'" "\<not> isShutdown q'"
      using lq.get_laws [OF g(1), of 0, unfolded t fst_conv snd_conv] g(2) ne by (auto split: if_splits)
    with g(3) t show ?thesis by (auto simp: lockfree_get_def lockfree_good_def held_live_def)
  qed
  show "\<exists>ok q' pool'. lockfree_put a (q, pool) = Some (ok, q', pool') \<and> lockfree_good q' pool'
      \<and> (\<forall>b. b \<noteq> a \<and> b \<notin> set (contents q) \<longrightarrow> pool_heap pool' b = pool_heap pool b)
      \<and> (if ok then a \<in> set (contents q') \<and> set (contents q') \<subseteq> insert a (set (contents q)) \<and> length (contents q') \<le> Suc (length (contents q))
            \<and> dom (pool_heap pool') = dom (pool_heap pool) - (set (contents q) - set (contents q'))
         else contents q' = contents q \<and> pool' = pool)"
    if "a \<in> dom (pool_heap pool)" "a \<notin> set (contents q)" for a
  proof -
    obtain ok q' where t: "push a q = (ok, q')" by (cases "push a q")
    have q': "queue_inv q'" "\<not> isShutdown q'" "contents q' = (if ok then contents q @ [a] else contents q)"
      using lq.put_laws [OF g(1), of a, unfolded t fst_conv snd_conv] g(2) by auto
    with g(3) t that show ?thesis by (auto simp: lockfree_put_def lockfree_good_def held_live_def)
  qed
qed

section \<open>Either queue\<close>

fun queue_good :: "sender_queue \<Rightarrow> message pool \<Rightarrow> bool" where
  "queue_good (Mutex_Queue q) pool = mutex_good q pool"
| "queue_good (Lockfree_Queue q) pool = lockfree_good q pool"

fun queue_held :: "sender_queue \<Rightarrow> addr list" where
  "queue_held (Mutex_Queue q) = pq_queue q"
| "queue_held (Lockfree_Queue q) = contents q"

fun queue_put :: "uint64 \<Rightarrow> uint64 \<Rightarrow> addr \<Rightarrow> sender_queue \<times> message pool \<Rightarrow> (bool \<times> sender_queue \<times> message pool) option" where
  "queue_put now latency a (Mutex_Queue q, pool) =
    map_option (\<lambda>(ok, q, pool). (ok, Mutex_Queue q, pool)) (pq_push (\<lambda>st. (False, st)) now latency a (q, pool))"
| "queue_put now latency a (Lockfree_Queue q, pool) = map_option (\<lambda>(ok, q, pool). (ok, Lockfree_Queue q, pool)) (lockfree_put a (q, pool))"

fun queue_get :: "sender_queue \<times> message pool \<Rightarrow> (bool \<times> addr \<times> sender_queue \<times> message pool) option" where
  "queue_get (Mutex_Queue q, pool) = map_option (\<lambda>(ok, a, q, pool). (ok, a, Mutex_Queue q, pool)) (pq_tryPop (q, pool))"
| "queue_get (Lockfree_Queue q, pool) = map_option (\<lambda>(ok, a, q, pool). (ok, a, Lockfree_Queue q, pool)) (lockfree_get (q, pool))"

interpretation sender_source: owning_queue queue_good queue_held "queue_put now latency" queue_get for now latency
proof
  fix sq pool
  assume good: "queue_good sq pool"
  show "held_live (queue_held sq) pool"
    using good by (cases sq) (auto dest: mutex_queue.good_live lockfree_queue.good_live)
  show "queue_good sq pool'" if "pool_inv pool'" "\<And>a. a \<in> set (queue_held sq) \<Longrightarrow> pool_heap pool' a = pool_heap pool a" for pool'
    using good that by (cases sq) (auto intro: mutex_queue.good_pool lockfree_queue.good_pool)
  show "\<exists>a. queue_get (sq, pool) = Some (False, a, sq, pool)" if "queue_held sq = []"
    using good that mutex_queue.get_empty lockfree_queue.get_empty by (cases sq) fastforce+
  show "\<exists>a q'. queue_get (sq, pool) = Some (True, a, q', pool) \<and> queue_good q' pool \<and> mset (queue_held sq) = add_mset a (mset (queue_held q'))"
    if "queue_held sq \<noteq> []"
  proof (cases sq)
    case (Mutex_Queue q)
    with good that mutex_queue.get_some [of q pool] obtain a q' where
      "pq_tryPop (q, pool) = Some (True, a, q', pool)" "mutex_good q' pool" "mset (pq_queue q) = add_mset a (mset (pq_queue q'))" by auto
    with Mutex_Queue show ?thesis by (intro exI [of _ a] exI [of _ "Mutex_Queue q'"]) simp
  next
    case (Lockfree_Queue q)
    with good that lockfree_queue.get_some [of q pool] obtain a q' where
      "lockfree_get (q, pool) = Some (True, a, q', pool)" "lockfree_good q' pool" "mset (contents q) = add_mset a (mset (contents q'))" by auto
    with Lockfree_Queue show ?thesis by (intro exI [of _ a] exI [of _ "Lockfree_Queue q'"]) simp
  qed
  show "\<exists>ok q' pool'. queue_put now latency a (sq, pool) = Some (ok, q', pool') \<and> queue_good q' pool'
      \<and> (\<forall>b. b \<noteq> a \<and> b \<notin> set (queue_held sq) \<longrightarrow> pool_heap pool' b = pool_heap pool b)
      \<and> (if ok then a \<in> set (queue_held q') \<and> set (queue_held q') \<subseteq> insert a (set (queue_held sq)) \<and> length (queue_held q') \<le> Suc (length (queue_held sq))
            \<and> dom (pool_heap pool') = dom (pool_heap pool) - (set (queue_held sq) - set (queue_held q'))
         else queue_held q' = queue_held sq \<and> pool' = pool)"
    if a: "a \<in> dom (pool_heap pool)" "a \<notin> set (queue_held sq)" for a now latency
  proof (cases sq)
    case (Mutex_Queue q)
    from mutex_queue.put_some [of q pool a "\<lambda>st. (False, st)" now latency] good a Mutex_Queue obtain ok q' pool' where
      "pq_push (\<lambda>st. (False, st)) now latency a (q, pool) = Some (ok, q', pool')" "mutex_good q' pool'"
      "\<forall>b. b \<noteq> a \<and> b \<notin> set (pq_queue q) \<longrightarrow> pool_heap pool' b = pool_heap pool b"
      "if ok then a \<in> set (pq_queue q') \<and> set (pq_queue q') \<subseteq> insert a (set (pq_queue q)) \<and> length (pq_queue q') \<le> Suc (length (pq_queue q))
          \<and> dom (pool_heap pool') = dom (pool_heap pool) - (set (pq_queue q) - set (pq_queue q'))
       else pq_queue q' = pq_queue q \<and> pool' = pool" by auto
    then show ?thesis unfolding Mutex_Queue by (intro exI [of _ ok] exI [of _ "Mutex_Queue q'"] exI [of _ pool']) simp
  next
    case (Lockfree_Queue q)
    from lockfree_queue.put_some [of q pool a] good a Lockfree_Queue obtain ok q' pool' where
      "lockfree_put a (q, pool) = Some (ok, q', pool')" "lockfree_good q' pool'"
      "\<forall>b. b \<noteq> a \<and> b \<notin> set (contents q) \<longrightarrow> pool_heap pool' b = pool_heap pool b"
      "if ok then a \<in> set (contents q') \<and> set (contents q') \<subseteq> insert a (set (contents q)) \<and> length (contents q') \<le> Suc (length (contents q))
          \<and> dom (pool_heap pool') = dom (pool_heap pool) - (set (contents q) - set (contents q'))
       else contents q' = contents q \<and> pool' = pool" by auto
    then show ?thesis unfolding Lockfree_Queue by (intro exI [of _ ok] exI [of _ "Lockfree_Queue q'"] exI [of _ pool']) simp
  qed
qed

end
