(* ===== verification/Sender_Manager.thy ===== *)
theory Sender_Manager
  imports Sender_Queues
begin

text \<open>
  \<open>AsyncSenderManager\<close> and \<open>AsyncSenderManagerFactory\<close> (include/manager/async_sender_manager.h, src/manager/async_sender_manager.cpp): four senders,
  one for each priority, with a queue each and one connection that they share. The manager's state holds the shared
  objects; a sender is given the current ones before it runs and its results are taken back. The pool of the messages is part of the state.

  The order in which an \<open>unordered_map\<close> is traversed is an argument \<open>order\<close>. So are the answers of the system: an error when a thread
  cannot be created, and whether it can be pinned or given real-time priority (the code for Linux is modelled). Stopping a
  sender waits for its thread, which first empties the queue; since \<open>running_\<close> is then false the number of messages bounds that
  loop. \<open>None\<close> is a failure that ends the program. A destroyed mutex based queue destroys its messages; a lock-free queue does not.
\<close>

section \<open>State\<close>

datatype queue_type = MUTEX_BASED | LOCK_FREE

record pinning_config =
  pc_critical_core :: int
  pc_high_core :: int
  pc_medium_core :: int
  pc_low_core :: int
  pc_enable_core_pinning :: bool
  pc_enable_real_time_priority :: bool
  pc_queue_type :: queue_type
  pc_critical_queue_size :: size_t
  pc_high_queue_size :: size_t
  pc_medium_queue_size :: size_t
  pc_low_queue_size :: size_t

definition CorePinningConfig :: pinning_config where
  "CorePinningConfig =
    \<lparr> pc_critical_core = 0, pc_high_core = 1, pc_medium_core = 2, pc_low_core = 3, pc_enable_core_pinning = True,
      pc_enable_real_time_priority = False, pc_queue_type = MUTEX_BASED, pc_critical_queue_size = 1024, pc_high_queue_size = 2048,
      pc_medium_queue_size = 4096, pc_low_queue_size = 8192 \<rparr>"

record sender_manager =
  sm_config :: pinning_config
  sm_tcp :: "tcp option"
  sm_priority_queues :: "priority \<rightharpoonup> pqueue"
  sm_lockfree_queues :: "priority \<rightharpoonup> addr lfq"
  sm_async_senders :: "priority \<rightharpoonup> sender"
  sm_priority_to_core :: "priority \<rightharpoonup> int"
  sm_thread_core :: "priority \<rightharpoonup> int"
  sm_thread_real_time :: "priority \<Rightarrow> bool"
  sm_running :: bool
  sm_shutdown_requested :: bool
  sm_pool :: "message pool"

fun core_of :: "pinning_config \<Rightarrow> priority \<Rightarrow> int" where
  "core_of cfg CRITICAL = pc_critical_core cfg"
| "core_of cfg HIGH = pc_high_core cfg"
| "core_of cfg MEDIUM = pc_medium_core cfg"
| "core_of cfg LOW = pc_low_core cfg"

definition new_sender_manager :: "pinning_config \<Rightarrow> message pool \<Rightarrow> sender_manager" where
  "new_sender_manager cfg pool =
    \<lparr> sm_config = cfg, sm_tcp = None, sm_priority_queues = Map.empty, sm_lockfree_queues = Map.empty, sm_async_senders = Map.empty,
      sm_priority_to_core = (\<lambda>pr. Some (core_of cfg pr)), sm_thread_core = Map.empty, sm_thread_real_time = (\<lambda>pr. False),
      sm_running = False, sm_shutdown_requested = False, sm_pool = pool \<rparr>"

definition default_sender_manager :: "message pool \<Rightarrow> sender_manager" where
  "default_sender_manager pool = new_sender_manager CorePinningConfig pool"

section \<open>Shared objects\<close>

text \<open>The queue of a priority, of the kind that the configuration selects.\<close>

definition the_queue :: "priority \<Rightarrow> sender_manager \<Rightarrow> sender_queue option" where
  "the_queue pr m =
    (case pc_queue_type (sm_config m) of
       MUTEX_BASED \<Rightarrow> map_option Mutex_Queue (sm_priority_queues m pr)
     | LOCK_FREE \<Rightarrow> map_option Lockfree_Queue (sm_lockfree_queues m pr))"

definition put_queue :: "priority \<Rightarrow> sender_queue \<Rightarrow> sender_manager \<Rightarrow> sender_manager" where
  "put_queue pr sq m =
    (case sq of
       Mutex_Queue q \<Rightarrow> m\<lparr>sm_priority_queues := (sm_priority_queues m)(pr \<mapsto> q)\<rparr>
     | Lockfree_Queue q \<Rightarrow> m\<lparr>sm_lockfree_queues := (sm_lockfree_queues m)(pr \<mapsto> q)\<rparr>)"

text \<open>The sender with the objects it shares with the manager, and the way back.\<close>

definition load_sender :: "priority \<Rightarrow> sender_manager \<Rightarrow> sender option" where
  "load_sender pr m =
    (case (sm_async_senders m pr, the_queue pr m, sm_tcp m) of
       (Some s, Some sq, Some t) \<Rightarrow> Some (s\<lparr>as_queue := sq, as_tcp := t, as_pool := sm_pool m\<rparr>)
     | _ \<Rightarrow> None)"

definition store_sender :: "priority \<Rightarrow> sender \<Rightarrow> sender_manager \<Rightarrow> sender_manager" where
  "store_sender pr s m =
    (put_queue pr (as_queue s) m)\<lparr>sm_async_senders := (sm_async_senders m)(pr \<mapsto> s), sm_tcp := Some (as_tcp s), sm_pool := as_pool s\<rparr>"

section \<open>Configuration and monitoring\<close>

definition getAsyncSenderForPriority :: "priority \<Rightarrow> sender_manager \<Rightarrow> sender option" where
  "getAsyncSenderForPriority pr m = sm_async_senders m pr"

definition getQueueTypeString :: "sender_manager \<Rightarrow> string" where
  "getQueueTypeString m = (case pc_queue_type (sm_config m) of MUTEX_BASED \<Rightarrow> ''MUTEX_BASED'' | LOCK_FREE \<Rightarrow> ''LOCK_FREE'')"

fun size_of :: "pinning_config \<Rightarrow> priority \<Rightarrow> size_t" where
  "size_of cfg CRITICAL = pc_critical_queue_size cfg"
| "size_of cfg HIGH = pc_high_queue_size cfg"
| "size_of cfg MEDIUM = pc_medium_queue_size cfg"
| "size_of cfg LOW = pc_low_queue_size cfg"

definition getQueueSizeForPriority :: "priority \<Rightarrow> sender_manager \<Rightarrow> size_t" where
  "getQueueSizeForPriority pr m = size_of (sm_config m) pr"

definition getCoreForPriority :: "priority \<Rightarrow> sender_manager \<Rightarrow> int" where
  "getCoreForPriority pr m = (case sm_priority_to_core m pr of Some core \<Rightarrow> core | None \<Rightarrow> 0)"

definition setCoreAffinity :: "priority \<Rightarrow> int \<Rightarrow> sender_manager \<Rightarrow> sender_manager" where
  "setCoreAffinity pr core_id m = m\<lparr>sm_priority_to_core := (sm_priority_to_core m)(pr \<mapsto> core_id)\<rparr>"

definition setRealTimePriority :: "priority \<Rightarrow> bool \<Rightarrow> sender_manager \<Rightarrow> sender_manager" where
  "setRealTimePriority pr enable m = m\<lparr>sm_config := (sm_config m)\<lparr>pc_enable_real_time_priority := enable\<rparr>\<rparr>"

definition manager_queue_size :: "priority \<Rightarrow> sender_manager \<Rightarrow> size_t" where
  "manager_queue_size pr m =
    (case pc_queue_type (sm_config m) of
       MUTEX_BASED \<Rightarrow> (case sm_priority_queues m pr of Some q \<Rightarrow> pq_size q | None \<Rightarrow> 0)
     | LOCK_FREE \<Rightarrow> (case sm_lockfree_queues m pr of Some q \<Rightarrow> queue_size q | None \<Rightarrow> 0))"

definition getQueueDepths :: "sender_manager \<Rightarrow> size_t list" where
  "getQueueDepths m = map (\<lambda>pr. manager_queue_size pr m) [CRITICAL, HIGH, MEDIUM, LOW]"

definition manager_isConnected :: "sender_manager \<Rightarrow> bool" where
  "manager_isConnected m = (case sm_tcp m of Some t \<Rightarrow> tc_connected t | None \<Rightarrow> False)"

definition areAllCoresConnected :: "priority list \<Rightarrow> sender_manager \<Rightarrow> bool" where
  "areAllCoresConnected order m \<longleftrightarrow>
    manager_isConnected m \<and> list_all (\<lambda>pr. case sm_async_senders m pr of None \<Rightarrow> True | Some s \<Rightarrow> as_running s) order"

record manager_stats =
  mst_total_sent :: uint64
  mst_total_failed :: uint64
  mst_count :: "priority \<Rightarrow> uint64"
  mst_tcp_connected :: bool
  mst_queue_type :: queue_type

definition manager_getStats :: "priority list \<Rightarrow> sender_manager \<Rightarrow> manager_stats" where
  "manager_getStats order m =
    (let senders = List.map_filter (sm_async_senders m) order
     in \<lparr> mst_total_sent = sum_list (map as_total_sent senders), mst_total_failed = sum_list (map as_total_failed senders),
          mst_count = (\<lambda>pr. case sm_async_senders m pr of None \<Rightarrow> 0 | Some s \<Rightarrow> as_total_sent s),
          mst_tcp_connected = manager_isConnected m, mst_queue_type = pc_queue_type (sm_config m) \<rparr>)"

section \<open>Connection\<close>

definition createTcpConnection :: "sender_manager \<Rightarrow> sender_manager" where
  "createTcpConnection m = m\<lparr>sm_tcp := Some new_tcp\<rparr>"

definition connectToServer :: "setup_answers \<Rightarrow> string \<Rightarrow> int \<Rightarrow> sender_manager \<Rightarrow> (string + bool) \<times> sender_manager" where
  "connectToServer sa host port m =
    (let m = (if sm_tcp m = None then createTcpConnection m else m);
         (r, t) = tcp_connect sa host port (the (sm_tcp m))
     in (r, m\<lparr>sm_tcp := Some t\<rparr>))"

definition disconnectFromServer :: "sender_manager \<Rightarrow> sender_manager" where
  "disconnectFromServer m = m\<lparr>sm_tcp := map_option disconnect (sm_tcp m)\<rparr>"

section \<open>Ending a sender\<close>

text \<open>What the sender thread still does once \<open>running_\<close> is false; nothing is sent then, so that the answers do not matter.\<close>

definition stopped_pass :: pass where
  "stopped_pass = \<lparr> ps_wait = (\<lambda>st. (False, st)), ps_running = (\<lambda>k. False), ps_answers = (\<lambda>k. []) \<rparr>"

definition join_sender :: "sender \<Rightarrow> sender option" where
  "join_sender s =
    (let s = s\<lparr>as_running := False\<rparr>
     in if as_thread_joinable s then sender_drain (replicate (length (queue_held (as_queue s))) stopped_pass) s else Some s)"

definition stop_sender :: "sender \<Rightarrow> sender option" where
  "stop_sender s = map_option sender_stop (join_sender s)"

text \<open>The end of a sender object, whose destructor shuts it down, and of its queue when the last reference to it is dropped. A sender that is not running is
  not shut down; if its thread object is still joinable, destroying it ends the program.\<close>

definition retire_sender :: "priority \<Rightarrow> sender_manager \<Rightarrow> sender_manager option" where
  "retire_sender pr m =
    (case load_sender pr m of
       None \<Rightarrow> Some m
     | Some s \<Rightarrow>
       if as_running s
       then map_option (\<lambda>s. store_sender pr (s\<lparr>as_shutdown_requested := True, as_thread_joinable := False\<rparr>) m) (join_sender s)
       else if as_thread_joinable s then None
       else Some m)"

fun release_queue :: "sender_queue option \<Rightarrow> message pool \<Rightarrow> message pool option" where
  "release_queue (Some (Mutex_Queue q)) pool = map_option snd (pq_clear (pq_shutdown q, pool))"
| "release_queue _ pool = Some pool"

definition drop_sender :: "priority \<Rightarrow> sender_manager \<Rightarrow> sender_manager option" where
  "drop_sender pr m =
    Option.bind (retire_sender pr m) (\<lambda>m. map_option (\<lambda>pool. m\<lparr>sm_pool := pool\<rparr>) (release_queue (the_queue pr m) (sm_pool m)))"

section \<open>Creating and starting the senders\<close>

fun queue_name_of :: "priority \<Rightarrow> string" where
  "queue_name_of CRITICAL = ''critical''"
| "queue_name_of HIGH = ''high''"
| "queue_name_of MEDIUM = ''medium''"
| "queue_name_of LOW = ''low''"

definition fresh_queue :: "pinning_config \<Rightarrow> priority \<Rightarrow> sender_queue" where
  "fresh_queue cfg pr =
    (case pc_queue_type cfg of
       MUTEX_BASED \<Rightarrow> Mutex_Queue (new_pqueue (size_of cfg pr) DROP_OLDEST (queue_name_of pr @ ''_queue''))
     | LOCK_FREE \<Rightarrow> Lockfree_Queue (newQueue 0 (size_of cfg pr) (queue_name_of pr @ ''_lockfree_queue'')))"

definition fresh_sender :: "sender_queue \<Rightarrow> tcp \<Rightarrow> message pool \<Rightarrow> sender option" where
  "fresh_sender sq t pool =
    (case new_sender (case sq of Mutex_Queue q \<Rightarrow> Inl (Some q) | Lockfree_Queue q \<Rightarrow> Inr (Some q)) (Some t) pool of
       Inr s \<Rightarrow> Some s | Inl _ \<Rightarrow> None)"

primrec create_senders :: "priority list \<Rightarrow> sender_manager \<Rightarrow> sender_manager option" where
  "create_senders [] m = Some m"
| "create_senders (pr # prs) m =
    Option.bind (drop_sender pr m)
      (\<lambda>m. Option.bind (fresh_sender (fresh_queue (sm_config m) pr) (the (sm_tcp m)) (sm_pool m))
        (\<lambda>s. create_senders prs (store_sender pr s m)))"

definition createQueuesAndSenders :: "priority list \<Rightarrow> sender_manager \<Rightarrow> sender_manager option" where
  "createQueuesAndSenders order m = create_senders order m"

definition pinThreadToCore :: "(int \<Rightarrow> bool) \<Rightarrow> priority \<Rightarrow> int \<Rightarrow> sender_manager \<Rightarrow> bool \<times> sender_manager" where
  "pinThreadToCore affinity pr core_id m =
    (if affinity core_id then (True, m\<lparr>sm_thread_core := (sm_thread_core m)(pr \<mapsto> core_id)\<rparr>) else (False, m))"

definition setThreadRealTimePriority :: "bool \<Rightarrow> priority \<Rightarrow> sender_manager \<Rightarrow> bool \<times> sender_manager" where
  "setThreadRealTimePriority granted pr m =
    (if \<not> pc_enable_real_time_priority (sm_config m) then (False, m)
     else if granted then (True, m\<lparr>sm_thread_real_time := (sm_thread_real_time m)(pr := True)\<rparr>)
     else (False, m))"

text \<open>What the system answers while a sender is started: an error text when no thread can be created, for which cores pinning succeeds, and
  whether real-time priority is granted.\<close>

record start_answers =
  sx_spawn_error :: "string option"
  sx_affinity :: "int \<Rightarrow> bool"
  sx_real_time :: bool

definition start_sender :: "string option \<Rightarrow> sender \<Rightarrow> ((string + unit) \<times> sender) option" where
  "start_sender spawn_error s =
    (if as_running s then Some (Inr (), s)
     else case spawn_error of
            Some e \<Rightarrow> Some (Inl e, s\<lparr>as_running := True, as_shutdown_requested := False\<rparr>)
          | None \<Rightarrow> map_option (\<lambda>s. (Inr (), s)) (sender_start s))"

definition configure_thread :: "start_answers \<Rightarrow> priority \<Rightarrow> sender_manager \<Rightarrow> sender_manager" where
  "configure_thread sx pr m =
    (let m = snd (pinThreadToCore (sx_affinity sx) pr (getCoreForPriority pr m) m)
     in if pc_enable_real_time_priority (sm_config m) then snd (setThreadRealTimePriority (sx_real_time sx) pr m) else m)"

primrec startAsyncSenders :: "(priority \<Rightarrow> start_answers) \<Rightarrow> priority list \<Rightarrow> sender_manager \<Rightarrow> ((string + unit) \<times> sender_manager) option" where
  "startAsyncSenders sx [] m = Some (Inr (), m)"
| "startAsyncSenders sx (pr # prs) m =
    (case sm_async_senders m pr of
       None \<Rightarrow> startAsyncSenders sx prs m
     | Some s \<Rightarrow>
       Option.bind (start_sender (sx_spawn_error (sx pr)) s)
         (\<lambda>(r, s). let m = m\<lparr>sm_async_senders := (sm_async_senders m)(pr \<mapsto> s)\<rparr>
                   in case r of
                        Inl e \<Rightarrow> Some (Inl e, m)
                      | Inr _ \<Rightarrow> startAsyncSenders sx prs
                          (if pc_enable_core_pinning (sm_config m) \<and> as_thread_joinable s then configure_thread (sx pr) pr m else m)))"

section \<open>Stopping\<close>

primrec stopAsyncSenders :: "priority list \<Rightarrow> sender_manager \<Rightarrow> sender_manager option" where
  "stopAsyncSenders [] m = Some m"
| "stopAsyncSenders (pr # prs) m =
    (case load_sender pr m of
       None \<Rightarrow> stopAsyncSenders prs m
     | Some s \<Rightarrow>
       if as_running s then Option.bind (stop_sender s) (\<lambda>s. stopAsyncSenders prs (store_sender pr s m))
       else stopAsyncSenders prs m)"

definition manager_stop :: "priority list \<Rightarrow> sender_manager \<Rightarrow> sender_manager option" where
  "manager_stop order m =
    (if \<not> sm_running m then Some m
     else map_option (\<lambda>m. m\<lparr>sm_tcp := map_option disconnect (sm_tcp m)\<rparr>) (stopAsyncSenders order (m\<lparr>sm_running := False\<rparr>)))"

definition manager_start :: "(priority \<Rightarrow> start_answers) \<Rightarrow> priority list \<Rightarrow> sender_manager \<Rightarrow> ((string + unit) \<times> sender_manager) option" where
  "manager_start sx order m =
    (if sm_running m then Some (Inr (), m)
     else Option.bind (createQueuesAndSenders order (createTcpConnection m))
       (\<lambda>m. Option.bind (startAsyncSenders sx order m)
         (\<lambda>(r, m). case r of
              Inr _ \<Rightarrow> Some (Inr (), m\<lparr>sm_running := True\<rparr>)
            | Inl e \<Rightarrow> map_option (\<lambda>m. (Inl e, m)) (manager_stop order m))))"

primrec drop_senders :: "priority list \<Rightarrow> sender_manager \<Rightarrow> sender_manager option" where
  "drop_senders [] m = Some m"
| "drop_senders (pr # prs) m = Option.bind (drop_sender pr m) (drop_senders prs)"

definition manager_shutdown :: "priority list \<Rightarrow> sender_manager \<Rightarrow> sender_manager option" where
  "manager_shutdown order m =
    Option.bind (manager_stop order (m\<lparr>sm_shutdown_requested := True\<rparr>))
      (\<lambda>m. map_option
        (\<lambda>m. m\<lparr>sm_priority_queues := Map.empty, sm_lockfree_queues := Map.empty, sm_async_senders := Map.empty, sm_tcp := None,
               sm_shutdown_requested := False\<rparr>)
        (drop_senders order m))"

definition sender_manager_destroy :: "priority list \<Rightarrow> sender_manager \<Rightarrow> sender_manager option" where
  "sender_manager_destroy order m = (if sm_running m then manager_shutdown order m else Some m)"

section \<open>Sending\<close>

definition pushToQueue :: "uint64 \<Rightarrow> uint64 \<Rightarrow> priority \<Rightarrow> addr \<Rightarrow> sender_manager \<Rightarrow> (bool \<times> sender_manager) option" where
  "pushToQueue now latency pr message m =
    (case the_queue pr m of
       None \<Rightarrow> Some (False, m)
     | Some sq \<Rightarrow> map_option (\<lambda>(ok, sq, pool). (ok, (put_queue pr sq m)\<lparr>sm_pool := pool\<rparr>)) (queue_put now latency message (sq, sm_pool m)))"

text \<open>A message that the queue refused is destroyed; when the queue has destroyed it already, a second time, which is undefined.\<close>

definition manager_sendMessage :: "uint64 \<Rightarrow> uint64 \<Rightarrow> addr \<Rightarrow> priority \<Rightarrow> sender_manager \<Rightarrow> (bool \<times> sender_manager) option" where
  "manager_sendMessage now latency message pr m =
    (if \<not> sm_running m \<or> message = 0 then Some (False, m)
     else Option.bind (pushToQueue now latency pr message m)
       (\<lambda>(success, m).
          if success then Some (True, m)
          else if message \<notin> dom (pool_heap (sm_pool m)) then None
          else Some (False, m\<lparr>sm_pool := Message_destroy message (sm_pool m)\<rparr>)))"

text \<open>One pass of a sender's thread.\<close>

definition manager_pass :: "pass \<Rightarrow> priority \<Rightarrow> sender_manager \<Rightarrow> sender_manager option" where
  "manager_pass ps pr m =
    (case load_sender pr m of
       None \<Rightarrow> Some m
     | Some s \<Rightarrow> if as_running s \<and> as_thread_joinable s then map_option (\<lambda>s. store_sender pr s m) (sender_pass ps s) else Some m)"

section \<open>The factory\<close>

definition createM1MaxConfig :: pinning_config where
  "createM1MaxConfig = CorePinningConfig
    \<lparr>pc_critical_core := 0, pc_high_core := 1, pc_medium_core := 2, pc_low_core := 3, pc_enable_core_pinning := True,
     pc_enable_real_time_priority := False, pc_critical_queue_size := 512, pc_high_queue_size := 1024, pc_medium_queue_size := 2048,
     pc_low_queue_size := 4096\<rparr>"

definition createIntelConfig :: pinning_config where
  "createIntelConfig = CorePinningConfig
    \<lparr>pc_critical_core := 0, pc_high_core := 1, pc_medium_core := 2, pc_low_core := 3, pc_enable_core_pinning := True,
     pc_enable_real_time_priority := False, pc_critical_queue_size := 1024, pc_high_queue_size := 2048, pc_medium_queue_size := 4096,
     pc_low_queue_size := 8192, pc_queue_type := MUTEX_BASED\<rparr>"

definition createDefaultConfig :: pinning_config where
  "createDefaultConfig = CorePinningConfig
    \<lparr>pc_critical_core := 0, pc_high_core := 1, pc_medium_core := 2, pc_low_core := 3, pc_enable_core_pinning := False,
     pc_enable_real_time_priority := False, pc_critical_queue_size := 1024, pc_high_queue_size := 2048, pc_medium_queue_size := 4096,
     pc_low_queue_size := 8192, pc_queue_type := MUTEX_BASED\<rparr>"

definition createLowLatencyConfig :: pinning_config where
  "createLowLatencyConfig = createM1MaxConfig
    \<lparr>pc_critical_queue_size := 256, pc_high_queue_size := 512, pc_medium_queue_size := 1024, pc_low_queue_size := 2048,
     pc_enable_real_time_priority := True\<rparr>"

definition createHighThroughputConfig :: pinning_config where
  "createHighThroughputConfig = createM1MaxConfig
    \<lparr>pc_critical_queue_size := 2048, pc_high_queue_size := 4096, pc_medium_queue_size := 8192, pc_low_queue_size := 16384\<rparr>"

definition createLockFreeConfig :: pinning_config where
  "createLockFreeConfig = createDefaultConfig
    \<lparr>pc_queue_type := LOCK_FREE, pc_critical_queue_size := 512, pc_high_queue_size := 1024, pc_medium_queue_size := 2048,
     pc_low_queue_size := 4096\<rparr>"

definition createLockFreeM1MaxConfig :: pinning_config where
  "createLockFreeM1MaxConfig = createM1MaxConfig
    \<lparr>pc_queue_type := LOCK_FREE, pc_critical_queue_size := 256, pc_high_queue_size := 512, pc_medium_queue_size := 1024,
     pc_low_queue_size := 2048, pc_enable_core_pinning := True, pc_enable_real_time_priority := True\<rparr>"

text \<open>On Linux the number of cores is what the standard library reports.\<close>

definition detectPerformanceCores :: "nat \<Rightarrow> int" where
  "detectPerformanceCores hardware_concurrency = int hardware_concurrency"

definition getOptimalCoreAssignment :: "nat \<Rightarrow> int list" where
  "getOptimalCoreAssignment hardware_concurrency = [0 .. min 4 (detectPerformanceCores hardware_concurrency) - 1]"

definition isRealTimePrioritySupported :: "nat \<Rightarrow> bool" where
  "isRealTimePrioritySupported uid \<longleftrightarrow> uid = 0"

end
