(* ===== verification/Sender_Manager_Properties.thy ===== *)
theory Sender_Manager_Properties
  imports Sender_Manager
begin

text \<open>
  The senders and their manager as a whole: who owns a message at any time. Every message in a queue is live and is in no other
  queue; an operation hands each message on or destroys it, exactly once. The connection is never up, so that all that is
  ever done with a message is to destroy it.
\<close>

section \<open>A sender without a connection\<close>

lemma sendMessage_offline:
  assumes "\<not> tc_connected (as_tcp s)" "pool_inv (as_pool s)" "message \<in> dom (pool_heap (as_pool s))" "as_max_retries s \<noteq> - 1"
  shows "\<exists>r w e. sendMessage running answers message s
    = Some (s\<lparr>as_total_retried := r, as_waits := w, as_error_reports := e, as_total_failed := as_total_failed s + 1, as_pool := Message_destroy message (as_pool s)\<rparr>)"
proof -
  have nz: "message \<noteq> 0" using mp.null_not_live [OF assms(2)] assms(3) by auto
  obtain m where m: "pool_heap (as_pool s) message = Some m" using assms(3) by auto
  obtain r w e where "send_loop running answers message (msg_payload m) 0 s = Some (False, s\<lparr>as_total_retried := r, as_waits := w, as_error_reports := e\<rparr>)"
    using send_loop_offline [OF assms(1,4)] by blast
  with nz m show ?thesis by (cases s) (auto simp: sendMessage_def Let_def)
qed

fun queue_kind :: "sender_queue \<Rightarrow> queue_type" where
  "queue_kind (Mutex_Queue q) = MUTEX_BASED"
| "queue_kind (Lockfree_Queue q) = LOCK_FREE"

lemma queue_kind_get: "queue_get (sq, pool) = Some (ok, a, sq', pool') \<Longrightarrow> queue_kind sq' = queue_kind sq"
  by (cases sq) auto

lemma queue_kind_put: "queue_put now latency a (sq, pool) = Some (ok, sq', pool') \<Longrightarrow> queue_kind sq' = queue_kind sq"
  by (cases sq) auto

lemma tryPopMessage_get:
  "tryPopMessage s = map_option (\<lambda>(ok, a, q, pool). (ok, a, s\<lparr>as_queue := q, as_pool := pool\<rparr>)) (queue_get (as_queue s, as_pool s))"
  by (cases s; cases "as_queue s")
    (auto simp: tryPopMessage_def lockfree_get_def Let_def split_def option.map_comp comp_def)

lemma popMessage_get:
  "popMessage (\<lambda>st. (False, st)) s = map_option (\<lambda>(ok, a, q, pool). (ok, a, s\<lparr>as_queue := q, as_pool := pool\<rparr>)) (queue_get (as_queue s, as_pool s))"
  by (cases s; cases "as_queue s")
    (auto simp: popMessage_def lockfree_get_def pq_pop_def pq_tryPop_def take_top_def Let_def split_def option.map_comp comp_def)

text \<open>The state of a sender whose queue and pool have changed, up to its counters.\<close>

definition sender_like :: "sender \<Rightarrow> sender \<Rightarrow> bool" where
  "sender_like s s' \<longleftrightarrow> as_tcp s' = as_tcp s \<and> as_running s' = as_running s \<and> as_thread_joinable s' = as_thread_joinable s
     \<and> as_total_sent s' = as_total_sent s \<and> as_max_retries s' = as_max_retries s \<and> queue_kind (as_queue s') = queue_kind (as_queue s)"

lemma sender_like_trans: "sender_like s t \<Longrightarrow> sender_like t u \<Longrightarrow> sender_like s u"
  by (simp add: sender_like_def)

text \<open>Taking a message and sending it, without a connection.\<close>

lemma pop_and_send:
  assumes "queue_good (as_queue s) (as_pool s)" "\<not> tc_connected (as_tcp s)" "as_max_retries s \<noteq> - 1" "queue_held (as_queue s) \<noteq> []"
  shows "\<exists>a s1 s'. tryPopMessage s = Some (True, a, s1) \<and> sendMessage running answers a s1 = Some s' \<and> sender_like s s'
    \<and> as_total_failed s' = as_total_failed s + 1 \<and> queue_good (as_queue s') (as_pool s') \<and> set (queue_held (as_queue s)) = insert a (set (queue_held (as_queue s')))
    \<and> a \<notin> set (queue_held (as_queue s')) \<and> length (queue_held (as_queue s)) = Suc (length (queue_held (as_queue s')))
    \<and> pool_inv (as_pool s') \<and> pool_heap (as_pool s') = (pool_heap (as_pool s))(a := None)"
proof -
  obtain a q' where g: "queue_get (as_queue s, as_pool s) = Some (True, a, q', as_pool s)" "queue_good q' (Message_destroy a (as_pool s))"
    "a \<in> dom (pool_heap (as_pool s))" "set (queue_held (as_queue s)) = insert a (set (queue_held q'))" "a \<notin> set (queue_held q')"
    "length (queue_held (as_queue s)) = Suc (length (queue_held q'))" "pool_inv (Message_destroy a (as_pool s))"
    "pool_heap (Message_destroy a (as_pool s)) = (pool_heap (as_pool s))(a := None)"
    using sender_source.get_destroy [OF assms(1,4)] by blast
  let ?s1 = "s\<lparr>as_queue := q', as_pool := as_pool s\<rparr>"
  have inv: "pool_inv (as_pool s)" using sender_source.good_live [OF assms(1)] by (simp add: held_live_def)
  have "tryPopMessage s = Some (True, a, ?s1)" by (simp add: tryPopMessage_get g(1))
  moreover obtain r w e where "sendMessage running answers a ?s1
      = Some (?s1\<lparr>as_total_retried := r, as_waits := w, as_error_reports := e, as_total_failed := as_total_failed s + 1, as_pool := Message_destroy a (as_pool s)\<rparr>)"
    using sendMessage_offline [of ?s1 a running answers] assms(2,3) inv g(3) by auto
  ultimately show ?thesis using g queue_kind_get [OF g(1)] by (auto simp: sender_like_def)
qed

lemma drain_good:
  assumes "queue_good (as_queue s) (as_pool s)" "\<not> tc_connected (as_tcp s)" "as_max_retries s \<noteq> - 1"
  shows "\<exists>s'. sender_drain (replicate (length (queue_held (as_queue s))) ps) s = Some s' \<and> sender_like s s'
    \<and> queue_good (as_queue s') (as_pool s') \<and> queue_held (as_queue s') = [] \<and> as_total_failed s' = as_total_failed s + of_nat (length (queue_held (as_queue s)))
    \<and> pool_heap (as_pool s') = pool_heap (as_pool s) |` (- set (queue_held (as_queue s)))"
  using assms
proof (induction "length (queue_held (as_queue s))" arbitrary: s)
  case 0
  then show ?case by (simp add: sender_like_def)
next
  case (Suc n)
  then have ne: "queue_held (as_queue s) \<noteq> []" by auto
  obtain a s1 s2 where p: "tryPopMessage s = Some (True, a, s1)" "sendMessage (ps_running ps) (ps_answers ps) a s1 = Some s2" "sender_like s s2"
    "as_total_failed s2 = as_total_failed s + 1" "queue_good (as_queue s2) (as_pool s2)" "set (queue_held (as_queue s)) = insert a (set (queue_held (as_queue s2)))"
    "length (queue_held (as_queue s)) = Suc (length (queue_held (as_queue s2)))" "pool_heap (as_pool s2) = (pool_heap (as_pool s))(a := None)"
    using pop_and_send [OF Suc.prems ne] by blast
  have "n = length (queue_held (as_queue s2))" "\<not> tc_connected (as_tcp s2)" "as_max_retries s2 \<noteq> - 1"
    using Suc.hyps(2) Suc.prems(2,3) p(3,7) by (simp_all add: sender_like_def)
  from Suc.hyps(1) [OF this(1) p(5) this(2,3)] obtain s' where
    s': "sender_drain (replicate n ps) s2 = Some s'" "sender_like s2 s'" "queue_good (as_queue s') (as_pool s')" "queue_held (as_queue s') = []"
    "as_total_failed s' = as_total_failed s2 + of_nat n" "pool_heap (as_pool s') = pool_heap (as_pool s2) |` (- set (queue_held (as_queue s2)))"
    using \<open>n = length (queue_held (as_queue s2))\<close> by auto
  have "pool_heap (as_pool s') = pool_heap (as_pool s) |` (- set (queue_held (as_queue s)))"
    unfolding s'(6) p(6,8) by (auto simp: restrict_map_def fun_eq_iff)
  with p s' Suc.hyps(2) [symmetric] sender_like_trans [OF p(3) s'(2)] show ?case by (simp add: algebra_simps)
qed

section \<open>Ownership\<close>

definition held_by :: "sender_manager \<Rightarrow> priority \<Rightarrow> addr set" where
  "held_by m pr = (case the_queue pr m of None \<Rightarrow> {} | Some sq \<Rightarrow> set (queue_held sq))"

definition sizes_ok :: "pinning_config \<Rightarrow> bool" where
  "sizes_ok cfg \<longleftrightarrow> (\<forall>pr. 0 < size_of cfg pr \<and> unat (size_of cfg pr) \<le> 2 ^ 63)"

definition queues_owned :: "sender_manager \<Rightarrow> bool" where
  "queues_owned m \<longleftrightarrow> pool_inv (sm_pool m) \<and> (\<forall>pr sq. the_queue pr m = Some sq \<longrightarrow> queue_good sq (sm_pool m))
     \<and> (\<forall>pr pr'. pr \<noteq> pr' \<longrightarrow> held_by m pr \<inter> held_by m pr' = {})"

text \<open>A sender as the manager leaves it: nothing sent, the retries as constructed, and no thread to join unless it is running.\<close>

definition settled :: "sender \<Rightarrow> bool" where
  "settled s \<longleftrightarrow> as_total_sent s = 0 \<and> as_max_retries s = 3 \<and> (as_thread_joinable s \<longrightarrow> as_running s)"

definition manager_core :: "sender_manager \<Rightarrow> bool" where
  "manager_core m \<longleftrightarrow> queues_owned m \<and> sizes_ok (sm_config m) \<and> (\<forall>t. sm_tcp m = Some t \<longrightarrow> silent t)
     \<and> (\<forall>pr. sm_async_senders m pr = None \<longleftrightarrow> the_queue pr m = None)
     \<and> (\<forall>pr s. sm_async_senders m pr = Some s \<longrightarrow> settled s \<and> sm_tcp m \<noteq> None)"

text \<open>A queue with messages has a sender whose thread will take them.\<close>

definition attended :: "sender_manager \<Rightarrow> bool" where
  "attended m \<longleftrightarrow> (\<forall>pr s. sm_async_senders m pr = Some s \<longrightarrow> held_by m pr = {} \<or> as_running s \<and> as_thread_joinable s)"

definition has_running :: "sender_manager \<Rightarrow> priority \<Rightarrow> bool" where
  "has_running m pr \<longleftrightarrow> (\<exists>s. sm_async_senders m pr = Some s \<and> as_running s \<and> as_thread_joinable s)"

definition manager_inv :: "sender_manager \<Rightarrow> bool" where
  "manager_inv m \<longleftrightarrow> manager_core m \<and> (if sm_running m then \<forall>pr. has_running m pr else \<forall>pr. held_by m pr = {})"

lemma manager_inv_attended: "manager_inv m \<Longrightarrow> attended m"
  unfolding manager_inv_def attended_def has_running_def by (metis option.inject)

lemma has_running_frame [simp]:
  "has_running (m\<lparr>sm_pool := pool\<rparr>) = has_running m" "has_running (m\<lparr>sm_tcp := t\<rparr>) = has_running m" "has_running (m\<lparr>sm_running := r\<rparr>) = has_running m"
  "has_running (m\<lparr>sm_shutdown_requested := d\<rparr>) = has_running m" "has_running (put_queue pr sq m) = has_running m"
  "has_running (m\<lparr>sm_priority_to_core := c\<rparr>) = has_running m"
  "has_running (m\<lparr>sm_config := cfg\<rparr>) = has_running m"
  by (simp_all add: has_running_def fun_eq_iff put_queue_def split: sender_queue.split)

lemma the_queue_put [simp]:
  "queue_kind sq = pc_queue_type (sm_config m) \<Longrightarrow> the_queue pr' (put_queue pr sq m) = (if pr' = pr then Some sq else the_queue pr' m)"
  by (cases sq) (auto simp: the_queue_def put_queue_def)

lemma the_queue_kind: "the_queue pr m = Some sq \<Longrightarrow> queue_kind sq = pc_queue_type (sm_config m)"
  by (auto simp: the_queue_def split: queue_type.splits)

lemma put_queue_simps [simp]:
  "sm_config (put_queue pr sq m) = sm_config m" "sm_tcp (put_queue pr sq m) = sm_tcp m" "sm_async_senders (put_queue pr sq m) = sm_async_senders m"
  "sm_running (put_queue pr sq m) = sm_running m" "sm_pool (put_queue pr sq m) = sm_pool m"
  by (cases sq; simp add: put_queue_def)+

lemma store_sender_simps [simp]:
  "sm_config (store_sender pr s m) = sm_config m" "sm_tcp (store_sender pr s m) = Some (as_tcp s)" "sm_running (store_sender pr s m) = sm_running m"
  "sm_async_senders (store_sender pr s m) = (sm_async_senders m)(pr \<mapsto> s)" "sm_pool (store_sender pr s m) = as_pool s"
  by (simp_all add: store_sender_def)

lemma the_queue_cong:
  "sm_config m' = sm_config m \<Longrightarrow> sm_priority_queues m' = sm_priority_queues m \<Longrightarrow> sm_lockfree_queues m' = sm_lockfree_queues m \<Longrightarrow> the_queue pr m' = the_queue pr m"
  by (simp add: the_queue_def split: queue_type.split)

lemma the_queue_frame [simp]:
  "the_queue pr (m\<lparr>sm_pool := pool\<rparr>) = the_queue pr m" "the_queue pr (m\<lparr>sm_tcp := t\<rparr>) = the_queue pr m"
  "the_queue pr (m\<lparr>sm_async_senders := ss\<rparr>) = the_queue pr m" "the_queue pr (m\<lparr>sm_running := r\<rparr>) = the_queue pr m"
  "the_queue pr (m\<lparr>sm_shutdown_requested := d\<rparr>) = the_queue pr m" "the_queue pr (m\<lparr>sm_priority_to_core := c\<rparr>) = the_queue pr m"
  "the_queue pr (m\<lparr>sm_thread_core := e\<rparr>) = the_queue pr m" "the_queue pr (m\<lparr>sm_thread_real_time := f\<rparr>) = the_queue pr m"
  "the_queue pr (m\<lparr>sm_config := (sm_config m)\<lparr>pc_enable_real_time_priority := b\<rparr>\<rparr>) = the_queue pr m"
  by (simp_all add: the_queue_def split: queue_type.split)

lemma held_by_frame [simp]:
  "held_by (m\<lparr>sm_pool := pool\<rparr>) = held_by m" "held_by (m\<lparr>sm_tcp := t\<rparr>) = held_by m" "held_by (m\<lparr>sm_running := r\<rparr>) = held_by m"
  "held_by (m\<lparr>sm_shutdown_requested := d\<rparr>) = held_by m" "held_by (m\<lparr>sm_priority_to_core := c\<rparr>) = held_by m"
  "held_by (m\<lparr>sm_config := (sm_config m)\<lparr>pc_enable_real_time_priority := b\<rparr>\<rparr>) = held_by m"
  by (simp_all add: held_by_def fun_eq_iff)

text \<open>One queue and the pool change: the other queues are not affected as long as their messages are not.\<close>

lemma queues_owned_update:
  assumes "queues_owned m" "queue_kind sq = pc_queue_type (sm_config m)" "queue_good sq pool"
    and "\<And>pr' a. pr' \<noteq> pr \<Longrightarrow> a \<in> held_by m pr' \<Longrightarrow> a \<notin> set (queue_held sq) \<and> pool_heap pool a = pool_heap (sm_pool m) a"
    and m': "\<And>pr'. the_queue pr' m' = (if pr' = pr then Some sq else the_queue pr' m)" "sm_pool m' = pool"
  shows "queues_owned m'"
proof -
  have inv: "pool_inv pool" using sender_source.good_live [OF assms(3)] by (simp add: held_live_def)
  have "queue_good sq' pool" if "the_queue pr' m' = Some sq'" for pr' sq'
  proof (cases "pr' = pr")
    case False
    with that m'(1) have q: "the_queue pr' m = Some sq'" by simp
    then have "queue_good sq' (sm_pool m)" using assms(1) by (simp add: queues_owned_def)
    then show ?thesis using assms(4) [OF False] q by (intro sender_source.good_pool [OF _ inv]) (auto simp: held_by_def)
  qed (use that m'(1) assms(3) in simp)
  moreover have "held_by m' pr1 \<inter> held_by m' pr2 = {}" if ne: "pr1 \<noteq> pr2" for pr1 pr2
  proof -
    have h: "held_by m' pr' = (if pr' = pr then set (queue_held sq) else held_by m pr')" for pr' by (simp add: held_by_def m'(1))
    have "held_by m pr1 \<inter> held_by m pr2 = {}" using assms(1) ne by (simp add: queues_owned_def)
    then show ?thesis using assms(4) ne unfolding h by auto
  qed
  ultimately show ?thesis using inv m'(2) by (simp add: queues_owned_def)
qed

lemma load_senderE:
  assumes "load_sender pr m = Some s"
  obtains s0 sq t where "sm_async_senders m pr = Some s0" "the_queue pr m = Some sq" "sm_tcp m = Some t"
    "s = s0\<lparr>as_queue := sq, as_tcp := t, as_pool := sm_pool m\<rparr>"
  using assms by (auto simp: load_sender_def split: option.splits)

lemma load_sender_good:
  assumes "manager_core m" "load_sender pr m = Some s"
  shows "queue_good (as_queue s) (as_pool s)" "\<not> tc_connected (as_tcp s)" "silent (as_tcp s)" "settled s" "as_pool s = sm_pool m"
    "the_queue pr m = Some (as_queue s)" "held_by m pr = set (queue_held (as_queue s))" "sm_tcp m = Some (as_tcp s)"
proof -
  obtain s0 sq t where l: "sm_async_senders m pr = Some s0" "the_queue pr m = Some sq" "sm_tcp m = Some t"
    "s = s0\<lparr>as_queue := sq, as_tcp := t, as_pool := sm_pool m\<rparr>" by (rule load_senderE [OF assms(2)])
  show "queue_good (as_queue s) (as_pool s)" "silent (as_tcp s)" "settled s" "as_pool s = sm_pool m" "the_queue pr m = Some (as_queue s)"
    "held_by m pr = set (queue_held (as_queue s))" "sm_tcp m = Some (as_tcp s)"
    using assms(1) l by (auto simp: manager_core_def queues_owned_def held_by_def settled_def)
  then show "\<not> tc_connected (as_tcp s)" by (simp add: silent_def)
qed

text \<open>A sender that has worked on its queue is put back.\<close>

lemma store_sender_owned:
  assumes "manager_core m" "load_sender pr m = Some s" "sender_like (s\<lparr>as_running := r, as_thread_joinable := j\<rparr>) s'" "queue_good (as_queue s') (as_pool s')"
    and "set (queue_held (as_queue s')) \<subseteq> held_by m pr"
    and "\<And>a. a \<notin> held_by m pr \<Longrightarrow> pool_heap (as_pool s') a = pool_heap (sm_pool m) a"
  shows "queues_owned (store_sender pr s' m)" "held_by (store_sender pr s' m) = (held_by m)(pr := set (queue_held (as_queue s')))"
    "sm_tcp (store_sender pr s' m) = sm_tcp m"
proof -
  note l = load_sender_good [OF assms(1,2)]
  have k: "queue_kind (as_queue s') = pc_queue_type (sm_config m)" using assms(3) the_queue_kind [OF l(6)] by (simp add: sender_like_def)
  have q: "the_queue pr' (store_sender pr s' m) = (if pr' = pr then Some (as_queue s') else the_queue pr' m)" for pr'
    by (simp add: store_sender_def k)
  show "held_by (store_sender pr s' m) = (held_by m)(pr := set (queue_held (as_queue s')))" by (simp add: held_by_def q fun_eq_iff)
  show "sm_tcp (store_sender pr s' m) = sm_tcp m" using assms(3) l(8) by (simp add: store_sender_def sender_like_def)
  have o: "queues_owned m" using assms(1) by (simp add: manager_core_def)
  show "queues_owned (store_sender pr s' m)"
  proof (rule queues_owned_update [OF o k assms(4) _ q])
    fix pr' a assume "pr' \<noteq> pr" "a \<in> held_by m pr'"
    then have "a \<notin> held_by m pr" using o unfolding queues_owned_def by blast
    then show "a \<notin> set (queue_held (as_queue s')) \<and> pool_heap (as_pool s') a = pool_heap (sm_pool m) a" using assms(5,6) by auto
  qed (simp add: store_sender_def)
qed

section \<open>Ending senders\<close>

text \<open>The messages of one queue are gone; nothing else has changed.\<close>

definition emptied :: "priority set \<Rightarrow> sender_manager \<Rightarrow> sender_manager \<Rightarrow> bool" where
  "emptied prs m m' \<longleftrightarrow> manager_core m' \<and> attended m' \<and> held_by m' = (\<lambda>pr. if pr \<in> prs then {} else held_by m pr)
     \<and> pool_heap (sm_pool m') = pool_heap (sm_pool m) |` (- (\<Union>pr\<in>prs. held_by m pr))
     \<and> sm_config m' = sm_config m \<and> sm_tcp m' = sm_tcp m \<and> sm_running m' = sm_running m
     \<and> (\<forall>pr. sm_async_senders m' pr = None \<longleftrightarrow> sm_async_senders m pr = None)
     \<and> (\<forall>pr. pr \<notin> prs \<longrightarrow> sm_async_senders m' pr = sm_async_senders m pr)"

lemma emptied_refl: "manager_core m \<Longrightarrow> attended m \<Longrightarrow> (\<And>pr. pr \<in> prs \<Longrightarrow> held_by m pr = {}) \<Longrightarrow> emptied prs m m"
  by (auto simp: emptied_def fun_eq_iff restrict_map_def)

lemma emptied_trans:
  assumes "emptied A m m1" "emptied B m1 m2"
  shows "emptied (A \<union> B) m m2"
proof -
  have h: "held_by m1 = (\<lambda>pr. if pr \<in> A then {} else held_by m pr)" using assms(1) by (simp add: emptied_def)
  have u: "(\<Union>pr\<in>A. held_by m pr) \<union> (\<Union>pr\<in>B. held_by m1 pr) = (\<Union>pr\<in>A \<union> B. held_by m pr)" unfolding h by auto
  have "pool_heap (sm_pool m2) = pool_heap (sm_pool m) |` (- (\<Union>pr\<in>A. held_by m pr) \<inter> - (\<Union>pr\<in>B. held_by m1 pr))"
    using assms by (simp only: emptied_def restrict_restrict)
  then have "pool_heap (sm_pool m2) = pool_heap (sm_pool m) |` (- (\<Union>pr\<in>A \<union> B. held_by m pr))" unfolding u [symmetric] by simp
  moreover have "(\<lambda>pr. if pr \<in> B then {} else held_by m1 pr) = (\<lambda>pr. if pr \<in> A \<union> B then {} else held_by m pr)"
    unfolding h by (simp add: fun_eq_iff)
  moreover have "\<forall>pr. pr \<notin> A \<union> B \<longrightarrow> sm_async_senders m2 pr = sm_async_senders m pr" using assms by (simp add: emptied_def)
  ultimately show ?thesis using assms unfolding emptied_def by (simp only: simp_thms)
qed

lemma join_good:
  assumes "manager_core m" "load_sender pr m = Some s" "as_thread_joinable s \<or> held_by m pr = {}"
  shows "\<exists>s'. join_sender s = Some s' \<and> sender_like (s\<lparr>as_running := False\<rparr>) s' \<and> queue_good (as_queue s') (as_pool s')
    \<and> queue_held (as_queue s') = [] \<and> pool_heap (as_pool s') = pool_heap (sm_pool m) |` (- held_by m pr)"
proof -
  note l = load_sender_good [OF assms(1,2)]
  let ?s = "s\<lparr>as_running := False\<rparr>"
  show ?thesis
  proof (cases "as_thread_joinable s")
    case True
    with drain_good [of ?s stopped_pass] l show ?thesis by (auto simp: join_sender_def settled_def)
  next
    case False
    with assms(3) l have "queue_held (as_queue s) = []" by simp
    with False l show ?thesis by (auto simp: join_sender_def sender_like_def fun_eq_iff restrict_map_def)
  qed
qed

text \<open>A sender that has ended, with an empty queue, is put back.\<close>

lemma emptied_store:
  assumes "manager_core m" "attended m" "load_sender pr m = Some s" "sender_like (s\<lparr>as_running := r, as_thread_joinable := False\<rparr>) s'"
    "queue_good (as_queue s') (as_pool s')" "queue_held (as_queue s') = []" "pool_heap (as_pool s') = pool_heap (sm_pool m) |` (- held_by m pr)"
  shows "emptied {pr} m (store_sender pr s' m)"
proof -
  note l = load_sender_good [OF assms(1,3)]
  note st = store_sender_owned [OF assms(1,3,4,5), unfolded assms(6,7), simplified]
  have q: "the_queue pr' (store_sender pr s' m) = (if pr' = pr then Some (as_queue s') else the_queue pr' m)" for pr'
    using assms(4) the_queue_kind [OF l(6)] by (simp add: store_sender_def sender_like_def)
  note st(1)
  moreover have "settled s'" "as_tcp s' = as_tcp s" using assms(4) l(4) by (simp_all add: sender_like_def settled_def)
  moreover have "sm_async_senders m pr \<noteq> None" using assms(3) by (auto elim: load_senderE)
  ultimately have "manager_core (store_sender pr s' m)"
    using assms(1) l(3,8) by (auto simp: manager_core_def q split: if_splits)
  moreover have "attended (store_sender pr s' m)" using assms(2) by (auto simp: attended_def st(2))
  ultimately show ?thesis
    using st(2) assms(7) l(8) \<open>as_tcp s' = as_tcp s\<close> \<open>sm_async_senders m pr \<noteq> None\<close> by (auto simp: emptied_def)
qed

lemma attendedD: "attended m \<Longrightarrow> load_sender pr m = Some s \<Longrightarrow> held_by m pr = {} \<or> as_running s \<and> as_thread_joinable s"
  by (erule load_senderE) (simp add: attended_def)

lemma load_sender_None:
  assumes "manager_core m" "load_sender pr m = None"
  shows "sm_async_senders m pr = None" "held_by m pr = {}"
  using assms by (auto simp: load_sender_def manager_core_def held_by_def split: option.splits)

lemma stopAsyncSenders_empties:
  assumes "manager_core m" "attended m"
  shows "\<exists>m'. stopAsyncSenders prs m = Some m' \<and> emptied (set prs) m m'"
  using assms
proof (induction prs arbitrary: m)
  case Nil
  then show ?case by (auto intro: emptied_refl)
next
  case (Cons pr prs)
  have "\<exists>m1. stopAsyncSenders (pr # prs) m = stopAsyncSenders prs m1 \<and> emptied {pr} m m1"
  proof (cases "load_sender pr m")
    case None
    with load_sender_None [OF Cons.prems(1)] Cons.prems show ?thesis by (auto intro!: emptied_refl)
  next
    case (Some s)
    show ?thesis
    proof (cases "as_running s")
      case True
      have "as_thread_joinable s \<or> held_by m pr = {}" using attendedD [OF Cons.prems(2) Some] by auto
      from join_good [OF Cons.prems(1) Some this] obtain s' where s': "join_sender s = Some s'" "sender_like (s\<lparr>as_running := False\<rparr>) s'"
        "queue_good (as_queue s') (as_pool s')" "queue_held (as_queue s') = []" "pool_heap (as_pool s') = pool_heap (sm_pool m) |` (- held_by m pr)"
        by blast
      have "emptied {pr} m (store_sender pr (sender_stop s') m)"
        by (rule emptied_store [OF Cons.prems Some, of False]) (use s' in \<open>simp_all add: sender_stop_def sender_like_def\<close>)
      with Some True s'(1) show ?thesis by (auto simp: stop_sender_def)
    next
      case False
      with attendedD [OF Cons.prems(2) Some] Cons.prems Some show ?thesis by (auto intro!: emptied_refl)
    qed
  qed
  then obtain m1 where m1: "stopAsyncSenders (pr # prs) m = stopAsyncSenders prs m1" "emptied {pr} m m1" by blast
  then have "manager_core m1" "attended m1" by (simp_all add: emptied_def)
  from Cons.IH [OF this] m1 emptied_trans [OF m1(2)] show ?case by auto
qed

lemma drop_sender_empties:
  assumes "manager_core m" "attended m"
  shows "\<exists>m'. drop_sender pr m = Some m' \<and> emptied {pr} m m'"
proof -
  have "\<exists>m1. retire_sender pr m = Some m1 \<and> emptied {pr} m m1"
  proof (cases "load_sender pr m")
    case None
    with load_sender_None [OF assms(1)] assms show ?thesis by (auto simp: retire_sender_def intro!: emptied_refl)
  next
    case (Some s)
    show ?thesis
    proof (cases "as_running s")
      case True
      have "as_thread_joinable s \<or> held_by m pr = {}" using attendedD [OF assms(2) Some] by auto
      from join_good [OF assms(1) Some this] obtain s' where s': "join_sender s = Some s'" "sender_like (s\<lparr>as_running := False\<rparr>) s'"
        "queue_good (as_queue s') (as_pool s')" "queue_held (as_queue s') = []" "pool_heap (as_pool s') = pool_heap (sm_pool m) |` (- held_by m pr)"
        by blast
      have "emptied {pr} m (store_sender pr (s'\<lparr>as_shutdown_requested := True, as_thread_joinable := False\<rparr>) m)"
        by (rule emptied_store [OF assms Some, of False]) (use s' in \<open>simp_all add: sender_like_def\<close>)
      with Some True s'(1) show ?thesis by (auto simp: retire_sender_def)
    next
      case False
      then have "\<not> as_thread_joinable s" using load_sender_good(4) [OF assms(1) Some] by (simp add: settled_def)
      with False attendedD [OF assms(2) Some] assms Some show ?thesis by (auto simp: retire_sender_def intro!: emptied_refl)
    qed
  qed
  then obtain m1 where m1: "retire_sender pr m = Some m1" "emptied {pr} m m1" by blast
  have "release_queue (the_queue pr m1) (sm_pool m1) = Some (sm_pool m1)"
  proof (cases "the_queue pr m1")
    case (Some sq)
    have "held_by m1 pr = {}" using m1(2) by (simp add: emptied_def)
    with Some show ?thesis by (cases sq) (simp_all add: held_by_def pq_clear_def pq_shutdown_def destroy_tops.simps)
  qed simp
  with m1 show ?thesis by (simp add: drop_sender_def)
qed

lemma drop_senders_empties:
  assumes "manager_core m" "attended m"
  shows "\<exists>m'. drop_senders prs m = Some m' \<and> emptied (set prs) m m'"
  using assms
proof (induction prs arbitrary: m)
  case Nil
  then show ?case by (auto intro: emptied_refl)
next
  case (Cons pr prs)
  then obtain m1 where m1: "drop_sender pr m = Some m1" "emptied {pr} m m1" using drop_sender_empties by blast
  then have "manager_core m1" "attended m1" by (simp_all add: emptied_def)
  from Cons.IH [OF this] m1 emptied_trans [OF m1(2)] show ?case by auto
qed

section \<open>Creating and starting senders\<close>

text \<open>A manager whose queues are all empty.\<close>

definition quiet :: "sender_manager \<Rightarrow> bool" where
  "quiet m \<longleftrightarrow> manager_core m \<and> (\<forall>pr. held_by m pr = {})"

lemma quiet_attended: "quiet m \<Longrightarrow> attended m"
  by (simp add: quiet_def attended_def)

definition same_frame :: "sender_manager \<Rightarrow> sender_manager \<Rightarrow> bool" where
  "same_frame m m' \<longleftrightarrow> sm_config m' = sm_config m \<and> sm_tcp m' = sm_tcp m \<and> sm_running m' = sm_running m
     \<and> pool_heap (sm_pool m') = pool_heap (sm_pool m)"

definition has_fresh :: "sender_manager \<Rightarrow> priority \<Rightarrow> bool" where
  "has_fresh m pr \<longleftrightarrow> (\<exists>s. sm_async_senders m pr = Some s \<and> \<not> as_running s \<and> \<not> as_thread_joinable s)"

lemma newQueue_open [simp]: "\<not> isShutdown (newQueue d n name)"
  by (simp add: isShutdown_def newQueue_def)

lemma fresh_queue_good:
  assumes "sizes_ok cfg" "pool_inv pool"
  shows "queue_good (fresh_queue cfg pr) pool" "queue_held (fresh_queue cfg pr) = []" "queue_kind (fresh_queue cfg pr) = pc_queue_type cfg"
proof -
  have sz: "0 < size_of cfg pr" "unat (size_of cfg pr) \<le> 2 ^ 63" using assms(1) by (simp_all add: sizes_ok_def)
  show "queue_good (fresh_queue cfg pr) pool"
    using sz assms(2) queue_inv_newQueue [OF sz(2)]
    by (auto simp: fresh_queue_def mutex_good_def lockfree_good_def pq_inv_def heap_def held_live_def new_pqueue_def split: queue_type.split)
  show "queue_held (fresh_queue cfg pr) = []" "queue_kind (fresh_queue cfg pr) = pc_queue_type cfg"
    by (simp_all add: fresh_queue_def new_pqueue_def split: queue_type.split)
qed

lemma fresh_senderE:
  obtains s where "fresh_sender sq t pool = Some s" "as_queue s = sq" "as_tcp s = t" "as_pool s = pool" "settled s" "\<not> as_running s"
    "\<not> as_thread_joinable s"
  by (cases sq) (auto simp: fresh_sender_def new_sender_def settled_def)

lemma create_senders_ok:
  assumes "quiet m" "sm_tcp m \<noteq> None"
  shows "\<exists>m'. create_senders prs m = Some m' \<and> quiet m' \<and> same_frame m m' \<and> (\<forall>pr. pr \<in> set prs \<or> has_fresh m pr \<longrightarrow> has_fresh m' pr)"
  using assms
proof (induction prs arbitrary: m)
  case Nil
  then show ?case by (simp add: same_frame_def)
next
  case (Cons pr prs)
  have q: "manager_core m" "attended m" using Cons.prems(1) quiet_attended by (auto simp: quiet_def)
  obtain m1 where m1: "drop_sender pr m = Some m1" "emptied {pr} m m1" using drop_sender_empties [OF q] by blast
  have h1: "held_by m1 pr' = {}" for pr' using m1(2) Cons.prems(1) by (simp add: emptied_def quiet_def)
  have c1: "manager_core m1" "sm_tcp m1 = sm_tcp m" "sm_config m1 = sm_config m" using m1(2) by (simp_all add: emptied_def)
  have heap1: "pool_heap (sm_pool m1) = pool_heap (sm_pool m)"
    using m1(2) Cons.prems(1) by (simp add: emptied_def quiet_def restrict_map_def)
  have inv: "sizes_ok (sm_config m1)" "pool_inv (sm_pool m1)" "queues_owned m1" using c1(1) by (simp_all add: manager_core_def queues_owned_def)
  note fq = fresh_queue_good [OF inv(1,2), of pr]
  obtain s where s: "fresh_sender (fresh_queue (sm_config m1) pr) (the (sm_tcp m1)) (sm_pool m1) = Some s" "as_queue s = fresh_queue (sm_config m1) pr"
    "as_tcp s = the (sm_tcp m1)" "as_pool s = sm_pool m1" "settled s" "\<not> as_running s" "\<not> as_thread_joinable s" by (rule fresh_senderE)
  let ?m = "store_sender pr s m1"
  have tcp: "Some (as_tcp s) = sm_tcp m1" using s(3) c1(2) Cons.prems(2) by auto
  have tq: "the_queue pr' ?m = (if pr' = pr then Some (as_queue s) else the_queue pr' m1)" for pr'
    using fq(3) s(2) by (simp add: store_sender_def)
  have "queues_owned ?m"
    by (rule queues_owned_update [OF inv(3) _ _ _ tq]) (use fq s(2,4) h1 in auto)
  then have "quiet ?m"
    using c1(1) s(5) fq(2) s(2) h1 Cons.prems(2) by (auto simp: quiet_def manager_core_def tq held_by_def tcp c1(2) split: if_splits)
  moreover have "sm_tcp ?m \<noteq> None" by simp
  ultimately obtain m' where m': "create_senders prs ?m = Some m'" "quiet m'" "same_frame ?m m'"
    "\<forall>pr. pr \<in> set prs \<or> has_fresh ?m pr \<longrightarrow> has_fresh m' pr" using Cons.IH by blast
  have "has_fresh ?m pr'" if "pr' = pr \<or> has_fresh m pr'" for pr'
    using that s(6,7) m1(2) by (cases "pr' = pr") (auto simp: has_fresh_def emptied_def)
  moreover have "same_frame m m'" using m'(3) tcp c1 heap1 s(4) m1(2) by (simp add: same_frame_def emptied_def)
  ultimately show ?case using m1(1) s(1) m' by (auto simp: Let_def)
qed

lemma configure_thread_frame:
  "sm_config (configure_thread sx pr m) = sm_config m \<and> sm_tcp (configure_thread sx pr m) = sm_tcp m \<and> sm_running (configure_thread sx pr m) = sm_running m
   \<and> sm_pool (configure_thread sx pr m) = sm_pool m \<and> sm_async_senders (configure_thread sx pr m) = sm_async_senders m
   \<and> the_queue pr' (configure_thread sx pr m) = the_queue pr' m"
  by (simp add: configure_thread_def pinThreadToCore_def setThreadRealTimePriority_def Let_def)

lemma quiet_cong:
  assumes "quiet m" "\<And>pr. the_queue pr m' = the_queue pr m" "sm_pool m' = sm_pool m" "sm_config m' = sm_config m" "sm_tcp m' = sm_tcp m"
    "\<And>pr. sm_async_senders m' pr = None \<longleftrightarrow> sm_async_senders m pr = None" "\<And>pr s. sm_async_senders m' pr = Some s \<Longrightarrow> settled s"
  shows "quiet m'"
proof -
  have h: "held_by m' = held_by m" by (simp add: held_by_def assms(2) fun_eq_iff)
  have "\<And>pr s. sm_async_senders m' pr = Some s \<Longrightarrow> sm_tcp m \<noteq> None"
    using assms(1,6) unfolding quiet_def manager_core_def by (metis option.exhaust option.distinct(1))
  with assms h show ?thesis by (simp add: quiet_def manager_core_def queues_owned_def)
qed

lemma startAsyncSenders_ok:
  assumes "quiet m" "distinct prs" "\<And>pr. pr \<in> set prs \<Longrightarrow> has_fresh m pr"
  shows "\<exists>r m'. startAsyncSenders sx prs m = Some (r, m') \<and> quiet m' \<and> same_frame m m'
    \<and> (\<forall>pr. has_running m pr \<longrightarrow> has_running m' pr)
    \<and> (case r of Inr _ \<Rightarrow> (\<forall>pr\<in>set prs. has_running m' pr \<and> sx_spawn_error (sx pr) = None)
        | Inl e \<Rightarrow> (\<exists>ps pr qs. prs = ps @ pr # qs \<and> sx_spawn_error (sx pr) = Some e \<and> (\<forall>pr\<in>set ps. has_running m' pr)))"
  using assms
proof (induction prs arbitrary: m)
  case Nil
  then show ?case by (simp add: same_frame_def)
next
  case (Cons pr prs)
  obtain s where s: "sm_async_senders m pr = Some s" "\<not> as_running s" "\<not> as_thread_joinable s" using Cons.prems(3) by (auto simp: has_fresh_def)
  have total: "settled s'" if "sm_async_senders m pr' = Some s'" for pr' s' using Cons.prems(1) that by (simp add: quiet_def manager_core_def)
  show ?case
  proof (cases "sx_spawn_error (sx pr)")
    case (Some e)
    let ?s = "s\<lparr>as_running := True, as_shutdown_requested := False\<rparr>"
    let ?m = "m\<lparr>sm_async_senders := (sm_async_senders m)(pr \<mapsto> ?s)\<rparr>"
    have "startAsyncSenders sx (pr # prs) m = Some (Inl e, ?m)" using s Some by (simp add: start_sender_def Let_def)
    moreover have "quiet ?m" by (rule quiet_cong [OF Cons.prems(1)]) (use s total [OF s(1)] total in \<open>auto simp: settled_def split: if_splits\<close>)
    moreover have "has_running ?m pr'" if "has_running m pr'" for pr' using that s by (auto simp: has_running_def)
    moreover have "\<exists>ps pr1 qs. pr # prs = ps @ pr1 # qs \<and> sx_spawn_error (sx pr1) = Some e \<and> (\<forall>pr\<in>set ps. has_running ?m pr)"
      using Some by (intro exI [of _ "[]"] exI [of _ pr] exI [of _ prs]) simp
    ultimately show ?thesis by (intro exI [of _ "Inl e"] exI [of _ ?m]) (simp add: same_frame_def)
  next
    case None
    let ?s = "s\<lparr>as_running := True, as_shutdown_requested := False, as_thread_joinable := True\<rparr>"
    let ?m = "m\<lparr>sm_async_senders := (sm_async_senders m)(pr \<mapsto> ?s)\<rparr>"
    let ?n = "if pc_enable_core_pinning (sm_config ?m) \<and> as_thread_joinable ?s then configure_thread (sx pr) pr ?m else ?m"
    have st: "startAsyncSenders sx (pr # prs) m = startAsyncSenders sx prs ?n" using s None by (simp add: start_sender_def sender_start_def Let_def)
    have n: "sm_config ?n = sm_config m" "sm_tcp ?n = sm_tcp m" "sm_running ?n = sm_running m" "sm_pool ?n = sm_pool m"
      "sm_async_senders ?n = (sm_async_senders m)(pr \<mapsto> ?s)" "the_queue pr' ?n = the_queue pr' m" for pr'
      by (simp_all add: configure_thread_frame)
    have "quiet ?n" by (rule quiet_cong [OF Cons.prems(1) n(6,4,1,2)]) (use s total [OF s(1)] total n(5) in \<open>auto simp: settled_def split: if_splits\<close>)
    moreover have "has_fresh ?n pr'" if "pr' \<in> set prs" for pr' using Cons.prems(2,3) that unfolding has_fresh_def n(5) by auto
    ultimately obtain r m' where m': "startAsyncSenders sx prs ?n = Some (r, m')" "quiet m'" "same_frame ?n m'"
      "\<forall>pr. has_running ?n pr \<longrightarrow> has_running m' pr"
      "case r of Inr _ \<Rightarrow> (\<forall>pr\<in>set prs. has_running m' pr \<and> sx_spawn_error (sx pr) = None)
        | Inl e \<Rightarrow> (\<exists>ps pr qs. prs = ps @ pr # qs \<and> sx_spawn_error (sx pr) = Some e \<and> (\<forall>pr\<in>set ps. has_running m' pr))"
      using Cons.IH [of ?n] Cons.prems(2) by auto
    have "has_running ?n pr" unfolding has_running_def n(5) by simp
    moreover have "has_running ?n pr'" if "has_running m pr'" for pr' using that s unfolding has_running_def n(5) by auto
    moreover have "same_frame m m'" using m'(3) unfolding same_frame_def n by simp
    moreover have "\<exists>ps pr1 qs. pr # prs = ps @ pr1 # qs \<and> sx_spawn_error (sx pr1) = Some e \<and> (\<forall>pr\<in>set ps. has_running m' pr)" if r: "r = Inl e" for e
    proof -
      obtain ps pr1 qs where "prs = ps @ pr1 # qs" "sx_spawn_error (sx pr1) = Some e" "\<forall>pr\<in>set ps. has_running m' pr" using m'(5) r by auto
      moreover have "has_running m' pr" using m'(4) \<open>has_running ?n pr\<close> by blast
      ultimately show ?thesis by (intro exI [of _ "pr # ps"] exI [of _ pr1] exI [of _ qs]) simp
    qed
    ultimately show ?thesis using st m' None by (intro exI [of _ r] exI [of _ m']) (cases r, simp_all)
  qed
qed

section \<open>The operations keep the invariant\<close>

lemma manager_start_ok:
  assumes "manager_inv m" "distinct order" "set order = UNIV"
  shows "\<exists>r m'. manager_start sx order m = Some (r, m') \<and> manager_inv m' \<and> pool_heap (sm_pool m') = pool_heap (sm_pool m) \<and> held_by m' = held_by m
    \<and> (if sm_running m then r = Inr () \<and> m' = m
       else case r of Inr _ \<Rightarrow> sm_running m' \<and> (\<forall>pr. sx_spawn_error (sx pr) = None)
          | Inl e \<Rightarrow> \<not> sm_running m' \<and> (\<exists>ps pr qs. order = ps @ pr # qs \<and> sx_spawn_error (sx pr) = Some e \<and> (\<forall>pr\<in>set ps. has_running m' pr)))"
proof (cases "sm_running m")
  case True
  with assms(1) show ?thesis by (simp add: manager_start_def)
next
  case False
  let ?m = "createTcpConnection m"
  have q: "quiet ?m" using assms(1) False silent_new
    by (auto simp: quiet_def manager_inv_def manager_core_def queues_owned_def held_by_def createTcpConnection_def)
  obtain m1 where m1: "createQueuesAndSenders order ?m = Some m1" "quiet m1" "same_frame ?m m1" "\<And>pr. has_fresh m1 pr"
    using create_senders_ok [OF q, of order] assms(3) by (auto simp: createQueuesAndSenders_def createTcpConnection_def)
  obtain r m2 where m2: "startAsyncSenders sx order m1 = Some (r, m2)" "quiet m2" "same_frame m1 m2"
    "case r of Inr _ \<Rightarrow> (\<forall>pr\<in>set order. has_running m2 pr \<and> sx_spawn_error (sx pr) = None)
        | Inl e \<Rightarrow> (\<exists>ps pr qs. order = ps @ pr # qs \<and> sx_spawn_error (sx pr) = Some e \<and> (\<forall>pr\<in>set ps. has_running m2 pr))"
    using startAsyncSenders_ok [OF m1(2) assms(2), of sx] m1(4) by blast
  have nr: "\<not> sm_running m2" "pool_heap (sm_pool m2) = pool_heap (sm_pool m)" "held_by m2 = held_by m"
    using m1(3) m2(2,3) False assms(1) by (simp_all add: same_frame_def createTcpConnection_def quiet_def manager_inv_def fun_eq_iff)
  show ?thesis
  proof (cases r)
    case (Inl e)
    then have "manager_start sx order m = Some (Inl e, m2)" using False m1(1) m2(1) nr(1) by (simp add: manager_start_def manager_stop_def)
    moreover have "manager_inv m2" using m2(2) nr(1) by (simp add: manager_inv_def quiet_def)
    ultimately show ?thesis using nr m2(4) Inl False by simp
  next
    case (Inr u)
    let ?n = "m2\<lparr>sm_running := True\<rparr>"
    have "manager_start sx order m = Some (Inr (), ?n)" using False m1(1) m2(1) Inr by (simp add: manager_start_def)
    moreover have "quiet ?n" by (rule quiet_cong [OF m2(2)]) (use m2(2) in \<open>auto simp: quiet_def manager_core_def\<close>)
    then have "manager_inv ?n" using m2(4) Inr assms(3) by (auto simp: manager_inv_def quiet_def)
    ultimately show ?thesis using nr False m2(4) Inr assms(3) by simp
  qed
qed

lemma manager_stop_ok:
  assumes "manager_inv m" "set order = UNIV"
  shows "\<exists>m'. manager_stop order m = Some m' \<and> manager_inv m' \<and> \<not> sm_running m' \<and> (\<forall>pr. held_by m' pr = {})
    \<and> pool_heap (sm_pool m') = pool_heap (sm_pool m) |` (- (\<Union>pr. held_by m pr))"
proof (cases "sm_running m")
  case True
  let ?m = "m\<lparr>sm_running := False\<rparr>"
  have c: "manager_core ?m" "attended ?m" using assms(1) manager_inv_attended [OF assms(1)] by (auto simp: manager_inv_def manager_core_def queues_owned_def attended_def)
  obtain m1 where m1: "stopAsyncSenders order ?m = Some m1" "emptied UNIV ?m m1" using stopAsyncSenders_empties [OF c, of order] assms(2) by auto
  let ?n = "m1\<lparr>sm_tcp := map_option disconnect (sm_tcp m1)\<rparr>"
  have hn: "held_by ?n = held_by m1" by (simp add: held_by_def fun_eq_iff)
  have h1: "held_by m1 pr = {}" for pr using m1(2) by (simp add: emptied_def)
  have dis: "silent (disconnect t)" if "silent t" for t using tcp_step_silent [OF tcp_step.disconnect that] .
  have "manager_core ?n"
    using m1(2) dis unfolding emptied_def manager_core_def queues_owned_def hn by auto
  then have "manager_inv ?n" using h1 m1(2) by (simp add: manager_inv_def emptied_def)
  moreover have "manager_stop order m = Some ?n" using True m1(1) by (simp add: manager_stop_def)
  ultimately show ?thesis using m1(2) h1 by (intro exI [of _ ?n]) (simp add: emptied_def)
next
  case False
  with assms(1) show ?thesis by (simp add: manager_stop_def manager_inv_def restrict_map_def)
qed

lemma manager_shutdown_ok:
  assumes "manager_inv m" "set order = UNIV"
  shows "\<exists>m'. manager_shutdown order m = Some m' \<and> manager_inv m' \<and> \<not> sm_running m' \<and> sm_tcp m' = None \<and> sm_async_senders m' = Map.empty
    \<and> (\<forall>pr. the_queue pr m' = None) \<and> pool_heap (sm_pool m') = pool_heap (sm_pool m) |` (- (\<Union>pr. held_by m pr))"
proof -
  let ?m = "m\<lparr>sm_shutdown_requested := True\<rparr>"
  have i: "manager_inv ?m" using assms(1) by (auto simp: manager_inv_def manager_core_def queues_owned_def split: if_splits)
  obtain m1 where m1: "manager_stop order ?m = Some m1" "manager_inv m1" "\<not> sm_running m1" "\<And>pr. held_by m1 pr = {}"
    "pool_heap (sm_pool m1) = pool_heap (sm_pool m) |` (- (\<Union>pr. held_by m pr))" using manager_stop_ok [OF i assms(2)] by auto
  have c: "manager_core m1" "attended m1" using m1(2) manager_inv_attended by (auto simp: manager_inv_def)
  obtain m2 where m2: "drop_senders order m1 = Some m2" "emptied UNIV m1 m2" using drop_senders_empties [OF c, of order] assms(2) by auto
  let ?n = "m2\<lparr>sm_priority_queues := Map.empty, sm_lockfree_queues := Map.empty, sm_async_senders := Map.empty, sm_tcp := None,
    sm_shutdown_requested := False\<rparr>"
  have tq: "the_queue pr ?n = None" for pr by (simp add: the_queue_def split: queue_type.split)
  have hn: "held_by ?n pr = {}" for pr unfolding held_by_def tq by simp
  have "pool_inv (sm_pool m2)" "sizes_ok (sm_config m2)" using m2(2) by (auto simp: emptied_def manager_core_def queues_owned_def)
  moreover have nr: "\<not> sm_running ?n" using m2(2) m1(3) by (simp add: emptied_def)
  ultimately have "manager_inv ?n" unfolding manager_inv_def manager_core_def queues_owned_def tq hn by simp
  moreover have "manager_shutdown order m = Some ?n" using m1(1) m2(1) by (simp add: manager_shutdown_def)
  moreover have "pool_heap (sm_pool ?n) = pool_heap (sm_pool m) |` (- (\<Union>pr. held_by m pr))"
    using m2(2) m1(4,5) by (simp add: emptied_def restrict_map_def)
  ultimately show ?thesis using tq nr by (intro exI [of _ ?n]) (simp only: simp_thms, simp)
qed

text \<open>Handing a message over.\<close>

lemma manager_send_ok:
  assumes "manager_inv m" "message \<in> dom (pool_heap (sm_pool m))" "\<And>pr. message \<notin> held_by m pr"
  shows "\<exists>ok m'. manager_sendMessage now latency message pr m = Some (ok, m') \<and> manager_inv m'
    \<and> (if \<not> sm_running m then \<not> ok \<and> m' = m
       else (\<forall>pr'. pr' \<noteq> pr \<longrightarrow> held_by m' pr' = held_by m pr') \<and> (if ok then message \<in> held_by m' pr else held_by m' pr = held_by m pr)
         \<and> held_by m' pr \<subseteq> insert message (held_by m pr)
         \<and> dom (pool_heap (sm_pool m')) = dom (pool_heap (sm_pool m)) - (insert message (held_by m pr) - held_by m' pr))"
proof (cases "sm_running m")
  case True
  have c: "manager_core m" "\<And>pr. has_running m pr" "queues_owned m" using assms(1) True by (simp_all add: manager_inv_def manager_core_def)
  then have inv: "pool_inv (sm_pool m)" by (simp add: queues_owned_def)
  have nz: "message \<noteq> 0" using mp.null_not_live [OF inv] assms(2) by auto
  show ?thesis
  proof (cases "the_queue pr m")
    case None
    note d = destroy_laws [OF inv assms(2)]
    let ?m = "m\<lparr>sm_pool := Message_destroy message (sm_pool m)\<rparr>"
    have "queue_good sq (Message_destroy message (sm_pool m))" if "the_queue pr' m = Some sq" for pr' sq
    proof (rule sender_source.good_pool [OF _ d(1)])
      show "queue_good sq (sm_pool m)" using c(3) that by (simp add: queues_owned_def)
      show "pool_heap (Message_destroy message (sm_pool m)) a = pool_heap (sm_pool m) a" if "a \<in> set (queue_held sq)" for a
        using assms(3) [of pr'] that \<open>the_queue pr' m = Some sq\<close> d(2) by (auto simp: held_by_def)
    qed
    then have "manager_inv ?m" using assms(1) d(1) by (auto simp: manager_inv_def manager_core_def queues_owned_def split: if_splits)
    moreover have "held_by m pr = {}" using None by (simp add: held_by_def)
    ultimately show ?thesis using True nz None d(2)
      using assms(2) by (intro exI [of _ False] exI [of _ ?m]) (simp add: manager_sendMessage_def pushToQueue_def)
  next
    case (Some sq)
    have g: "queue_good sq (sm_pool m)" using c(3) Some by (simp add: queues_owned_def)
    have hs: "held_by m pr = set (queue_held sq)" using Some by (simp add: held_by_def)
    then have nm: "message \<notin> set (queue_held sq)" using assms(3) [of pr] by simp
    obtain ok sq' pool' where p: "queue_put now latency message (sq, sm_pool m) = Some (ok, sq', pool')" "queue_good sq' pool'"
      "\<forall>b. b \<noteq> message \<and> b \<notin> set (queue_held sq) \<longrightarrow> pool_heap pool' b = pool_heap (sm_pool m) b"
      "if ok then message \<in> set (queue_held sq') \<and> set (queue_held sq') \<subseteq> insert message (set (queue_held sq))
          \<and> length (queue_held sq') \<le> Suc (length (queue_held sq)) \<and> dom (pool_heap pool') = dom (pool_heap (sm_pool m)) - (set (queue_held sq) - set (queue_held sq'))
       else queue_held sq' = queue_held sq \<and> pool' = sm_pool m"
      using sender_source.put_some [OF g assms(2) nm, of now latency] by blast
    define pool2 where "pool2 = (if ok then pool' else Message_destroy message pool')"
    let ?m = "(put_queue pr sq' m)\<lparr>sm_pool := pool2\<rparr>"
    have inv': "pool_inv pool'" using sender_source.good_live [OF p(2)] by (simp add: held_live_def)
    have k: "queue_kind sq' = pc_queue_type (sm_config m)" using queue_kind_put [OF p(1)] the_queue_kind [OF Some] by simp
    have tq: "the_queue pr' ?m = (if pr' = pr then Some sq' else the_queue pr' m)" for pr' by (simp add: k)
    have hm: "held_by (put_queue pr sq' m) = (held_by m)(pr := set (queue_held sq'))" by (simp add: held_by_def k fun_eq_iff)
    have p2: "queue_good sq' pool2 \<and> (\<forall>b. b \<noteq> message \<and> b \<notin> set (queue_held sq) \<longrightarrow> pool_heap pool2 b = pool_heap (sm_pool m) b)
      \<and> set (queue_held sq') \<subseteq> insert message (set (queue_held sq)) \<and> (if ok then message \<in> set (queue_held sq') else set (queue_held sq') = set (queue_held sq))
      \<and> dom (pool_heap pool2) = dom (pool_heap (sm_pool m)) - (insert message (set (queue_held sq)) - set (queue_held sq'))"
    proof (cases ok)
      case True
      with p show ?thesis by (auto simp: pool2_def)
    next
      case False
      then have eq: "queue_held sq' = queue_held sq" "pool' = sm_pool m" using p(4) by simp_all
      note d = destroy_laws [OF inv assms(2)]
      have "queue_good sq' (Message_destroy message (sm_pool m))"
        using d nm eq by (intro sender_source.good_pool [OF p(2) d(1)]) auto
      with False eq d(2) nm assms(2) show ?thesis by (auto simp: pool2_def)
    qed
    have "queues_owned ?m"
    proof (rule queues_owned_update [OF c(3) k _ _ tq])
      fix pr' a assume a: "pr' \<noteq> pr" "a \<in> held_by m pr'"
      then have "a \<notin> held_by m pr" "a \<noteq> message" using c(3) assms(3) [of pr'] unfolding queues_owned_def by blast+
      with hs p2 show "a \<notin> set (queue_held sq') \<and> pool_heap pool2 a = pool_heap (sm_pool m) a" by auto
    qed (use p2 in simp_all)
    then have "manager_core ?m" using c(1) Some by (auto simp: manager_core_def k)
    then have "manager_inv ?m" using True c(2) by (auto simp: manager_inv_def)
    moreover have "manager_sendMessage now latency message pr m = Some (ok, ?m)"
      using True nz Some p(1,4) assms(2) by (cases ok) (auto simp: manager_sendMessage_def pushToQueue_def pool2_def)
    ultimately show ?thesis using True p2 by (intro exI [of _ ok] exI [of _ ?m]) (simp add: hm hs)
  qed
next
  case False
  with assms(1) show ?thesis by (intro exI [of _ False] exI [of _ m]) (simp add: manager_sendMessage_def)
qed

text \<open>A running sender that has worked on its queue is put back.\<close>

lemma store_running:
  assumes "manager_inv m" "load_sender pr m = Some s" "sender_like s s'" "as_running s" "as_thread_joinable s" "queue_good (as_queue s') (as_pool s')"
    "set (queue_held (as_queue s')) \<subseteq> held_by m pr" "\<And>a. a \<notin> held_by m pr \<Longrightarrow> pool_heap (as_pool s') a = pool_heap (sm_pool m) a"
  shows "manager_inv (store_sender pr s' m)" "held_by (store_sender pr s' m) = (held_by m)(pr := set (queue_held (as_queue s')))"
proof -
  have c: "manager_core m" using assms(1) by (simp add: manager_inv_def)
  note l = load_sender_good [OF c assms(2)]
  let ?m = "store_sender pr s' m"
  have like: "sender_like (s\<lparr>as_running := as_running s, as_thread_joinable := as_thread_joinable s\<rparr>) s'" using assms(3) by (simp add: sender_like_def)
  note st = store_sender_owned [OF c assms(2) like assms(6,7,8)]
  show h: "held_by ?m = (held_by m)(pr := set (queue_held (as_queue s')))" by (rule st(2))
  have tq: "the_queue pr' ?m = (if pr' = pr then Some (as_queue s') else the_queue pr' m)" for pr'
    using assms(3) the_queue_kind [OF l(6)] by (simp add: store_sender_def sender_like_def)
  have s': "as_tcp s' = as_tcp s" "settled s'" "as_running s'" "as_thread_joinable s'" using assms(3,4,5) l(4) by (simp_all add: sender_like_def settled_def)
  have "sm_async_senders m pr \<noteq> None" using assms(2) by (auto elim: load_senderE)
  with c st(1) l(3,8) s'(1,2) have "manager_core ?m" by (simp add: manager_core_def tq)
  moreover have "has_running ?m pr'" if "sm_running m" for pr'
    using assms(1) that s'(3,4) by (cases "pr' = pr") (auto simp: manager_inv_def has_running_def)
  moreover have "held_by ?m pr' = {}" if "\<not> sm_running m" for pr' using assms(1,7) that by (simp add: manager_inv_def h)
  ultimately show "manager_inv ?m" by (auto simp: manager_inv_def)
qed

text \<open>One pass of a sender's thread, whose wait for a message times out when there is none.\<close>

lemma pass_nonempty:
  assumes "queue_good (as_queue s) (as_pool s)" "\<not> tc_connected (as_tcp s)" "as_max_retries s \<noteq> - 1" "queue_held (as_queue s) \<noteq> []" "ps_wait ps = (\<lambda>st. (False, st))"
  shows "\<exists>a s'. sender_pass ps s = Some s' \<and> sender_like s s' \<and> queue_good (as_queue s') (as_pool s')
    \<and> set (queue_held (as_queue s)) = insert a (set (queue_held (as_queue s'))) \<and> a \<notin> set (queue_held (as_queue s'))
    \<and> pool_heap (as_pool s') = (pool_heap (as_pool s))(a := None)"
proof -
  obtain a s1 s' where p: "tryPopMessage s = Some (True, a, s1)" "sendMessage (ps_running ps) (ps_answers ps) a s1 = Some s'" "sender_like s s'"
    "queue_good (as_queue s') (as_pool s')" "set (queue_held (as_queue s)) = insert a (set (queue_held (as_queue s')))"
    "a \<notin> set (queue_held (as_queue s'))" "pool_heap (as_pool s') = (pool_heap (as_pool s))(a := None)"
    using pop_and_send [OF assms(1-4)] by blast
  have "popMessage (ps_wait ps) s = tryPopMessage s" by (simp only: assms(5) popMessage_get tryPopMessage_get)
  then have "sender_pass ps s = Some s'" using p(1,2) by (simp add: sender_pass_def split: sender_queue.split)
  with p(3-7) show ?thesis by blast
qed

lemma pass_empty:
  assumes "queue_good (as_queue s) (as_pool s)" "queue_held (as_queue s) = []" "ps_wait ps = (\<lambda>st. (False, st))"
  shows "sender_pass ps s = Some s"
proof -
  obtain a where "queue_get (as_queue s, as_pool s) = Some (False, a, as_queue s, as_pool s)" using sender_source.get_empty [OF assms(1,2)] by blast
  then have t: "tryPopMessage s = Some (False, a, s)" by (simp add: tryPopMessage_get)
  have "popMessage (ps_wait ps) s = tryPopMessage s" by (simp only: assms(3) popMessage_get tryPopMessage_get)
  with t show ?thesis by (simp add: sender_pass_def split: sender_queue.split)
qed

lemma manager_pass_ok:
  assumes "manager_inv m" "ps_wait ps = (\<lambda>st. (False, st))"
  shows "\<exists>m'. manager_pass ps pr m = Some m' \<and> manager_inv m' \<and> sm_running m' = sm_running m \<and> (\<forall>pr'. pr' \<noteq> pr \<longrightarrow> held_by m' pr' = held_by m pr')
    \<and> held_by m' pr \<subseteq> held_by m pr \<and> (sm_running m \<and> held_by m pr \<noteq> {} \<longrightarrow> card (held_by m pr) = Suc (card (held_by m' pr)))
    \<and> dom (pool_heap (sm_pool m')) = dom (pool_heap (sm_pool m)) - (held_by m pr - held_by m' pr)"
proof (cases "load_sender pr m")
  case None
  have "manager_core m" using assms(1) by (simp add: manager_inv_def)
  from load_sender_None [OF this None] None assms(1) show ?thesis by (simp add: manager_pass_def)
next
  case (Some s)
  have c: "manager_core m" using assms(1) by (simp add: manager_inv_def)
  note l = load_sender_good [OF c Some]
  show ?thesis
  proof (cases "as_running s \<and> as_thread_joinable s")
    case run: True
    show ?thesis
    proof (cases "queue_held (as_queue s) = []")
      case True
      let ?m = "store_sender pr s m"
      have "manager_inv ?m" "held_by ?m = (held_by m)(pr := set (queue_held (as_queue s)))"
        using store_running [OF assms(1) Some _ _ _ l(1)] run l(5,7) by (simp_all add: sender_like_def)
      moreover have "manager_pass ps pr m = Some ?m" using Some run pass_empty [OF l(1) True assms(2)] by (simp add: manager_pass_def)
      ultimately show ?thesis using l(5,7) True by (intro exI [of _ ?m]) simp
    next
      case False
      have mx: "as_max_retries s \<noteq> - 1" using l(4) by (simp add: settled_def)
      obtain a s' where p: "sender_pass ps s = Some s'" "sender_like s s'" "queue_good (as_queue s') (as_pool s')"
        "held_by m pr = insert a (set (queue_held (as_queue s')))" "a \<notin> set (queue_held (as_queue s'))"
        "pool_heap (as_pool s') = (pool_heap (sm_pool m))(a := None)" using pass_nonempty [OF l(1,2) mx False assms(2)] unfolding l(5,7) by blast
      let ?m = "store_sender pr s' m"
      have i: "manager_inv ?m" "held_by ?m = (held_by m)(pr := set (queue_held (as_queue s')))"
        using store_running [OF assms(1) Some p(2) _ _ p(3)] run p(4,6) by (auto simp: subset_insertI)
      have "manager_pass ps pr m = Some ?m" using Some run p(1) by (simp add: manager_pass_def)
      moreover have "dom (pool_heap (sm_pool ?m)) = dom (pool_heap (sm_pool m)) - (held_by m pr - held_by ?m pr)"
        using p(4,5) by (auto simp: i(2) p(6))
      moreover have "card (held_by m pr) = Suc (card (held_by ?m pr))" using p(4,5) by (simp add: i(2))
      ultimately show ?thesis using p(4) i by (intro exI [of _ ?m]) auto
    qed
  next
    case False
    have "\<not> sm_running m"
    proof
      assume "sm_running m"
      then have "has_running m pr" using assms(1) by (simp add: manager_inv_def)
      with Some False show False by (auto simp: has_running_def elim!: load_senderE)
    qed
    moreover have "manager_pass ps pr m = Some m" unfolding manager_pass_def Some using False by auto
    ultimately show ?thesis using assms(1) by (intro exI [of _ m]) simp
  qed
qed

section \<open>Runs of the system\<close>

text \<open>The clients of the manager, its threads and the clients of the pool. A message is handed over by its owner, so that it is in no queue.\<close>

inductive manager_step :: "sender_manager \<Rightarrow> sender_manager \<Rightarrow> bool" where
  start: "distinct order \<Longrightarrow> set order = UNIV \<Longrightarrow> manager_start sx order m = Some (r, m') \<Longrightarrow> manager_step m m'"
| stop: "set order = UNIV \<Longrightarrow> manager_stop order m = Some m' \<Longrightarrow> manager_step m m'"
| shutdown: "set order = UNIV \<Longrightarrow> manager_shutdown order m = Some m' \<Longrightarrow> manager_step m m'"
| send: "message \<in> dom (pool_heap (sm_pool m)) \<Longrightarrow> (\<forall>pr. message \<notin> held_by m pr) \<Longrightarrow>
    manager_sendMessage now latency message pr m = Some (ok, m') \<Longrightarrow> manager_step m m'"
| pass: "ps_wait ps = (\<lambda>st. (False, st)) \<Longrightarrow> manager_pass ps pr m = Some m' \<Longrightarrow> manager_step m m'"
| connect: "manager_step m (snd (connectToServer sa host port m))"
| disconnect: "manager_step m (disconnectFromServer m)"
| affinity: "manager_step m (setCoreAffinity pr core m)"
| real_time: "manager_step m (setRealTimePriority pr enable m)"
| create: "manager_step m (m\<lparr>sm_pool := snd (Message_create x (sm_pool m))\<rparr>)"

lemma manager_inv_tcp:
  assumes "manager_inv m" "\<forall>t'. t = Some t' \<longrightarrow> silent t'" "sm_tcp m \<noteq> None \<longrightarrow> t \<noteq> None"
  shows "manager_inv (m\<lparr>sm_tcp := t\<rparr>)"
  using assms by (auto simp: manager_inv_def manager_core_def queues_owned_def)

lemma manager_inv_create:
  assumes "manager_inv m"
  shows "manager_inv (m\<lparr>sm_pool := snd (Message_create x (sm_pool m))\<rparr>)"
proof -
  have inv: "pool_inv (sm_pool m)" using assms by (simp add: manager_inv_def manager_core_def queues_owned_def)
  note a = allocate_laws [OF inv, of x]
  have "queue_good sq (snd (allocate x (sm_pool m)))" if "the_queue pr m = Some sq" for pr sq
  proof (rule sender_source.good_pool [OF _ a(1)])
    show g: "queue_good sq (sm_pool m)" using assms that by (simp add: manager_inv_def manager_core_def queues_owned_def)
    show "pool_heap (snd (allocate x (sm_pool m))) b = pool_heap (sm_pool m) b" if "b \<in> set (queue_held sq)" for b
      using a(5,6) sender_source.good_live [OF g] that by (auto simp: held_live_def)
  qed
  with assms a(1) show ?thesis by (auto simp: Message_create_def allocate_args_eq manager_inv_def manager_core_def queues_owned_def)
qed

lemma manager_step_inv: "manager_step m m' \<Longrightarrow> manager_inv m \<Longrightarrow> manager_inv m'"
proof (induction rule: manager_step.induct)
  case (start order sx m r m')
  then show ?case using manager_start_ok [of m order sx] by auto
next
  case (stop order m m')
  then show ?case using manager_stop_ok [of m order] by auto
next
  case (shutdown order m m')
  then show ?case using manager_shutdown_ok [of m order] by auto
next
  case (send message m now latency pr ok m')
  then show ?case using manager_send_ok [of m message now latency pr] by auto
next
  case (pass ps pr m m')
  then show ?case using manager_pass_ok [of m ps pr] by auto
next
  case (connect m sa host port)
  have "silent (snd (tcp_connect sa host port t))" if "silent t" for t using tcp_step_silent [OF tcp_step.connect that] .
  moreover have "\<forall>t. sm_tcp m = Some t \<longrightarrow> silent t" using connect by (simp add: manager_inv_def manager_core_def)
  moreover obtain t where "snd (connectToServer sa host port m) = m\<lparr>sm_tcp := Some (snd (tcp_connect sa host port t))\<rparr>" "t = new_tcp \<or> sm_tcp m = Some t"
    by (cases "sm_tcp m") (auto simp: connectToServer_def createTcpConnection_def Let_def split_def)
  ultimately show ?case using connect silent_new by (auto intro!: manager_inv_tcp)
next
  case (disconnect m)
  have "silent (Tcp_Connection.disconnect t)" if "silent t" for t using tcp_step_silent [OF tcp_step.disconnect that] .
  moreover have "\<forall>t. sm_tcp m = Some t \<longrightarrow> silent t" using disconnect by (simp add: manager_inv_def manager_core_def)
  ultimately show ?case using disconnect by (auto simp: disconnectFromServer_def intro!: manager_inv_tcp)
next
  case (affinity m pr core)
  then show ?case by (auto simp: setCoreAffinity_def manager_inv_def manager_core_def queues_owned_def split: if_splits)
next
  case (real_time m pr enable)
  have "size_of (sm_config m\<lparr>pc_enable_real_time_priority := enable\<rparr>) pr = size_of (sm_config m) pr" for pr by (cases pr) simp_all
  with real_time show ?case by (auto simp: setRealTimePriority_def manager_inv_def manager_core_def queues_owned_def sizes_ok_def split: if_splits)
next
  case (create m x)
  then show ?case by (rule manager_inv_create)
qed

lemma new_manager_inv: "pool_inv pool \<Longrightarrow> sizes_ok cfg \<Longrightarrow> manager_inv (new_sender_manager cfg pool)"
  by (simp add: manager_inv_def manager_core_def queues_owned_def held_by_def the_queue_def new_sender_manager_def split: queue_type.split)

lemma manager_run_inv:
  assumes "manager_step\<^sup>*\<^sup>* (new_sender_manager cfg pool) m" "pool_inv pool" "sizes_ok cfg"
  shows "manager_inv m"
  using assms(1) by (induction rule: rtranclp_induct) (use new_manager_inv [OF assms(2,3)] manager_step_inv in auto)

text \<open>C17: Ownership of messages in the sending half. In every reachable state of a manager whose queue sizes are not zero, each queued message is live and is
  queued once, in one queue only, for both kinds of queue; a manager that is not running holds no message; no sender has ever sent one. No operation is
  stuck: starting, stopping, shutting down, a pass of a sender's thread and handing over a message all return, without following a dead pointer.\<close>

theorem manager_reachable:
  assumes "manager_step\<^sup>*\<^sup>* (new_sender_manager cfg pool) m" "pool_inv pool" "sizes_ok cfg"
    and "distinct order" "set order = UNIV" "ps_wait ps = (\<lambda>st. (False, st))"
  shows "(\<forall>pr sq. the_queue pr m = Some sq \<longrightarrow> distinct (queue_held sq) \<and> set (queue_held sq) \<subseteq> dom (pool_heap (sm_pool m)))
    \<and> (\<forall>pr pr'. pr \<noteq> pr' \<longrightarrow> held_by m pr \<inter> held_by m pr' = {})
    \<and> (\<forall>pr. \<not> sm_running m \<longrightarrow> held_by m pr = {}) \<and> (\<forall>pr s. sm_async_senders m pr = Some s \<longrightarrow> as_total_sent s = 0)
    \<and> manager_start sx order m \<noteq> None \<and> manager_stop order m \<noteq> None \<and> manager_shutdown order m \<noteq> None \<and> manager_pass ps pr m \<noteq> None
    \<and> (\<forall>message. message \<in> dom (pool_heap (sm_pool m)) \<and> (\<forall>pr. message \<notin> held_by m pr) \<longrightarrow> manager_sendMessage now latency message pr m \<noteq> None)"
proof -
  have i: "manager_inv m" by (rule manager_run_inv [OF assms(1-3)])
  have "distinct (queue_held sq) \<and> set (queue_held sq) \<subseteq> dom (pool_heap (sm_pool m))" if "the_queue pr m = Some sq" for pr sq
    using i that sender_source.good_live [of sq "sm_pool m"] by (simp add: manager_inv_def manager_core_def queues_owned_def held_live_def)
  moreover have "held_by m pr \<inter> held_by m pr' = {}" if "pr \<noteq> pr'" for pr pr' using i that by (simp add: manager_inv_def manager_core_def queues_owned_def)
  moreover have "manager_sendMessage now latency message pr m \<noteq> None"
    if "message \<in> dom (pool_heap (sm_pool m))" "\<forall>pr. message \<notin> held_by m pr" for message
    using manager_send_ok [OF i that(1), of now latency pr] that(2) by auto
  moreover have "manager_start sx order m \<noteq> None" using manager_start_ok [OF i assms(4,5), of sx] by auto
  moreover have "manager_stop order m \<noteq> None" "manager_shutdown order m \<noteq> None"
    using manager_stop_ok [OF i assms(5)] manager_shutdown_ok [OF i assms(5)] by auto
  moreover have "manager_pass ps pr m \<noteq> None" using manager_pass_ok [OF i assms(6), of pr] by auto
  ultimately show ?thesis using i by (simp add: manager_inv_def manager_core_def settled_def del: not_None_eq)
qed

text \<open>With a mutex based queue of size 0 the queue destroys the message that it refuses, and the manager destroys it again.\<close>

lemma send_destroys_twice:
  assumes "sm_running m" "the_queue pr m = Some (Mutex_Queue q)" "pq_inv (q, sm_pool m)" "message \<in> dom (pool_heap (sm_pool m))"
    and "\<not> pq_is_shutdown q" "pq_policy q = DROP_OLDEST" "pq_max_size q = 0" "pq_queue q = []"
  shows "manager_sendMessage now latency message pr m = None"
proof -
  have nz: "message \<noteq> 0" using mp.null_not_live [of "sm_pool m"] assms(3,4) by (auto simp: pq_inv_def)
  obtain q' pool' where p: "pq_push (\<lambda>st. (False, st)) now latency message (q, sm_pool m) = Some (False, q', pool')"
    "dom (pool_heap pool') = dom (pool_heap (sm_pool m)) - {message}"
    using pq_push_effect [OF assms(3,4), of "\<lambda>st. (False, st)" now latency] assms(5-8)
    by (auto simp: push_outcome_def push_refused_def)
  then have "message \<notin> dom (pool_heap pool')" by simp
  with p(1) nz assms(1,2) show ?thesis by (simp add: manager_sendMessage_def pushToQueue_def)
qed

text \<open>C22: Handing over a message to a running manager. The message is then in the queue of the given priority, or it has been destroyed and \<open>false\<close> is
  returned; the other queues are as before. No message is lost: those that are live afterwards are the ones that were live before, without exactly the
  ones of this queue, and the new one, that are not in it any more.\<close>

theorem manager_send_spec:
  assumes "manager_step\<^sup>*\<^sup>* (new_sender_manager cfg pool) m" "pool_inv pool" "sizes_ok cfg" "sm_running m"
    and "message \<in> dom (pool_heap (sm_pool m))" "\<forall>pr. message \<notin> held_by m pr"
  shows "\<exists>ok m'. manager_sendMessage now latency message pr m = Some (ok, m') \<and> (\<forall>pr'. pr' \<noteq> pr \<longrightarrow> held_by m' pr' = held_by m pr')
    \<and> (if ok then message \<in> held_by m' pr else held_by m' pr = held_by m pr) \<and> held_by m' pr \<subseteq> insert message (held_by m pr)
    \<and> dom (pool_heap (sm_pool m')) = dom (pool_heap (sm_pool m)) - (insert message (held_by m pr) - held_by m' pr)"
proof -
  have "manager_inv m" by (rule manager_run_inv [OF assms(1-3)])
  from manager_send_ok [OF this assms(5) assms(6) [rule_format], of now latency pr] obtain ok m' where "manager_sendMessage now latency message pr m = Some (ok, m')"
    "if \<not> sm_running m then \<not> ok \<and> m' = m
     else (\<forall>pr'. pr' \<noteq> pr \<longrightarrow> held_by m' pr' = held_by m pr') \<and> (if ok then message \<in> held_by m' pr else held_by m' pr = held_by m pr)
       \<and> held_by m' pr \<subseteq> insert message (held_by m pr)
       \<and> dom (pool_heap (sm_pool m')) = dom (pool_heap (sm_pool m)) - (insert message (held_by m pr) - held_by m' pr)" by (elim exE conjE)
  with assms(4) show ?thesis by (intro exI [of _ ok] exI [of _ m']) simp
qed

text \<open>C23: Shutting down returns with all queues, senders and the connection gone. Every message that was queued has been destroyed, and no other one has.\<close>

theorem manager_shutdown_releases:
  assumes "manager_step\<^sup>*\<^sup>* (new_sender_manager cfg pool) m" "pool_inv pool" "sizes_ok cfg" "set order = UNIV"
  shows "\<exists>m'. manager_shutdown order m = Some m' \<and> \<not> sm_running m' \<and> sm_tcp m' = None \<and> sm_async_senders m' = Map.empty \<and> (\<forall>pr. the_queue pr m' = None)
    \<and> dom (pool_heap (sm_pool m')) = dom (pool_heap (sm_pool m)) - (\<Union>pr. held_by m pr)"
proof -
  have "manager_inv m" by (rule manager_run_inv [OF assms(1-3)])
  from manager_shutdown_ok [OF this assms(4)] obtain m' where m': "manager_shutdown order m = Some m'" "\<not> sm_running m'" "sm_tcp m' = None"
    "sm_async_senders m' = Map.empty" "\<forall>pr. the_queue pr m' = None" "pool_heap (sm_pool m') = pool_heap (sm_pool m) |` (- (\<Union>pr. held_by m pr))" by blast
  have "dom (pool_heap (sm_pool m')) = dom (pool_heap (sm_pool m)) - (\<Union>pr. held_by m pr)" unfolding m'(6) by (auto simp: dom_restrict)
  with m' show ?thesis by blast
qed

text \<open>When a thread cannot be created, \<open>start\<close> passes the error on and the manager is not running, but the senders that had been started before the
  failing one are left running with their threads: the call of \<open>stop\<close> on this path has no effect, because \<open>running_\<close> is still false.\<close>

lemma start_failure_leaves_threads:
  assumes "manager_step\<^sup>*\<^sup>* (new_sender_manager cfg pool) m" "pool_inv pool" "sizes_ok cfg" "distinct order" "set order = UNIV" "\<not> sm_running m"
    and "manager_start sx order m = Some (Inl e, m')"
  shows "\<not> sm_running m' \<and> manager_stop order m' = Some m'
    \<and> (\<exists>ps pr qs. order = ps @ pr # qs \<and> sx_spawn_error (sx pr) = Some e
         \<and> (\<forall>pr\<in>set ps. \<exists>s. sm_async_senders m' pr = Some s \<and> as_running s \<and> as_thread_joinable s))"
proof -
  have "manager_inv m" by (rule manager_run_inv [OF assms(1-3)])
  from manager_start_ok [OF this assms(4,5), of sx] assms(6,7) show ?thesis by (auto simp: has_running_def manager_stop_def)
qed

section \<open>Examples\<close>

lemma priority_UNIV: "(UNIV :: priority set) = {CRITICAL, HIGH, MEDIUM, LOW}"
  using priority.exhaust by auto

abbreviation demo_order :: "priority list" where
  "demo_order \<equiv> [CRITICAL, HIGH, MEDIUM, LOW]"

abbreviation demo_answers :: "priority \<Rightarrow> start_answers" where
  "demo_answers \<equiv> \<lambda>pr. \<lparr> sx_spawn_error = None, sx_affinity = (\<lambda>core. True), sx_real_time = False \<rparr>"

lemma demo_order: "distinct demo_order" "set demo_order = UNIV"
  by (auto simp: priority_UNIV)

lemma demo_sizes: "sizes_ok createLockFreeConfig"
  unfolding sizes_ok_def
proof
  fix pr
  show "0 < size_of createLockFreeConfig pr \<and> unat (size_of createLockFreeConfig pr) \<le> 2 ^ 63"
    by (cases pr) (simp_all add: createLockFreeConfig_def createDefaultConfig_def CorePinningConfig_def)
qed

text \<open>A running manager and a message that has not been handed over.\<close>

lemma demo_manager:
  "\<exists>pool m a. pool_inv pool \<and> manager_step\<^sup>*\<^sup>* (new_sender_manager createLockFreeConfig pool) m \<and> sm_running m \<and> a \<in> dom (pool_heap (sm_pool m))
     \<and> (\<forall>pr. held_by m pr = {})"
proof -
  obtain pool a b where d: "pool_inv pool" "pool_heap pool = [a \<mapsto> Message_detailed 1 ''1'' ''1'' ''critical'' CRITICAL MT_ORDER [] [] 0,
     b \<mapsto> Message_detailed 1 ''2'' ''2'' ''low'' LOW MT_ORDER [] [] 0]" using demo_queue by blast
  let ?m = "new_sender_manager createLockFreeConfig pool"
  have i: "manager_inv ?m" by (rule new_manager_inv [OF d(1) demo_sizes])
  have nr: "\<not> sm_running ?m" "sm_pool ?m = pool" by (simp_all add: new_sender_manager_def)
  obtain r m where m: "manager_start demo_answers demo_order ?m = Some (r, m)" "manager_inv m" "pool_heap (sm_pool m) = pool_heap pool" "held_by m = held_by ?m"
    "case r of Inr _ \<Rightarrow> sm_running m \<and> (\<forall>pr. sx_spawn_error (demo_answers pr) = None)
      | Inl e \<Rightarrow> \<not> sm_running m \<and> (\<exists>ps pr qs. demo_order = ps @ pr # qs \<and> sx_spawn_error (demo_answers pr) = Some e \<and> (\<forall>pr\<in>set ps. has_running m pr))"
    using manager_start_ok [OF i demo_order, of demo_answers, unfolded if_not_P [OF nr(1)] nr(2)] by blast
  have h: "held_by ?m pr = {}" for pr using i nr(1) by (simp add: manager_inv_def)
  have "manager_step\<^sup>*\<^sup>* ?m m" by (rule r_into_rtranclp, rule manager_step.start [OF demo_order m(1)])
  moreover have "sm_running m" using m(5) by (cases r) simp_all
  moreover have "a \<in> dom (pool_heap (sm_pool m))" by (simp add: m(3) d(2))
  ultimately show ?thesis using d(1) h m(4) by (intro exI [of _ pool] exI [of _ m] exI [of _ a]) simp
qed

lemma manager_reachable_witness:
  "\<exists>m a. sm_running m \<and> a \<in> dom (pool_heap (sm_pool m)) \<and> manager_shutdown demo_order m \<noteq> None \<and> manager_sendMessage 7 5 a HIGH m \<noteq> None
     \<and> manager_pass stopped_pass HIGH m \<noteq> None"
proof -
  obtain pool m a where d: "pool_inv pool" "manager_step\<^sup>*\<^sup>* (new_sender_manager createLockFreeConfig pool) m" "sm_running m" "a \<in> dom (pool_heap (sm_pool m))"
    "\<forall>pr. held_by m pr = {}" using demo_manager by blast
  have w: "ps_wait stopped_pass = (\<lambda>st. (False, st))" by (simp add: stopped_pass_def)
  have "\<forall>pr. a \<notin> held_by m pr" using d(5) by simp
  with manager_reachable [OF d(2,1) demo_sizes demo_order w, of demo_answers HIGH 7 5] d(3,4) show ?thesis by (intro exI [of _ m] exI [of _ a]) (simp del: not_None_eq)
qed

lemma manager_send_spec_witness:
  "\<exists>m a ok m'. manager_sendMessage 7 5 a HIGH m = Some (ok, m') \<and> (if ok then held_by m' HIGH = {a} else a \<notin> dom (pool_heap (sm_pool m')))
     \<and> a \<in> dom (pool_heap (sm_pool m)) \<and> held_by m' LOW = {}"
proof -
  obtain pool m a where d: "pool_inv pool" "manager_step\<^sup>*\<^sup>* (new_sender_manager createLockFreeConfig pool) m" "sm_running m" "a \<in> dom (pool_heap (sm_pool m))"
    "\<forall>pr. held_by m pr = {}" using demo_manager by blast
  have "\<forall>pr. a \<notin> held_by m pr" using d(5) by simp
  from manager_send_spec [OF d(2,1) demo_sizes d(3,4) this, of 7 5 HIGH] obtain ok m' where
    r: "manager_sendMessage 7 5 a HIGH m = Some (ok, m')" "\<forall>pr'. pr' \<noteq> HIGH \<longrightarrow> held_by m' pr' = held_by m pr'"
    "if ok then a \<in> held_by m' HIGH else held_by m' HIGH = held_by m HIGH" "held_by m' HIGH \<subseteq> insert a (held_by m HIGH)"
    "dom (pool_heap (sm_pool m')) = dom (pool_heap (sm_pool m)) - (insert a (held_by m HIGH) - held_by m' HIGH)" by (elim exE conjE)
  then have "if ok then held_by m' HIGH = {a} else a \<notin> dom (pool_heap (sm_pool m'))" using d(5) by (cases ok) auto
  moreover have "held_by m' LOW = {}" using r(2) d(5) by simp
  ultimately show ?thesis using r(1) d(4) by (intro exI [of _ m] exI [of _ a] exI [of _ ok] exI [of _ m']) simp
qed

lemma manager_shutdown_releases_witness:
  "\<exists>m m' a. sm_running m \<and> manager_shutdown demo_order m = Some m' \<and> \<not> sm_running m' \<and> a \<in> dom (pool_heap (sm_pool m'))"
proof -
  obtain pool m a where d: "pool_inv pool" "manager_step\<^sup>*\<^sup>* (new_sender_manager createLockFreeConfig pool) m" "sm_running m" "a \<in> dom (pool_heap (sm_pool m))"
    "\<forall>pr. held_by m pr = {}" using demo_manager by blast
  from manager_shutdown_releases [OF d(2,1) demo_sizes demo_order(2)] obtain m' where
    "manager_shutdown demo_order m = Some m'" "\<not> sm_running m'" "dom (pool_heap (sm_pool m')) = dom (pool_heap (sm_pool m)) - (\<Union>pr. held_by m pr)" by blast
  with d(3-5) show ?thesis by (intro exI [of _ m] exI [of _ m'] exI [of _ a]) simp
qed

lemma start_failure_leaves_threads_witness:
  "\<exists>m m' s. manager_start (demo_answers(LOW := \<lparr> sx_spawn_error = Some ''Resource temporarily unavailable'', sx_affinity = (\<lambda>core. True), sx_real_time = False \<rparr>))
       demo_order m = Some (Inl ''Resource temporarily unavailable'', m') \<and> \<not> sm_running m'
     \<and> sm_async_senders m' CRITICAL = Some s \<and> as_running s \<and> as_thread_joinable s"
proof -
  let ?e = "''Resource temporarily unavailable''"
  let ?sx = "demo_answers(LOW := \<lparr> sx_spawn_error = Some ?e, sx_affinity = (\<lambda>core. True), sx_real_time = False \<rparr>)"
  obtain pool :: "message pool" where pool: "pool_inv pool" using demo_queue by blast
  let ?m = "new_sender_manager createLockFreeConfig pool"
  have i: "manager_inv ?m" by (rule new_manager_inv [OF pool demo_sizes])
  have nr: "\<not> sm_running ?m" by (simp add: new_sender_manager_def)
  have ne: "\<not> (\<forall>pr. sx_spawn_error (?sx pr) = None)" by (auto intro!: exI [of _ LOW])
  obtain r m' where r: "manager_start ?sx demo_order ?m = Some (r, m')" "case r of Inr _ \<Rightarrow> sm_running m' \<and> (\<forall>pr. sx_spawn_error (?sx pr) = None)
      | Inl e \<Rightarrow> \<not> sm_running m' \<and> (\<exists>ps pr qs. demo_order = ps @ pr # qs \<and> sx_spawn_error (?sx pr) = Some e \<and> (\<forall>pr\<in>set ps. has_running m' pr))"
    using manager_start_ok [OF i demo_order, of ?sx, unfolded if_not_P [OF nr]] by blast
  then obtain e where m': "manager_start ?sx demo_order ?m = Some (Inl e, m')" using ne by (cases r) auto
  have run: "manager_step\<^sup>*\<^sup>* ?m ?m" by simp
  obtain ps pr qs where p: "demo_order = ps @ pr # qs" "sx_spawn_error (?sx pr) = Some e" "\<not> sm_running m'"
    "\<forall>pr\<in>set ps. \<exists>s. sm_async_senders m' pr = Some s \<and> as_running s \<and> as_thread_joinable s"
    using start_failure_leaves_threads [OF run pool demo_sizes demo_order nr m'] by blast
  have "pr = LOW" "e = ?e" using p(2) by (auto split: if_splits)
  moreover have "CRITICAL \<in> set ps" using p(1) \<open>pr = LOW\<close> by (cases ps) auto
  ultimately show ?thesis using m' p(3,4) by blast
qed

end
