(* ===== verification/Parser_State_Machine.thy ===== *)
theory Parser_State_Machine
  imports Parser_Recovery Parser_Wire
begin

text \<open>
  The byte-level state machine of \<open>StreamFixParser\<close> (src/protocol/stream_fix_parser.cpp): one handler per state, the loop
  \<open>processStateMachine\<close> over them, and \<open>handlePartialMessage\<close>, which feeds it from the partial buffer. It is the second decoder of the
  parser, beside the two-stage one of the entry point, and counts the body bytes field by field instead of framing the message first.

  The handlers that stay within \<open>buffer[0..length)\<close> get just these bytes; the recovery handlers get the readable
  memory and the length. Every call passes the parser's own context. The loop may run forever; not returning is \<open>None\<close>.
\<close>

section \<open>Validation helpers\<close>

definition validateBeginString :: "string \<Rightarrow> bool \<times> nat" where
  "validateBeginString buf =
    (if length buf < length FIX_BEGIN_STRING + 1 then (False, 0)
     else if take (length FIX_BEGIN_STRING) buf \<noteq> FIX_BEGIN_STRING then (False, 0)
     else case find_char FIX_SOH buf (length FIX_BEGIN_STRING) of
            None \<Rightarrow> (False, 0)
          | Some soh_pos \<Rightarrow> (True, soh_pos + 1))"

definition validateBodyLength :: "string \<Rightarrow> parser \<Rightarrow> (bool \<times> nat) outcome \<times> parser" where
  "validateBodyLength buf p =
    (if length buf < 3 \<or> buf ! 0 \<noteq> CHR ''9'' \<or> buf ! 1 \<noteq> CHR ''='' then (Returns (False, 0), p)
     else case find_char FIX_SOH buf 2 of
            None \<Rightarrow> (Returns (False, 0), p)
          | Some soh_pos \<Rightarrow>
            case parseInteger (substr buf 2 (soh_pos - 2)) of
              Int_Overflow \<Rightarrow> (Undefined, p)
            | Int_Fail \<Rightarrow> (Returns (False, 0), p)
            | Int_Ok body_length \<Rightarrow>
              if body_length \<le> 0 then (Returns (False, 0), p)
              else if body_length > to_int32 (ps_max_message_size p) then (Returns (False, 0), p)
              else (Returns (True, soh_pos + 1), upd_ctx (\<lambda>c. c\<lparr>cx_expected_body_length := nat body_length\<rparr>) p))"

definition isValidFieldTag :: "int \<Rightarrow> bool" where
  "isValidFieldTag tag \<longleftrightarrow> tag > 0 \<and> tag \<le> 99999"

definition isRequiredField :: "int \<Rightarrow> bool" where
  "isRequiredField tag \<longleftrightarrow> tag = Tag_BeginString \<or> tag = Tag_BodyLength \<or> tag = Tag_MsgType \<or> tag = Tag_CheckSum"

section \<open>State handlers\<close>

text \<open>The last step of every handler: enter the next state and report the bytes consumed.\<close>

definition advance :: "parse_state \<Rightarrow> parse_status \<Rightarrow> nat \<Rightarrow> nat \<Rightarrow> parser \<Rightarrow> parse_result outcome \<times> parser" where
  "advance next status consumed err p =
    (let (ok, p) = transitionToState next p
     in if \<not> ok then (Returns (result StateTransitionError consumed 0 ERROR_RECOVERY err), p)
        else (Returns (result status consumed 0 next 0), p))"

definition handleIdleState :: "string \<Rightarrow> nat \<Rightarrow> parser \<Rightarrow> parse_result outcome \<times> parser" where
  "handleIdleState mem len p =
    (if len < 9 then (Returns (result NeedMoreData 0 0 IDLE 0), p\<lparr>ps_partial_size := ps_partial_size p + len\<rparr>)
     else case search FIX_BEGIN_STRING (take len mem) of
            None \<Rightarrow> if len > 512 then attemptErrorRecovery mem len p else (Returns (result NeedMoreData 0 0 IDLE 0), p)
          | Some begin_string_pos \<Rightarrow>
            let p = upd_ctx (\<lambda>c. c\<lparr>cx_message_start := begin_string_pos\<rparr>) p
            in if begin_string_pos > 0 then (Returns (result NeedMoreData begin_string_pos 0 IDLE 0), p)
               else advance PARSING_BEGIN_STRING NeedMoreData begin_string_pos 0 p)"

definition handleParsingBeginString :: "string \<Rightarrow> parser \<Rightarrow> parse_result outcome \<times> parser" where
  "handleParsingBeginString buf p =
    (case validateBeginString buf of
       (ok, consumed) \<Rightarrow>
         if \<not> ok then (Returns (result InvalidFormat 0 0 ERROR_RECOVERY 0), p)
         else if consumed = 0 then (Returns (result NeedMoreData 0 0 PARSING_BEGIN_STRING 0), p)
         else advance PARSING_BODY_LENGTH NeedMoreData consumed consumed p)"

definition handleParsingBodyLength :: "string \<Rightarrow> parser \<Rightarrow> parse_result outcome \<times> parser" where
  "handleParsingBodyLength buf p =
    (case validateBodyLength buf p of
       (Returns (ok, consumed), p) \<Rightarrow>
         if \<not> ok then (Returns (result InvalidFormat consumed 0 ERROR_RECOVERY consumed), p)
         else if consumed = 0 then (Returns (result NeedMoreData 0 0 PARSING_BODY_LENGTH 0), p)
         else advance PARSING_TAG NeedMoreData consumed consumed p
     | (_, p) \<Rightarrow> (Undefined, p))"

definition handleParsingTag :: "string \<Rightarrow> parser \<Rightarrow> parse_result outcome \<times> parser" where
  "handleParsingTag buf p =
    (case find_char (CHR ''='') buf 0 of
       None \<Rightarrow>
         if length buf > 10 then (Returns (result InvalidFormat 0 0 ERROR_RECOVERY 0), p)
         else (Returns (result NeedMoreData 0 0 PARSING_TAG 0), p)
     | Some tag_length \<Rightarrow>
         if tag_length = 0 then (Returns (result InvalidFormat 0 0 ERROR_RECOVERY 0), p)
         else case parseInteger (take tag_length buf) of
                Int_Overflow \<Rightarrow> (Undefined, p)
              | Int_Fail \<Rightarrow> (Returns (result FieldParseError tag_length 0 ERROR_RECOVERY 0), p)
              | Int_Ok field_tag \<Rightarrow>
                if \<not> isValidFieldTag field_tag then (Returns (result FieldParseError tag_length 0 ERROR_RECOVERY 0), p)
                else advance EXPECTING_EQUALS NeedMoreData tag_length tag_length
                  (upd_ctx (\<lambda>c. c\<lparr>cx_field_tag := field_tag, cx_field_start := cx_buffer_position c\<rparr>) p))"

definition handleExpectingEquals :: "string \<Rightarrow> parser \<Rightarrow> parse_result outcome \<times> parser" where
  "handleExpectingEquals buf p =
    (if length buf = 0 then (Returns (result NeedMoreData 0 0 EXPECTING_EQUALS 0), p)
     else if buf ! 0 \<noteq> CHR ''='' then (Returns (result InvalidFormat 0 0 ERROR_RECOVERY 0), p)
     else advance PARSING_VALUE NeedMoreData 1 1 p)"

definition handleParsingValue :: "string \<Rightarrow> parser \<Rightarrow> parse_result outcome \<times> parser" where
  "handleParsingValue buf p =
    (let p = (if cx_field_start (ps_ctx p) = 0 then upd_ctx (\<lambda>c. c\<lparr>cx_field_start := cx_buffer_position c\<rparr>) p else p)
     in case find_char FIX_SOH buf 0 of
          None \<Rightarrow> (Returns (result NeedMoreData 0 0 PARSING_VALUE 0), p)
        | Some value_length \<Rightarrow>
          advance EXPECTING_SOH NeedMoreData value_length value_length
            (upd_ctx (\<lambda>c. c\<lparr>cx_partial_value := take value_length buf\<rparr>) p))"

definition handleExpectingSOH :: "string \<Rightarrow> parser \<Rightarrow> parse_result outcome \<times> parser" where
  "handleExpectingSOH buf p =
    (if length buf = 0 then (Returns (result NeedMoreData 0 0 EXPECTING_SOH 0), p)
     else if buf ! 0 \<noteq> FIX_SOH then (Returns (result InvalidFormat 0 0 ERROR_RECOVERY 0), p)
     else
       let p = upd_ctx (\<lambda>c. c\<lparr>cx_parsed_fields := cx_parsed_fields c @ [(cx_field_tag c, cx_partial_value c)],
                 cx_body_bytes := cx_body_bytes c + length (to_string_int (cx_field_tag c)) + 1 + length (cx_partial_value c) + 1,
                 cx_field_tag := 0, cx_partial_value := []\<rparr>) p;
           next = (if cx_body_bytes (ps_ctx p) \<ge> cx_expected_body_length (ps_ctx p) then PARSING_CHECKSUM else PARSING_TAG)
       in advance next NeedMoreData 1 1 p)"

definition handleParsingChecksum :: "string \<Rightarrow> parser \<Rightarrow> parse_result outcome \<times> parser" where
  "handleParsingChecksum buf p =
    (if length buf < 5 then (Returns (result NeedMoreData 0 0 PARSING_CHECKSUM 0), p)
     else if buf ! 0 \<noteq> CHR ''1'' \<or> buf ! 1 \<noteq> CHR ''0'' \<or> buf ! 2 \<noteq> CHR ''='' then (Returns (result InvalidFormat 0 0 ERROR_RECOVERY 0), p)
     else case find_char FIX_SOH buf 3 of
            None \<Rightarrow> (Returns (result NeedMoreData 0 0 PARSING_CHECKSUM 0), p)
          | Some soh_pos \<Rightarrow>
            let checksum_value_length = soh_pos - 3;
                checksum_value = substr buf 3 checksum_value_length
            in if checksum_value_length = 0 then (Returns (result InvalidFormat 3 0 ERROR_RECOVERY 3), p)
               else if checksum_value_length \<noteq> 3 \<or> \<not> list_all is_digit checksum_value
               then (Returns (result InvalidFormat (3 + checksum_value_length) 0 ERROR_RECOVERY (3 + checksum_value_length)), p)
               else let consumed = 3 + checksum_value_length + 1
                    in advance MESSAGE_COMPLETE FinishedParsingFields consumed consumed
                         (upd_ctx (\<lambda>c. c\<lparr>cx_parsed_fields := cx_parsed_fields c @ [(Tag_CheckSum, checksum_value)]\<rparr>) p))"

text \<open>The message assembled from the parsed fields, and the text whose checksum is compared.\<close>

definition assembled :: "fields \<Rightarrow> nat \<Rightarrow> fix_message \<Rightarrow> fix_message" where
  "assembled parsed expected m =
    (let m = fold (\<lambda>(tag, value). setField tag value) parsed m;
         m = setField Tag_BeginString ''FIX.4.4'' m;
         m = setField Tag_BodyLength (int_to_string (to_int32 expected)) m
     in case find (\<lambda>field. fst field = Tag_MsgType) parsed of
          None \<Rightarrow> m
        | Some field \<Rightarrow> setField Tag_MsgType (snd field) m)"

definition message_for_checksum :: "fields \<Rightarrow> nat \<Rightarrow> string" where
  "message_for_checksum parsed expected =
    ''8=FIX.4.4'' @ [FIX_SOH] @ ''9='' @ to_string_nat expected @ [FIX_SOH]
    @ concat (map field_text (filter (\<lambda>field. fst field \<noteq> Tag_CheckSum) parsed))"

definition handleMessageComplete :: "clock \<Rightarrow> parser \<Rightarrow> parse_result outcome \<times> parser" where
  "handleMessageComplete ck p =
    (let (message, p) = new_message ck p
     in if message = 0 then (Returns (result AllocationFailed 0 0 ERROR_RECOVERY 0), p)
        else
          let parsed = cx_parsed_fields (ps_ctx p);
              expected = cx_expected_body_length (ps_ctx p);
              p = store_message message (assembled parsed expected (new_FixMessage (ck_system ck))) p;
              total_message_length = length FIX_BEGIN_STRING + 1 + length (to_string_nat expected) + 3 + expected + 7;
              finished = (Returns (result Success total_message_length message IDLE 0), upd_ctx reset_context p)
          in if \<not> ps_validate_checksum p then finished
             else case find (\<lambda>field. fst field = Tag_CheckSum) parsed of
                    None \<Rightarrow> finished
                  | Some field \<Rightarrow>
                    case stoi (snd field) of
                      Inl e \<Rightarrow> (Throws e, p)
                    | Inr received_checksum \<Rightarrow>
                      if byte_sum (message_for_checksum parsed expected) \<noteq> of_int received_checksum
                      then (Returns (result ChecksumError 0 0 ERROR_RECOVERY 0), free_message message p)
                      else finished)"

section \<open>The loop\<close>

text \<open>One round of the loop ends the function or goes on with a new number of consumed bytes.\<close>

datatype round_result = Stop "parse_result outcome" parser | Go_On nat parser

definition dispatch_state :: "clock \<Rightarrow> string \<Rightarrow> nat \<Rightarrow> parser \<Rightarrow> parse_result outcome \<times> parser" where
  "dispatch_state ck mem len p =
    (case cx_state (ps_ctx p) of
       IDLE \<Rightarrow> handleIdleState mem len p
     | PARSING_BEGIN_STRING \<Rightarrow> handleParsingBeginString (take len mem) p
     | PARSING_BODY_LENGTH \<Rightarrow> handleParsingBodyLength (take len mem) p
     | PARSING_TAG \<Rightarrow> handleParsingTag (take len mem) p
     | EXPECTING_EQUALS \<Rightarrow> handleExpectingEquals (take len mem) p
     | PARSING_VALUE \<Rightarrow> handleParsingValue (take len mem) p
     | EXPECTING_SOH \<Rightarrow> handleExpectingSOH (take len mem) p
     | PARSING_CHECKSUM \<Rightarrow> handleParsingChecksum (take len mem) p
     | MESSAGE_COMPLETE \<Rightarrow> handleMessageComplete ck p
     | ERROR_RECOVERY \<Rightarrow> handleErrorRecovery mem len p
     | CORRUPTED_SKIP \<Rightarrow> handleCorruptedSkip mem len p)"

definition machine_round :: "clock \<Rightarrow> string \<Rightarrow> nat \<Rightarrow> nat \<Rightarrow> parser \<Rightarrow> round_result" where
  "machine_round ck mem len total_consumed p =
    (let p = upd_ctx (\<lambda>c. c\<lparr>cx_buffer_position := total_consumed\<rparr>) p;
         previous_state = cx_state (ps_ctx p)
     in case dispatch_state ck (drop total_consumed mem) (len - total_consumed) p of
          (Returns r, q) \<Rightarrow>
            let consumed' = total_consumed + pr_bytes r;
                r' = r\<lparr>pr_bytes := consumed'\<rparr>;
                state_changed = (cx_state (ps_ctx q) \<noteq> previous_state)
            in if pr_status r = Success \<or> pr_status r = RecoverySuccess \<or> pr_status r = InvalidFormat \<or> pr_status r = ChecksumError
                  \<or> pr_status r = FieldParseError
                  \<or> pr_status r = NeedMoreData \<and> (consumed' \<ge> len \<or> pr_bytes r = 0 \<and> \<not> state_changed)
               then Stop (Returns r') q
               else Go_On consumed' (recordStateTransition q)
        | (out, q) \<Rightarrow> Stop out q)"

definition storePartialMessage :: "string \<Rightarrow> nat \<Rightarrow> parser \<Rightarrow> parser" where
  "storePartialMessage mem len p =
    (if len > 0 \<and> len \<le> PARTIAL_BUFFER_SIZE
     then p\<lparr>ps_partial := take len mem @ drop len (ps_partial p), ps_partial_size := len\<rparr>
     else p)"

partial_function (option) machine_loop ::
  "clock \<Rightarrow> string \<Rightarrow> nat \<Rightarrow> nat \<Rightarrow> parser \<Rightarrow> (parse_result outcome \<times> parser) option" where
  "machine_loop ck mem len total_consumed p =
    (if total_consumed \<le> len then
       case machine_round ck mem len total_consumed p of
         Stop out q \<Rightarrow> Some (out, q)
       | Go_On consumed' q \<Rightarrow> machine_loop ck mem len consumed' q
     else if cx_state (ps_ctx p) \<noteq> IDLE then
       Some (Returns (result NeedMoreData len 0 (cx_state (ps_ctx p)) 0), recordPartialMessageHandled (storePartialMessage mem len p))
     else Some (Returns (result Success len 0 (cx_state (ps_ctx p)) 0), p))"

definition processStateMachine :: "clock \<Rightarrow> string \<Rightarrow> nat \<Rightarrow> parser \<Rightarrow> (parse_result outcome \<times> parser) option" where
  "processStateMachine ck mem len p = machine_loop ck mem len 0 p"

text \<open>The new bytes are the argument; the partial buffer is an array of fixed size.\<close>

definition handlePartialMessage :: "clock \<Rightarrow> string \<Rightarrow> parser \<Rightarrow> (parse_result outcome \<times> parser) option" where
  "handlePartialMessage ck new_buffer p =
    (let total_length = ps_partial_size p + length new_buffer
     in if total_length > PARTIAL_BUFFER_SIZE then Some (Returns (result MessageTooLarge 0 0 IDLE 0), reset_parser ck p)
        else
          let p = p\<lparr>ps_partial := take (ps_partial_size p) (ps_partial p) @ new_buffer @ drop total_length (ps_partial p),
                    ps_partial_size := total_length\<rparr>;
              p = upd_ctx reset_context p
          in map_option
               (\<lambda>(out, q). case out of
                   Returns r \<Rightarrow>
                     (out, if pr_status r = Success then q\<lparr>ps_partial_size := 0\<rparr>
                           else if pr_status r = NeedMoreData then q\<lparr>ps_partial_size := total_length\<rparr>
                           else q\<lparr>ps_partial_size := 0\<rparr>)
                 | _ \<Rightarrow> (out, q))
               (processStateMachine ck (ps_partial p) total_length p))"

section \<open>Configuration and inspection\<close>

definition getCurrentState :: "parser \<Rightarrow> parse_state" where
  "getCurrentState p = cx_state (ps_ctx p)"

definition isInErrorRecovery :: "parser \<Rightarrow> bool" where
  "isInErrorRecovery p \<longleftrightarrow> cx_state (ps_ctx p) = ERROR_RECOVERY"

definition hasPartialMessage :: "parser \<Rightarrow> bool" where
  "hasPartialMessage p \<longleftrightarrow> ps_partial_size p > 0 \<or> cx_state (ps_ctx p) \<noteq> IDLE"

definition setMaxMessageSize :: "nat \<Rightarrow> parser \<Rightarrow> parser" where
  "setMaxMessageSize max_size p = p\<lparr>ps_max_message_size := max_size\<rparr>"

definition setValidateChecksum :: "bool \<Rightarrow> parser \<Rightarrow> parser" where
  "setValidateChecksum enabled p = p\<lparr>ps_validate_checksum := enabled\<rparr>"

definition setStrictValidation :: "bool \<Rightarrow> parser \<Rightarrow> parser" where
  "setStrictValidation strict p = p\<lparr>ps_strict_validation := strict\<rparr>"

definition setMaxConsecutiveErrors :: "nat \<Rightarrow> parser \<Rightarrow> parser" where
  "setMaxConsecutiveErrors max_errors p = p\<lparr>ps_max_consecutive_errors := max_errors\<rparr>"

definition setErrorRecoveryEnabled :: "bool \<Rightarrow> parser \<Rightarrow> parser" where
  "setErrorRecoveryEnabled enabled p = p\<lparr>ps_error_recovery_enabled := enabled\<rparr>"

definition setMessagePool :: "fix_message pool \<Rightarrow> parser \<Rightarrow> parser" where
  "setMessagePool pool p = p\<lparr>ps_pool := pool\<rparr>"

end
