(* ===== verification/State_Machine_Properties.thy ===== *)
theory State_Machine_Properties
  imports Parser_State_Machine Stream_Correctness
begin

text \<open>
  What the state machine of \<open>StreamFixParser\<close> does: it decodes a complete message to the fields the two-stage decoder gives, its
  context stays well formed, and it returns on every buffer outside two situations, in which it does not return at all.
\<close>

section \<open>Rounds of the loop\<close>

text \<open>The bytes a round works on.\<close>

definition view :: "string \<Rightarrow> nat \<Rightarrow> nat \<Rightarrow> string" where
  "view mem len n = take (len - n) (drop n mem)"

lemma view_advance: "view mem len n = xs @ ys \<Longrightarrow> view mem len (n + length xs) = ys"
proof -
  assume v: "view mem len n = xs @ ys"
  have "view mem len (n + length xs) = drop (length xs) (view mem len n)" by (simp add: view_def drop_take add.commute)
  then show ?thesis by (simp add: v)
qed

lemma view_bound: "view mem len n = xs @ ys \<Longrightarrow> n \<le> len \<Longrightarrow> n + length xs + length ys \<le> len"
proof -
  assume v: "view mem len n = xs @ ys" and n: "n \<le> len"
  have "length xs + length ys \<le> len - n" using arg_cong [OF v, of length] unfolding view_def by simp
  then show ?thesis using n by simp
qed

lemma loop_go_on:
  assumes "machine_round ck mem len n p = Go_On n' q" "n \<le> len"
  shows "machine_loop ck mem len n p = machine_loop ck mem len n' q"
  using assms by (subst machine_loop.simps) simp

lemma loop_stop:
  assumes "machine_round ck mem len n p = Stop out q" "n \<le> len"
  shows "machine_loop ck mem len n p = Some (out, q)"
  using assms by (subst machine_loop.simps) simp

text \<open>A parser that has got from \<open>p\<close> to a state, with what has been collected on the way.\<close>

definition machine_at :: "parser \<Rightarrow> parse_state \<Rightarrow> nat \<Rightarrow> nat \<Rightarrow> fields \<Rightarrow> parser \<Rightarrow> bool" where
  "machine_at p st expected bytes parsed q \<longleftrightarrow>
     ps_pool q = ps_pool p \<and> ps_validate_checksum q = ps_validate_checksum p \<and> ps_max_message_size q = ps_max_message_size p
     \<and> cx_state (ps_ctx q) = st \<and> cx_expected_body_length (ps_ctx q) = expected
     \<and> cx_body_bytes (ps_ctx q) = bytes \<and> cx_parsed_fields (ps_ctx q) = parsed"

lemmas round_defs = machine_round_def dispatch_state_def advance_def transitionToState_def updateStateStatistics_def recordStateTransition_def
  machine_at_def view_def [symmetric]

lemma idle_round:
  assumes "machine_at p IDLE expected bytes parsed q" "view mem len n = FIX_BEGIN_STRING @ ys" "ys \<noteq> []" "n \<le> len"
  shows "\<exists>q'. machine_loop ck mem len n q = machine_loop ck mem len n q' \<and> machine_at p PARSING_BEGIN_STRING expected bytes parsed q'"
proof -
  have l: "n + 9 + length ys \<le> len" using view_bound [OF assms(2,4)] by (simp add: FIX_BEGIN_STRING_def)
  have s: "search FIX_BEGIN_STRING (FIX_BEGIN_STRING @ ys) = Some 0" by (simp add: FIX_BEGIN_STRING_def)
  have n: "\<not> len - n < 9" "\<not> len \<le> n" using l by auto
  obtain q' where "machine_round ck mem len n q = Go_On n q'" "machine_at p PARSING_BEGIN_STRING expected bytes parsed q'"
    using assms(1) by (simp add: round_defs handleIdleState_def assms(2) s n Let_def)
  with loop_go_on [OF _ assms(4)] show ?thesis by blast
qed

lemma begin_string_round:
  assumes "machine_at p PARSING_BEGIN_STRING expected bytes parsed q" "view mem len n = FIX_BEGIN_STRING @ FIX_SOH # ys" "ys \<noteq> []" "n \<le> len"
  shows "\<exists>q'. machine_loop ck mem len n q = machine_loop ck mem len (n + 10) q' \<and> machine_at p PARSING_BODY_LENGTH expected bytes parsed q'"
proof -
  have l: "n + 10 + length ys \<le> len" using view_bound [OF assms(2,4)] by (simp add: FIX_BEGIN_STRING_def)
  have v: "validateBeginString (FIX_BEGIN_STRING @ FIX_SOH # ys) = (True, 10)"
    by (simp add: validateBeginString_def FIX_BEGIN_STRING_def find_char_def)
  have n: "\<not> len \<le> n + 10" using l assms(3) by (cases ys) auto
  obtain q' where "machine_round ck mem len n q = Go_On (n + 10) q'" "machine_at p PARSING_BODY_LENGTH expected bytes parsed q'"
    using assms(1) by (simp add: round_defs handleParsingBeginString_def assms(2) v n Let_def)
  with loop_go_on [OF _ assms(4)] show ?thesis by blast
qed

lemma body_length_round:
  assumes "machine_at p PARSING_BODY_LENGTH expected bytes parsed q" "view mem len n = ''9='' @ to_string_nat k @ FIX_SOH # ys" "ys \<noteq> []" "n \<le> len"
    and "0 < k" "int k \<le> to_int32 (ps_max_message_size p)"
  shows "\<exists>q'. machine_loop ck mem len n q = machine_loop ck mem len (n + length (to_string_nat k) + 3) q' \<and> machine_at p PARSING_TAG k bytes parsed q'"
proof -
  let ?ds = "to_string_nat k"
  have l: "n + 3 + length ?ds + length ys \<le> len" using view_bound [OF assms(2,4)] by simp
  have f: "find_char FIX_SOH (CHR ''9'' # CHR ''='' # ?ds @ FIX_SOH # ys) 2 = Some (length ?ds + 2)"
    using index_of_append [OF soh_not_in_digits, of k ys] by (simp add: find_char_def)
  have i: "parseInteger (substr (CHR ''9'' # CHR ''='' # ?ds @ FIX_SOH # ys) 2 (length ?ds)) = Int_Ok (int k)"
    using assms(6) to_int32_le [of "ps_max_message_size p"] by (simp add: substr_def)
  have n: "\<not> len \<le> Suc (Suc (Suc (n + length ?ds)))" using l assms(3) by (cases ys) auto
  obtain q' where "machine_round ck mem len n q = Go_On (n + (length ?ds + 3)) q'" "machine_at p PARSING_TAG k bytes parsed q'"
    using assms(1,5,6) by (simp add: round_defs handleParsingBodyLength_def validateBodyLength_def assms(2) f i n [simplified] Let_def numeral_3_eq_3)
  with loop_go_on [OF _ assms(4)] show ?thesis by (auto simp: add.assoc)
qed

text \<open>A field takes four rounds.\<close>

lemma tag_round:
  assumes "machine_at p PARSING_TAG expected bytes parsed q" "view mem len n = to_string_int t @ CHR ''='' # ys" "n \<le> len" "isValidFieldTag t"
  shows "\<exists>q'. machine_loop ck mem len n q = machine_loop ck mem len (n + length (to_string_int t)) q'
    \<and> machine_at p EXPECTING_EQUALS expected bytes parsed q' \<and> cx_field_tag (ps_ctx q') = t"
proof -
  let ?ts = "to_string_int t"
  have t: "0 \<le> t" "t \<le> INT_MAX" using assms(4) by (simp_all add: isValidFieldTag_def INT_MAX_def)
  have l: "n + length ?ts + 1 \<le> len" using view_bound [OF assms(2,3)] by simp
  have f: "find_char (CHR ''='') (?ts @ CHR ''='' # ys) 0 = Some (length ?ts)"
    using index_of_append [OF tag_text_avoid [OF t(1)], of ys] by (simp add: find_char_def)
  have ne: "?ts \<noteq> []" using parseInteger_tag [OF t] by (auto simp: parseInteger_def)
  have n: "\<not> len \<le> n + length ?ts" using l by simp
  obtain q' where "machine_round ck mem len n q = Go_On (n + length ?ts) q'" "machine_at p EXPECTING_EQUALS expected bytes parsed q'"
      "cx_field_tag (ps_ctx q') = t"
    using assms(1,4) by (simp add: round_defs handleParsingTag_def assms(2) f parseInteger_tag [OF t] ne n Let_def)
  with loop_go_on [OF _ assms(3)] show ?thesis by blast
qed

lemma equals_round:
  assumes "machine_at p EXPECTING_EQUALS expected bytes parsed q" "view mem len n = CHR ''='' # ys" "ys \<noteq> []" "n \<le> len"
  shows "\<exists>q'. machine_loop ck mem len n q = machine_loop ck mem len (n + 1) q'
    \<and> machine_at p PARSING_VALUE expected bytes parsed q' \<and> cx_field_tag (ps_ctx q') = cx_field_tag (ps_ctx q)"
proof -
  have "n + 1 + length ys \<le> len" using view_bound [of mem len n "[CHR ''='']" ys] assms(2,4) by simp
  then have n: "\<not> len \<le> Suc n" using assms(3) by (cases ys) auto
  obtain q' where "machine_round ck mem len n q = Go_On (n + 1) q'" "machine_at p PARSING_VALUE expected bytes parsed q'"
      "cx_field_tag (ps_ctx q') = cx_field_tag (ps_ctx q)"
    using assms(1) by (simp add: round_defs handleExpectingEquals_def assms(2) n Let_def)
  with loop_go_on [OF _ assms(4)] show ?thesis by blast
qed

lemma value_round:
  assumes "machine_at p PARSING_VALUE expected bytes parsed q" "view mem len n = v @ FIX_SOH # ys" "FIX_SOH \<notin> set v" "n \<le> len"
  shows "\<exists>q'. machine_loop ck mem len n q = machine_loop ck mem len (n + length v) q'
    \<and> machine_at p EXPECTING_SOH expected bytes parsed q' \<and> cx_field_tag (ps_ctx q') = cx_field_tag (ps_ctx q) \<and> cx_partial_value (ps_ctx q') = v"
proof -
  have l: "n + length v + 1 \<le> len" using view_bound [OF assms(2,4)] by simp
  have f: "find_char FIX_SOH (v @ FIX_SOH # ys) 0 = Some (length v)"
    using index_of_append [OF assms(3), of ys] by (simp add: find_char_def)
  have n: "\<not> len \<le> n + length v" "\<not> len \<le> n" using l by auto
  obtain q' where "machine_round ck mem len n q = Go_On (n + length v) q'" "machine_at p EXPECTING_SOH expected bytes parsed q'"
      "cx_field_tag (ps_ctx q') = cx_field_tag (ps_ctx q)" "cx_partial_value (ps_ctx q') = v"
    using assms(1) by (cases "cx_field_start (ps_ctx q) = 0") (simp_all add: round_defs handleParsingValue_def assms(2) f n Let_def)
  with loop_go_on [OF _ assms(4)] show ?thesis by blast
qed

lemma soh_round:
  assumes "machine_at p EXPECTING_SOH expected bytes parsed q" "view mem len n = FIX_SOH # ys" "ys \<noteq> []" "n \<le> len"
    and "cx_field_tag (ps_ctx q) = t" "cx_partial_value (ps_ctx q) = v" "bytes' = bytes + length (field_text (t, v))"
  shows "\<exists>q'. machine_loop ck mem len n q = machine_loop ck mem len (n + 1) q'
    \<and> machine_at p (if expected \<le> bytes' then PARSING_CHECKSUM else PARSING_TAG) expected bytes' (parsed @ [(t, v)]) q'"
proof -
  have "n + 1 + length ys \<le> len" using view_bound [of mem len n "[FIX_SOH]" ys] assms(2,4) by simp
  then have n: "\<not> len \<le> Suc n" using assms(3) by (cases ys) auto
  have b: "bytes' = Suc (Suc (bytes + length (to_string_int t) + length v))" by (simp add: assms(7) field_text_def)
  obtain q' where "machine_round ck mem len n q = Go_On (n + 1) q'"
      "machine_at p (if expected \<le> bytes' then PARSING_CHECKSUM else PARSING_TAG) expected bytes' (parsed @ [(t, v)]) q'"
    using assms(1,5,6) unfolding b
    by (cases "expected \<le> Suc (Suc (bytes + length (to_string_int t) + length v))")
      (simp_all add: round_defs handleExpectingSOH_def assms(2) n Let_def)
  with loop_go_on [OF _ assms(4)] show ?thesis by blast
qed

lemma field_rounds:
  assumes "machine_at p PARSING_TAG expected bytes parsed q" "view mem len n = field_text (t, v) @ ys" "ys \<noteq> []" "n \<le> len"
    and "isValidFieldTag t" "FIX_SOH \<notin> set v" "bytes' = bytes + length (field_text (t, v))"
  shows "\<exists>q'. machine_loop ck mem len n q = machine_loop ck mem len (n + length (field_text (t, v))) q'
    \<and> machine_at p (if expected \<le> bytes' then PARSING_CHECKSUM else PARSING_TAG) expected bytes' (parsed @ [(t, v)]) q'"
proof -
  let ?ts = "to_string_int t"
  have v1: "view mem len n = ?ts @ CHR ''='' # v @ FIX_SOH # ys" using assms(2) by (simp add: field_text_def)
  have v2: "view mem len (n + length ?ts) = CHR ''='' # v @ FIX_SOH # ys" using view_advance [OF v1] .
  have v3: "view mem len (n + length ?ts + 1) = v @ FIX_SOH # ys" using view_advance [of _ _ _ "[CHR ''='']"] v2 by simp
  have v4: "view mem len (n + length ?ts + 1 + length v) = FIX_SOH # ys" using view_advance [OF v3] .
  have le: "n + length ?ts + length v + 2 \<le> len" using view_bound [OF v1 assms(4)] by simp
  obtain q1 where q1: "machine_loop ck mem len n q = machine_loop ck mem len (n + length ?ts) q1"
      "machine_at p EXPECTING_EQUALS expected bytes parsed q1" "cx_field_tag (ps_ctx q1) = t"
    using tag_round [OF assms(1) v1 assms(4,5)] by blast
  obtain q2 where q2: "machine_loop ck mem len (n + length ?ts) q1 = machine_loop ck mem len (n + length ?ts + 1) q2"
      "machine_at p PARSING_VALUE expected bytes parsed q2" "cx_field_tag (ps_ctx q2) = t"
    using equals_round [OF q1(2) v2] le q1(3) by auto
  obtain q3 where q3: "machine_loop ck mem len (n + length ?ts + 1) q2 = machine_loop ck mem len (n + length ?ts + 1 + length v) q3"
      "machine_at p EXPECTING_SOH expected bytes parsed q3" "cx_field_tag (ps_ctx q3) = t" "cx_partial_value (ps_ctx q3) = v"
    using value_round [OF q2(2) v3 assms(6)] le q2(3) by auto
  have l: "n + length (field_text (t, v)) = n + length ?ts + 1 + length v + 1" by (simp add: field_text_def)
  show ?thesis
    unfolding l q1(1) q2(1) q3(1) using le by (intro soh_round [OF q3(2) v4 assms(3) _ q3(3,4) assms(7)]) simp
qed

definition machine_fields :: "fields \<Rightarrow> bool" where
  "machine_fields fs \<longleftrightarrow> (\<forall>(t, v) \<in> set fs. isValidFieldTag t \<and> FIX_SOH \<notin> set v)"

lemma length_field_text: "0 < length (field_text f)"
  by (simp add: field_text_def)

lemma fields_rounds:
  assumes "machine_at p PARSING_TAG (bytes + length (fields_text fs)) bytes parsed q" "view mem len n = fields_text fs @ ys" "ys \<noteq> []" "n \<le> len"
    and "machine_fields fs" "fs \<noteq> []"
  shows "\<exists>q'. machine_loop ck mem len n q = machine_loop ck mem len (n + length (fields_text fs)) q'
    \<and> machine_at p PARSING_CHECKSUM (bytes + length (fields_text fs)) (bytes + length (fields_text fs)) (parsed @ fs) q'"
  using assms
proof (induction fs arbitrary: n bytes parsed q)
  case (Cons f fs)
  obtain t v where f: "f = (t, v)" by (cases f)
  have tv: "isValidFieldTag t" "FIX_SOH \<notin> set v" "machine_fields fs" using Cons.prems(5) by (auto simp: machine_fields_def f)
  let ?l = "length (field_text (t, v))"
  let ?e = "bytes + length (fields_text (f # fs))"
  have vw: "view mem len n = field_text (t, v) @ (fields_text fs @ ys)" using Cons.prems(2) by (simp add: f)
  obtain q1 where q1: "machine_loop ck mem len n q = machine_loop ck mem len (n + ?l) q1"
      "machine_at p (if ?e \<le> bytes + ?l then PARSING_CHECKSUM else PARSING_TAG) ?e (bytes + ?l) (parsed @ [(t, v)]) q1"
    using field_rounds [OF Cons.prems(1) vw _ Cons.prems(4) tv(1,2) refl] Cons.prems(3) by auto
  show ?case
  proof (cases "fs = []")
    case True
    with q1 show ?thesis by (auto simp: f)
  next
    case False
    then obtain g gs where "fs = g # gs" by (cases fs) auto
    then have "0 < length (fields_text fs)" using length_field_text [of g] by simp
    then have "machine_at p PARSING_TAG (bytes + ?l + length (fields_text fs)) (bytes + ?l) (parsed @ [(t, v)]) q1"
      using q1(2) by (simp add: f add.assoc)
    moreover have "n + ?l \<le> len" using view_bound [OF vw Cons.prems(4)] by simp
    ultimately show ?thesis
      using Cons.IH [OF _ view_advance [OF vw] Cons.prems(3) _ tv(3) False] q1(1) by (fastforce simp: f add.assoc)
  qed
qed simp

lemma checksum_round:
  assumes "machine_at p PARSING_CHECKSUM expected bytes parsed q" "view mem len n = field_text (Tag_CheckSum, c) @ ys" "n \<le> len"
    and "length c = 3" "\<forall>x \<in> set c. is_digit x"
  shows "\<exists>q'. machine_loop ck mem len n q = machine_loop ck mem len (n + 7) q'
    \<and> machine_at p MESSAGE_COMPLETE expected bytes (parsed @ [(Tag_CheckSum, c)]) q'"
proof -
  have v: "view mem len n = ''10='' @ c @ FIX_SOH # ys" using assms(2) by (simp add: field_text_CheckSum)
  have avoid: "FIX_SOH \<notin> set c" unfolding FIX_SOH_def by (rule digits_avoid [OF assms(5)]) simp
  have f: "find_char FIX_SOH (CHR ''1'' # CHR ''0'' # CHR ''='' # c @ FIX_SOH # ys) 3 = Some 6"
    using index_of_append [OF avoid, of ys] by (simp add: find_char_def assms(4))
  have c: "substr (CHR ''1'' # CHR ''0'' # CHR ''='' # c @ FIX_SOH # ys) 3 3 = c" by (simp add: substr_def assms(4))
  have d: "list_all is_digit c" using assms(5) by (simp add: list_all_iff)
  obtain q' where "machine_round ck mem len n q = Go_On (n + 7) q'" "machine_at p MESSAGE_COMPLETE expected bytes (parsed @ [(Tag_CheckSum, c)]) q'"
    using assms(1) by (simp add: round_defs handleParsingChecksum_def v f c d assms(4) Let_def)
  with loop_go_on [OF _ assms(3)] show ?thesis by blast
qed

section \<open>Decoding a complete message\<close>

text \<open>The fields the theorem is about: valid tags other than those of the frame, and values without the delimiter.\<close>

definition plain_fields :: "fields \<Rightarrow> bool" where
  "plain_fields fs \<longleftrightarrow> (\<forall>(t, v) \<in> set fs. isValidFieldTag t \<and> \<not> isRequiredField t \<and> FIX_SOH \<notin> set v)"

lemma plain_machine_fields:
  assumes "plain_fields fs" "FIX_SOH \<notin> set ty"
  shows "machine_fields ((Tag_MsgType, ty) # fs)"
  using assms by (auto simp: plain_fields_def machine_fields_def isValidFieldTag_def Tag_MsgType_def)

lemma plain_fields_lookup: "plain_fields fs \<Longrightarrow> isRequiredField t \<Longrightarrow> map_of (rev fs) t = None"
  by (auto simp: plain_fields_def map_of_eq_None_iff)

lemma plain_fields_filter: "plain_fields fs \<Longrightarrow> filter (\<lambda>field. fst field \<noteq> Tag_CheckSum) fs = fs"
  by (auto simp: plain_fields_def filter_id_conv isRequiredField_def)

lemma plain_fields_find: "plain_fields fs \<Longrightarrow> find (\<lambda>field. fst field = Tag_CheckSum) fs = None"
  by (auto simp: plain_fields_def find_None_iff isRequiredField_def)

lemma find_snoc: "find P xs = None \<Longrightarrow> find P (xs @ [y]) = (if P y then Some y else None)"
  by (induction xs) (auto split: if_splits)

abbreviation wire_parsed :: "string \<Rightarrow> fields \<Rightarrow> fields" where
  "wire_parsed ty fs \<equiv> ((Tag_MsgType, ty) # fs) @ [(Tag_CheckSum, wire_checksum ty fs)]"

lemma checksum_digits: "\<forall>c \<in> set (wire_checksum ty fs). is_digit c"
  using padded_digits [of 3] by (simp add: wire_checksum_def utils_calculateChecksum_def)

lemma wire_rounds:
  assumes "machine_at p IDLE expected 0 [] q" "view mem len n = wire_message ty fs @ ys" "n \<le> len"
    and "wire_ok (ps_max_message_size p) ty fs" "plain_fields fs"
  shows "\<exists>q'. machine_loop ck mem len n q = machine_loop ck mem len (n + length (wire_message ty fs)) q'
    \<and> machine_at p MESSAGE_COMPLETE (length (wire_body ty fs)) (length (wire_body ty fs)) (wire_parsed ty fs) q'"
proof -
  let ?b = "wire_body ty fs" and ?c = "field_text (Tag_CheckSum, wire_checksum ty fs) @ ys"
  let ?k = "length (wire_body ty fs)" and ?n = "n + 10"
  let ?ds = "to_string_nat (length (wire_body ty fs))"
  have v: "view mem len n = FIX_BEGIN_STRING @ FIX_SOH # ''9='' @ ?ds @ FIX_SOH # ?b @ ?c"
    using frame_expand [of ?b ?c] assms(2) by (simp add: wire_message_def wire_frame_def FIX_BEGIN_STRING_def)
  have v2: "view mem len ?n = ''9='' @ ?ds @ FIX_SOH # ?b @ ?c"
  proof -
    have "length (FIX_BEGIN_STRING @ [FIX_SOH]) = 10" by (simp add: FIX_BEGIN_STRING_def)
    then show ?thesis using view_advance [of mem len n "FIX_BEGIN_STRING @ [FIX_SOH]", unfolded append_assoc append_Cons append_Nil, OF v] by simp
  qed
  have v3: "view mem len (?n + length ?ds + 3) = ?b @ ?c"
    using view_advance [of mem len ?n "''9='' @ ?ds @ [FIX_SOH]"] v2 by (simp add: ac_simps)
  have v4: "view mem len (?n + length ?ds + 3 + length ?b) = ?c" using view_advance [OF v3] .
  have le: "?n + length ?ds + 3 + length ?b + 7 \<le> len"
    using view_bound [OF assms(2,3)] by (simp add: wire_message_def wire_frame_def length_frame field_text_CheckSum length_checksum)
  have c: "?c \<noteq> []" by (simp add: field_text_CheckSum)
  have k: "0 < ?k" "int ?k \<le> to_int32 (ps_max_message_size p)" using wire_body_not_Nil assms(4) by (auto simp: wire_ok_def)
  obtain q1 where q1: "machine_loop ck mem len n q = machine_loop ck mem len n q1" "machine_at p PARSING_BEGIN_STRING expected 0 [] q1"
    using idle_round [OF assms(1) v _ assms(3)] by auto
  obtain q2 where q2: "machine_loop ck mem len n q1 = machine_loop ck mem len ?n q2" "machine_at p PARSING_BODY_LENGTH expected 0 [] q2"
    using begin_string_round [OF q1(2) v _ assms(3)] by auto
  obtain q3 where q3: "machine_loop ck mem len ?n q2 = machine_loop ck mem len (?n + length ?ds + 3) q3" "machine_at p PARSING_TAG ?k 0 [] q3"
    using body_length_round [OF q2(2) v2 _ _ k] le c by auto
  have b: "?b = fields_text ((Tag_MsgType, ty) # fs)" by (simp add: wire_body_def)
  obtain q4 where q4: "machine_loop ck mem len (?n + length ?ds + 3) q3 = machine_loop ck mem len (?n + length ?ds + 3 + ?k) q4"
      "machine_at p PARSING_CHECKSUM ?k ?k ((Tag_MsgType, ty) # fs) q4"
  proof -
    have "machine_fields ((Tag_MsgType, ty) # fs)" using plain_machine_fields [OF assms(5)] assms(4) by (simp add: wire_ok_def)
    from fields_rounds [OF _ v3 [unfolded b] c _ this, of p 0 "[]" q3, folded b] q3(2) le
    have "\<exists>q'. machine_loop ck mem len (?n + length ?ds + 3) q3 = machine_loop ck mem len (?n + length ?ds + 3 + ?k) q'
        \<and> machine_at p PARSING_CHECKSUM ?k ?k ((Tag_MsgType, ty) # fs) q'"
      by (simp del: add_Suc add_Suc_right)
    then show ?thesis using that by blast
  qed
  have l: "n + length (wire_message ty fs) = ?n + length ?ds + 3 + ?k + 7"
    by (simp add: wire_message_def wire_frame_def length_frame field_text_CheckSum length_checksum)
  show ?thesis
    unfolding l q1(1) q2(1) q3(1) q4(1) using le by (intro checksum_round [OF q4(2) v4 _ length_checksum checksum_digits]) simp
qed

lemma wire_checksum_text: "plain_fields fs \<Longrightarrow> message_for_checksum (wire_parsed ty fs) (length (wire_body ty fs)) = wire_frame ty fs"
  using plain_fields_filter [of fs] frame_expand [of "wire_body ty fs" "[]"]
  by (simp add: message_for_checksum_def wire_frame_def wire_body_def fields_text_def Tag_MsgType_def Tag_CheckSum_def)

lemma assembled_decoded:
  assumes "plain_fields fs" "int (length (wire_body ty fs)) \<le> INT_MAX"
  shows "getField t (assembled (wire_parsed ty fs) (length (wire_body ty fs)) (new_FixMessage (ck_system ck))) = getField t (decoded ck ty fs)"
proof -
  have i: "to_int32 (length (wire_body ty fs)) = int (length (wire_body ty fs))" using assms(2) by (simp add: to_int32_def INT_MAX_def)
  have lookup: "map_of (rev fs) t' = None" if "t' \<in> {Tag_BeginString, Tag_BodyLength, Tag_MsgType, Tag_CheckSum}" for t'
    using plain_fields_lookup [OF assms(1)] that by (simp add: isRequiredField_def)
  show ?thesis
    using lookup
    by (auto simp: assembled_def decoded_def i set_fields_def [symmetric] getField_set_fields getField_setField Let_def
        Tag_BeginString_def Tag_BodyLength_def Tag_MsgType_def Tag_CheckSum_def split: option.splits)
qed

lemma complete_round:
  assumes "machine_at p MESSAGE_COMPLETE (length (wire_body ty fs)) bytes (wire_parsed ty fs) q" "n \<le> len"
    and "wire_ok (ps_max_message_size p) ty fs" "plain_fields fs" "has_room 1 p"
  shows "\<exists>a m q'. machine_loop ck mem len n q = Some (Returns (result Success (n + length (wire_message ty fs)) a IDLE 0), q')
    \<and> a \<notin> dom (parser_heap p) \<and> parser_heap q' = (parser_heap p)(a \<mapsto> m) \<and> pool_inv (ps_pool q')
    \<and> (\<forall>t. getField t m = getField t (decoded ck ty fs)) \<and> cx_state (ps_ctx q') = IDLE"
proof -
  let ?q = "upd_ctx (\<lambda>c. c\<lparr>cx_buffer_position := n\<rparr>) q"
  let ?m = "assembled (wire_parsed ty fs) (length (wire_body ty fs)) (new_FixMessage (ck_system ck))"
  have qs: "ps_pool q = ps_pool p" "cx_state (ps_ctx q) = MESSAGE_COMPLETE" "cx_parsed_fields (ps_ctx q) = wire_parsed ty fs"
    "cx_expected_body_length (ps_ctx q) = length (wire_body ty fs)"
    using assms(1) by (simp_all add: machine_at_def)
  obtain a p1 where new: "new_message ck ?q = (a, p1)" by (cases "new_message ck ?q")
  have a: "a \<noteq> 0" using new_message_laws(3) [OF _ new] assms(5) qs(1) by (simp add: has_room_def)
  have h: "holds_new ?q a p1" using new_message_laws(1) [OF _ new a] assms(5) qs(1) by (simp add: has_room_def)
  have "only_pool ?q p1" using h unfolding holds_new_def by (elim conjE)
  then have c: "ps_ctx p1 = ps_ctx ?q" by (rule only_poolD(3))
  define q' where "q' = upd_ctx reset_context (store_message a ?m p1)"
  have hs: "holds_new ?q a (store_message a ?m p1)" by (rule holds_new_store [OF h])
  have heap: "parser_heap q' = (parser_heap p)(a \<mapsto> ?m)" "a \<notin> dom (parser_heap p)" "pool_inv (ps_pool q')"
    using store_message_heap [OF h, of ?m] h hs qs(1) by (simp_all add: q'_def holds_new_def)
  have f: "find (\<lambda>field. fst field = Tag_CheckSum) (wire_parsed ty fs) = Some (Tag_CheckSum, wire_checksum ty fs)"
    using find_snoc [OF plain_fields_find [OF assms(4)], of "(Tag_CheckSum, wire_checksum ty fs)"] by (simp add: Tag_MsgType_def Tag_CheckSum_def)
  have l: "length FIX_BEGIN_STRING + 1 + length (to_string_nat (length (wire_body ty fs))) + 3 + length (wire_body ty fs) + 7 = length (wire_message ty fs)"
    by (simp add: wire_message_def wire_frame_def length_frame field_text_CheckSum length_checksum FIX_BEGIN_STRING_def)
  have "handleMessageComplete ck ?q = (Returns (result Success (length (wire_message ty fs)) a IDLE 0), q')"
    using a f wire_checksum_text [OF assms(4), of ty] l
    by (simp add: handleMessageComplete_def new c qs Let_def stoi_checksum q'_def store_message_def del: append.simps)
  then have "machine_round ck mem len n q = Stop (Returns (result Success (n + length (wire_message ty fs)) a IDLE 0)) q'"
    using qs(2) by (simp add: machine_round_def dispatch_state_def result_def)
  from loop_stop [OF this assms(2)]
  have "machine_loop ck mem len n q = Some (Returns (result Success (n + length (wire_message ty fs)) a IDLE 0), q')" .
  moreover have "int (length (wire_body ty fs)) \<le> INT_MAX"
    using assms(3) to_int32_le [of "ps_max_message_size p"] by (simp add: wire_ok_def)
  moreover have "cx_state (ps_ctx q') = IDLE" by (simp add: q'_def reset_context_def)
  ultimately show ?thesis using heap assembled_decoded [OF assms(4)] by blast
qed

lemma state_machine_wire:
  assumes "machine_at p IDLE expected 0 [] q" "has_room 1 p" "wire_ok (ps_max_message_size p) ty fs" "plain_fields fs"
    and "take len mem = wire_message ty fs @ rest"
  shows "\<exists>a m q'. processStateMachine ck mem len q = Some (Returns (result Success (2 * length (wire_message ty fs)) a IDLE 0), q')
    \<and> a \<notin> dom (parser_heap p) \<and> parser_heap q' = (parser_heap p)(a \<mapsto> m) \<and> pool_inv (ps_pool q')
    \<and> (\<forall>t. getField t m = getField t (decoded ck ty fs)) \<and> cx_state (ps_ctx q') = IDLE"
proof -
  have v: "view mem len 0 = wire_message ty fs @ rest" by (simp add: view_def assms(5))
  have le: "length (wire_message ty fs) \<le> len" using view_bound [OF v] by simp
  obtain q1 where q1: "machine_loop ck mem len 0 q = machine_loop ck mem len (length (wire_message ty fs)) q1"
      "machine_at p MESSAGE_COMPLETE (length (wire_body ty fs)) (length (wire_body ty fs)) (wire_parsed ty fs) q1"
    using wire_rounds [OF assms(1) v _ assms(3,4)] by auto
  show ?thesis
    using complete_round [OF q1(2) le assms(3,4,2)] unfolding processStateMachine_def q1(1) mult_2 .
qed

text \<open>C11: The state machine decodes what the two-stage decoder decodes. When the bytes kept from earlier calls and the new ones make up a well-formed
  message, whatever follows it, \<open>handlePartialMessage\<close> returns with one fresh message in the pool, which answers every field lookup as the message
  of the two-stage decoder does, and the partial buffer is empty. The number of bytes it reports is twice the length of the message.\<close>

theorem partial_message_decodes:
  assumes "pending pre p" "pre @ chunk = wire_message ty fs @ rest" "length (pre @ chunk) \<le> PARTIAL_BUFFER_SIZE"
    and "wire_ok (ps_max_message_size p) ty fs" "plain_fields fs" "has_room 1 p"
  shows "\<exists>a m q. handlePartialMessage ck chunk p = Some (Returns (result Success (2 * length (wire_message ty fs)) a IDLE 0), q)
    \<and> a \<notin> dom (parser_heap p) \<and> parser_heap q = (parser_heap p)(a \<mapsto> m) \<and> pool_inv (ps_pool q)
    \<and> (\<forall>t. getField t m = getField t (decoded ck ty fs)) \<and> cx_state (ps_ctx q) = IDLE \<and> ps_partial_size q = 0"
proof -
  let ?len = "length pre + length chunk"
  define p1 where "p1 = upd_ctx reset_context (p\<lparr>ps_partial := pre @ chunk @ drop ?len (ps_partial p), ps_partial_size := ?len\<rparr>)"
  have pre: "ps_partial_size p = length pre" "take (length pre) (ps_partial p) = pre" using assms(1) by (simp_all add: pending_def)
  have at1: "machine_at p IDLE 0 0 [] p1" by (simp add: p1_def machine_at_def reset_context_def)
  have tk: "take ?len (ps_partial p1) = wire_message ty fs @ rest" using assms(2) by (simp add: p1_def)
  obtain a m q where q: "processStateMachine ck (ps_partial p1) ?len p1 = Some (Returns (result Success (2 * length (wire_message ty fs)) a IDLE 0), q)"
      "a \<notin> dom (parser_heap p)" "parser_heap q = (parser_heap p)(a \<mapsto> m)" "pool_inv (ps_pool q)"
      "\<forall>t. getField t m = getField t (decoded ck ty fs)" "cx_state (ps_ctx q) = IDLE"
    using state_machine_wire [OF at1 assms(6,4,5) tk, of ck] by (elim exE conjE)
  have "handlePartialMessage ck chunk p
      = Some (Returns (result Success (2 * length (wire_message ty fs)) a IDLE 0), q\<lparr>ps_partial_size := 0\<rparr>)"
    using assms(3) q(1) by (simp add: handlePartialMessage_def pre Let_def p1_def)
  with q show ?thesis by (intro exI [of _ a] exI [of _ m] exI [of _ "q\<lparr>ps_partial_size := 0\<rparr>"]) simp
qed

section \<open>Rounds that go on\<close>

lemmas handler_defs = handleIdleState_def handleParsingBeginString_def handleParsingBodyLength_def handleParsingTag_def handleExpectingEquals_def
  handleParsingValue_def handleExpectingSOH_def handleParsingChecksum_def

text \<open>The context of a parse is well formed: the body bytes counted are those of the fields stored, tags and values are legal, and the state agrees with the
  count of body bytes.\<close>

definition body_wf :: "fields \<Rightarrow> parse_context \<Rightarrow> bool" where
  "body_wf fs c \<longleftrightarrow> machine_fields fs \<and> cx_body_bytes c = length (fields_text fs)"

definition complete_wf :: "parse_context \<Rightarrow> bool" where
  "complete_wf c \<longleftrightarrow> (\<exists>fs value. cx_parsed_fields c = fs @ [(Tag_CheckSum, value)] \<and> length value = 3 \<and> list_all is_digit value \<and> body_wf fs c)"

definition context_wf :: "parse_context \<Rightarrow> bool" where
  "context_wf c \<longleftrightarrow>
     (let body = body_wf (cx_parsed_fields c) c; more = (cx_body_bytes c < cx_expected_body_length c); tag = isValidFieldTag (cx_field_tag c)
      in case cx_state c of
           IDLE \<Rightarrow> cx_parsed_fields c = [] \<and> cx_body_bytes c = 0
         | PARSING_BEGIN_STRING \<Rightarrow> cx_parsed_fields c = [] \<and> cx_body_bytes c = 0
         | PARSING_BODY_LENGTH \<Rightarrow> cx_parsed_fields c = [] \<and> cx_body_bytes c = 0
         | PARSING_TAG \<Rightarrow> body \<and> more
         | EXPECTING_EQUALS \<Rightarrow> body \<and> more \<and> tag
         | PARSING_VALUE \<Rightarrow> body \<and> more \<and> tag
         | EXPECTING_SOH \<Rightarrow> body \<and> more \<and> tag \<and> FIX_SOH \<notin> set (cx_partial_value c)
         | PARSING_CHECKSUM \<Rightarrow> body \<and> \<not> more
         | MESSAGE_COMPLETE \<Rightarrow> complete_wf c \<and> \<not> more
         | _ \<Rightarrow> False)"

fun state_rank :: "parse_state \<Rightarrow> nat" where
  "state_rank IDLE = 1"
| "state_rank PARSING_VALUE = 1"
| "state_rank _ = 0"

text \<open>What a handler of an inner state may do.\<close>

definition inner_step :: "nat \<Rightarrow> parser \<Rightarrow> parse_result outcome \<times> parser \<Rightarrow> bool" where
  "inner_step len p res \<longleftrightarrow>
     (case res of
        (Returns r, q) \<Rightarrow>
          ps_pool q = ps_pool p \<and> pr_message r = 0 \<and> pr_bytes r \<le> len \<and> context_wf (ps_ctx q)
          \<and> (pr_status r = InvalidFormat \<or> pr_status r = FieldParseError \<or> pr_status r = FinishedParsingFields \<and> pr_bytes r > 0
             \<or> pr_status r = NeedMoreData \<and> (if pr_bytes r = 0 then cx_state (ps_ctx q) = cx_state (ps_ctx p) \<or> state_rank (cx_state (ps_ctx q)) < state_rank (cx_state (ps_ctx p)) else True))
      | (Throws e, q) \<Rightarrow> False
      | (Undefined, q) \<Rightarrow> ps_pool q = ps_pool p)"

lemmas inner_defs = inner_step_def advance_def transitionToState_def updateStateStatistics_def context_wf_def Let_def

lemma begin_string_inner:
  "context_wf (ps_ctx p) \<Longrightarrow> cx_state (ps_ctx p) = PARSING_BEGIN_STRING \<Longrightarrow> inner_step (length buf) p (handleParsingBeginString buf p)"
  using find_char_bounds [of FIX_SOH buf]
  by (fastforce simp: inner_defs handleParsingBeginString_def validateBeginString_def split: option.splits if_splits)

lemma body_length_inner:
  "context_wf (ps_ctx p) \<Longrightarrow> cx_state (ps_ctx p) = PARSING_BODY_LENGTH \<Longrightarrow> inner_step (length buf) p (handleParsingBodyLength buf p)"
  using find_char_bounds [of FIX_SOH buf]
  by (fastforce simp: inner_defs handleParsingBodyLength_def validateBodyLength_def body_wf_def machine_fields_def split: option.splits if_splits int_result.splits)

lemma tag_inner:
  "context_wf (ps_ctx p) \<Longrightarrow> cx_state (ps_ctx p) = PARSING_TAG \<Longrightarrow> inner_step (length buf) p (handleParsingTag buf p)"
  using find_char_bounds [of "CHR ''=''" buf 0]
  by (fastforce simp: inner_defs handleParsingTag_def body_wf_def split: option.splits if_splits int_result.splits)

lemma equals_inner:
  "context_wf (ps_ctx p) \<Longrightarrow> cx_state (ps_ctx p) = EXPECTING_EQUALS \<Longrightarrow> inner_step (length buf) p (handleExpectingEquals buf p)"
  by (auto simp: inner_defs handleExpectingEquals_def body_wf_def Suc_le_eq)

lemma index_of_take_None: "index_of c xs = Some i \<Longrightarrow> c \<notin> set (take i xs)"
  by (induction xs arbitrary: i) (auto split: if_splits)

lemma value_inner:
  "context_wf (ps_ctx p) \<Longrightarrow> cx_state (ps_ctx p) = PARSING_VALUE \<Longrightarrow> inner_step (length buf) p (handleParsingValue buf p)"
  using find_char_bounds [of FIX_SOH buf 0] index_of_take_None [of FIX_SOH buf]
  by (fastforce simp: inner_defs handleParsingValue_def body_wf_def find_char_def split: option.splits if_splits)

lemma soh_inner:
  assumes "context_wf (ps_ctx p)" "cx_state (ps_ctx p) = EXPECTING_SOH"
  shows "inner_step (length buf) p (handleExpectingSOH buf p)"
proof -
  let ?c = "ps_ctx p"
  have w: "machine_fields (cx_parsed_fields ?c @ [(cx_field_tag ?c, cx_partial_value ?c)])" "cx_body_bytes ?c = length (fields_text (cx_parsed_fields ?c))"
    using assms by (auto simp: context_wf_def body_wf_def machine_fields_def Let_def)
  have l: "length (fields_text (cx_parsed_fields ?c @ [(cx_field_tag ?c, cx_partial_value ?c)]))
      = Suc (Suc (length (fields_text (cx_parsed_fields ?c)) + length (to_string_int (cx_field_tag ?c)) + length (cx_partial_value ?c)))"
    by (simp add: field_text_def)
  have wf: "context_wf (c\<lparr>cx_state := st\<rparr>)"
    if "machine_fields (cx_parsed_fields c)" "cx_body_bytes c = length (fields_text (cx_parsed_fields c))"
      "st = (if cx_expected_body_length c \<le> cx_body_bytes c then PARSING_CHECKSUM else PARSING_TAG)" for c st
    using that by (simp add: context_wf_def body_wf_def Let_def)
  show ?thesis
    using assms w l by (auto simp: inner_step_def advance_def transitionToState_def updateStateStatistics_def Let_def handleExpectingSOH_def Suc_le_eq intro!: wf)
qed

lemma checksum_inner:
  assumes "context_wf (ps_ctx p)" "cx_state (ps_ctx p) = PARSING_CHECKSUM"
  shows "inner_step (length buf) p (handleParsingChecksum buf p)"
  using assms find_char_bounds [of FIX_SOH buf 3]
  by (fastforce simp: inner_defs handleParsingChecksum_def body_wf_def complete_wf_def substr_def split: option.splits if_splits)

text \<open>A buffer on which the idle state makes no progress: it starts like a message of another version, is long, and holds no start of a message.\<close>

definition stuck_start :: "string \<Rightarrow> nat \<Rightarrow> bool" where
  "stuck_start mem len \<longleftrightarrow> 512 < len \<and> take 5 mem = ''8=FIX'' \<and> search FIX_BEGIN_STRING (take len mem) = None"

lemma match_at_take: "match_at pat xs = Some True \<Longrightarrow> take (length pat) xs = pat"
  by (induction pat xs rule: match_at.induct) (auto split: if_splits)

lemma match_fix: "match_at ''8=FIX'' xs = Some True \<Longrightarrow> take 5 xs = ''8=FIX''"
  using match_at_take [of "''8=FIX''" xs] by (simp add: eval_nat_numeral)

lemma skip_loop_found: "skip_loop mem bound i = Found j \<Longrightarrow> i \<le> j \<and> j < bound \<and> take 5 (drop j mem) = ''8=FIX''"
proof (induction mem bound i rule: skip_loop.induct)
  case (1 mem bound i)
  show ?case
    using 1(2) by (subst (asm) skip_loop.simps) (auto split: if_splits option.splits bool.splits dest: 1(1) match_fix)
qed

lemma recovery_outcome:
  assumes "cx_state (ps_ctx p) = IDLE" "512 < len" "len < 2 ^ 64"
  shows "(\<exists>q. attemptErrorRecovery mem len p = (Undefined, q) \<and> ps_pool q = ps_pool p)
    \<or> (\<exists>q. attemptErrorRecovery mem len p = (Returns (result NeedMoreData len 0 IDLE 0), q) \<and> ps_pool q = ps_pool p \<and> context_wf (ps_ctx q)
         \<and> cx_state (ps_ctx q) = IDLE)
    \<or> (\<exists>q k. attemptErrorRecovery mem len p = (Returns (result StateTransitionError k 0 ERROR_RECOVERY k), q) \<and> k < len \<and> ps_pool q = ps_pool p
         \<and> context_wf (ps_ctx q) \<and> cx_state (ps_ctx q) = IDLE \<and> take 5 (drop k mem) = ''8=FIX'')"
proof -
  have wf: "context_wf (reset_context c)" for c by (simp add: context_wf_def reset_context_def)
  show ?thesis
    using assms skip_loop_found [of mem "unat (of_nat len - 5 :: size_t)" 0]
    by (auto simp: attemptErrorRecovery_def handleErrorRecovery_def skipToNextPotentialMessage_def transitionToState_def updateStateStatistics_def
        wf Let_def reset_context_def context_wf_def split: option.splits search_result.splits)
qed

lemma idle_inner:
  assumes "context_wf (ps_ctx p)" "cx_state (ps_ctx p) = IDLE" "len < 2 ^ 64"
  shows "inner_step len p (handleIdleState mem len p)
    \<or> (\<exists>q k. handleIdleState mem len p = (Returns (result StateTransitionError k 0 ERROR_RECOVERY k), q) \<and> k < len \<and> ps_pool q = ps_pool p
         \<and> context_wf (ps_ctx q) \<and> cx_state (ps_ctx q) = IDLE \<and> (k = 0 \<longrightarrow> stuck_start mem len))"
proof (cases "512 < len \<and> search FIX_BEGIN_STRING (take len mem) = None")
  case True
  then have e: "handleIdleState mem len p = attemptErrorRecovery mem len p" by (simp add: handleIdleState_def)
  consider (undefined) q where "attemptErrorRecovery mem len p = (Undefined, q)" "ps_pool q = ps_pool p"
    | (skipped) q where "attemptErrorRecovery mem len p = (Returns (result NeedMoreData len 0 IDLE 0), q)" "ps_pool q = ps_pool p" "context_wf (ps_ctx q)"
    | (found) q k where "attemptErrorRecovery mem len p = (Returns (result StateTransitionError k 0 ERROR_RECOVERY k), q)" "k < len"
        "ps_pool q = ps_pool p" "context_wf (ps_ctx q)" "cx_state (ps_ctx q) = IDLE" "take 5 (drop k mem) = ''8=FIX''"
    using recovery_outcome [OF assms(2) _ assms(3), of mem] True by blast
  then show ?thesis
  proof cases
    case (found q k)
    then show ?thesis
      using True by (intro disjI2 exI [of _ q] exI [of _ k]) (auto simp: e stuck_start_def)
  qed (use True in \<open>simp_all add: e inner_step_def\<close>)
next
  case False
  have "search pat xs = Some i \<Longrightarrow> i \<le> length xs" for pat xs i by (induction xs arbitrary: i) (auto split: if_splits)
  then have "search FIX_BEGIN_STRING (take len mem) = Some i \<Longrightarrow> i \<le> len" for i by fastforce
  then have "inner_step len p (handleIdleState mem len p)"
    using assms False by (auto simp: inner_defs handleIdleState_def split: option.splits)
  then show ?thesis by simp
qed

text \<open>The last state.\<close>

definition pool_kept :: "parser \<Rightarrow> parser \<Rightarrow> bool" where
  "pool_kept p q \<longleftrightarrow> pool_inv (ps_pool q) \<and> parser_heap q = parser_heap p \<and> p_size (ps_pool q) = p_size (ps_pool p)
     \<and> p_shutdown (ps_pool q) = p_shutdown (ps_pool p)"

definition one_more :: "addr \<Rightarrow> parser \<Rightarrow> parser \<Rightarrow> bool" where
  "one_more a p q \<longleftrightarrow> pool_inv (ps_pool q) \<and> a \<noteq> 0 \<and> a \<notin> dom (parser_heap p) \<and> (\<exists>m. parser_heap q = (parser_heap p)(a \<mapsto> m))"

lemma pool_kept_refl: "pool_inv (ps_pool p) \<Longrightarrow> ps_pool q = ps_pool p \<Longrightarrow> pool_kept p q"
  by (simp add: pool_kept_def)

lemma pool_kept_trans: "pool_kept p q \<Longrightarrow> pool_kept q r \<Longrightarrow> pool_kept p r"
  by (simp add: pool_kept_def)

lemma pool_kept_room: "pool_kept p q \<Longrightarrow> pool_inv (ps_pool p) \<Longrightarrow> has_room n q = has_room n p"
  by (simp add: pool_kept_def has_room_def)

lemma complete_cases:
  assumes "pool_inv (ps_pool p)"
  shows "(\<not> has_room 1 p \<and> (\<exists>q. handleMessageComplete ck p = (Returns (result AllocationFailed 0 0 ERROR_RECOVERY 0), q) \<and> pool_kept p q \<and> ps_ctx q = ps_ctx p))
    \<or> (has_room 1 p \<and> (\<exists>q. handleMessageComplete ck p = (Returns (result ChecksumError 0 0 ERROR_RECOVERY 0), q) \<and> pool_kept p q \<and> ps_ctx q = ps_ctx p))
    \<or> (has_room 1 p \<and> (\<exists>a n q. handleMessageComplete ck p = (Returns (result Success n a IDLE 0), q) \<and> one_more a p q \<and> context_wf (ps_ctx q)))
    \<or> (has_room 1 p \<and> (\<exists>a e q. handleMessageComplete ck p = (Throws e, q) \<and> one_more a p q))"
proof -
  obtain a p1 where new: "new_message ck p = (a, p1)" by (cases "new_message ck p")
  note laws = new_message_laws [OF assms(1) new]
  show ?thesis
  proof (cases "a = 0")
    case True
    then have "\<not> has_room 1 p" "pool_kept p p1" "ps_ctx p1 = ps_ctx p"
      using laws(2,3) only_poolD(3,12,13) [of p p1] by (auto simp: has_room_def pool_kept_def)
    then show ?thesis by (simp add: handleMessageComplete_def new True)
  next
    case False
    let ?m = "assembled (cx_parsed_fields (ps_ctx p)) (cx_expected_body_length (ps_ctx p)) (new_FixMessage (ck_system ck))"
    let ?s = "store_message a ?m p1"
    have room: "has_room 1 p" using laws(3) False assms(1) by (simp add: has_room_def)
    have h: "holds_new p a ?s" by (rule holds_new_store [OF laws(1) [OF False]])
    then have s: "one_more a p ?s" "ps_ctx ?s = ps_ctx p"
      using only_poolD(3) [of p ?s] by (simp_all add: one_more_def holds_new_def)
    have c: "ps_ctx p1 = ps_ctx p" using laws(1) [OF False] only_poolD(3) [of p p1] by (simp add: holds_new_def)
    have free: "pool_kept p (free_message a ?s)" "ps_ctx (free_message a ?s) = ps_ctx p"
      using holds_new_free [OF h, of ChecksumError 0 ERROR_RECOVERY 0] only_poolD(3,12,13) [of p "free_message a ?s"]
      by (simp_all add: accounts_def pool_kept_def)
    have "one_more a p (upd_ctx reset_context ?s)" "context_wf (ps_ctx (upd_ctx reset_context ?s))"
      using s by (simp_all add: one_more_def context_wf_def reset_context_def)
    then show ?thesis
      using room s free False
      by (simp add: handleMessageComplete_def new c Let_def split: option.split sum.split) blast
  qed
qed

lemma inner_dispatch:
  assumes "context_wf (ps_ctx p)" "len \<le> length mem" "cx_state (ps_ctx p) \<noteq> IDLE" "cx_state (ps_ctx p) \<noteq> MESSAGE_COMPLETE"
  shows "inner_step len p (dispatch_state ck mem len p)"
proof -
  have l: "length (take len mem) = len" using assms(2) by simp
  show ?thesis
    using assms(1,3,4) begin_string_inner [of p "take len mem"] body_length_inner [of p "take len mem"] tag_inner [of p "take len mem"]
      equals_inner [of p "take len mem"] value_inner [of p "take len mem"] soh_inner [of p "take len mem"] checksum_inner [of p "take len mem"]
    unfolding l by (cases "cx_state (ps_ctx p)") (simp_all add: dispatch_state_def, simp_all add: context_wf_def)
qed

definition go_on_ok :: "string \<Rightarrow> nat \<Rightarrow> nat \<Rightarrow> parser \<Rightarrow> nat \<Rightarrow> parser \<Rightarrow> bool" where
  "go_on_ok mem len n p n' q \<longleftrightarrow> context_wf (ps_ctx q) \<and> pool_kept p q \<and> n \<le> n' \<and> n' \<le> len
     \<and> (n < n' \<or> state_rank (cx_state (ps_ctx q)) < state_rank (cx_state (ps_ctx p))
        \<or> cx_state (ps_ctx p) = MESSAGE_COMPLETE \<and> \<not> has_room 1 p \<or> cx_state (ps_ctx p) = IDLE \<and> stuck_start (drop n mem) (len - n))"

definition stop_ok :: "parser \<Rightarrow> parse_result outcome \<Rightarrow> parser \<Rightarrow> bool" where
  "stop_ok p out q \<longleftrightarrow>
     (case out of
        Returns r \<Rightarrow> context_wf (ps_ctx q) \<and>
          (if pr_status r = Success then one_more (pr_message r) p q
           else pr_message r = 0 \<and> pool_kept p q \<and> pr_status r \<in> {NeedMoreData, InvalidFormat, FieldParseError, ChecksumError})
      | Throws e \<Rightarrow> \<exists>a. one_more a p q
      | Undefined \<Rightarrow> pool_kept p q)"

definition round_ok :: "string \<Rightarrow> nat \<Rightarrow> nat \<Rightarrow> parser \<Rightarrow> round_result \<Rightarrow> bool" where
  "round_ok mem len n p r = (case r of Go_On n' q \<Rightarrow> go_on_ok mem len n p n' q | Stop out q \<Rightarrow> stop_ok p out q)"

lemma machine_round_ok:
  assumes "context_wf (ps_ctx p)" "pool_inv (ps_pool p)" "n \<le> len" "len \<le> length mem" "len < 2 ^ 64"
  shows "round_ok mem len n p (machine_round ck mem len n p)"
proof -
  let ?p = "upd_ctx (\<lambda>c. c\<lparr>cx_buffer_position := n\<rparr>) p"
  let ?d = "dispatch_state ck (drop n mem) (len - n) ?p"
  have wf: "context_wf (ps_ctx ?p)" and st: "cx_state (ps_ctx ?p) = cx_state (ps_ctx p)"
    using assms(1) by (cases "cx_state (ps_ctx p)"; simp add: context_wf_def body_wf_def complete_wf_def Let_def)+
  have pk: "pool_kept ?p q \<longleftrightarrow> pool_kept p q" "one_more a ?p q \<longleftrightarrow> one_more a p q" "has_room 1 ?p \<longleftrightarrow> has_room 1 p" for a q
    by (simp_all add: pool_kept_def one_more_def has_room_def)
  have pr: "pool_kept p q" if "ps_pool q = ps_pool p" for q using pool_kept_refl [OF assms(2) that] .
  have rec: "ps_pool (recordStateTransition q) = ps_pool q" "ps_ctx (recordStateTransition q) = ps_ctx q"
    "pool_kept p (recordStateTransition q) = pool_kept p q" for q
    by (simp_all add: recordStateTransition_def pool_kept_def)
  have inner: "round_ok mem len n p (machine_round ck mem len n p)" if "inner_step (len - n) ?p ?d"
  proof (cases ?d)
    case (Pair out q)
    show ?thesis
      using that assms(3) st
      by (cases out) (auto simp: Pair inner_step_def machine_round_def round_ok_def go_on_ok_def stop_ok_def rec pr Let_def split: if_splits)
  qed
  have ln: "len - n \<le> length (drop n mem)" "len - n < 2 ^ 64" using assms(4,5) by simp_all
  consider (idle) "cx_state (ps_ctx p) = IDLE" | (complete) "cx_state (ps_ctx p) = MESSAGE_COMPLETE"
    | (other) "cx_state (ps_ctx p) \<noteq> IDLE" "cx_state (ps_ctx p) \<noteq> MESSAGE_COMPLETE" by blast
  then show ?thesis
  proof cases
    case idle
    then have d: "?d = handleIdleState (drop n mem) (len - n) ?p" by (simp add: dispatch_state_def)
    from idle_inner [OF wf _ ln(2), of "drop n mem"] idle inner show ?thesis
      unfolding d
      by (auto simp: machine_round_def dispatch_state_def round_ok_def go_on_ok_def rec pr Let_def)
  next
    case complete
    then have d: "?d = handleMessageComplete ck ?p" by (simp add: dispatch_state_def)
    have "pool_inv (ps_pool ?p)" using assms(2) by simp
    from complete_cases [OF this, of ck, unfolded pk] show ?thesis
      using assms(1,3) complete wf
      by (elim disjE conjE exE) (auto simp: machine_round_def d [simplified] round_ok_def go_on_ok_def stop_ok_def rec Let_def)
  next
    case other
    then show ?thesis using inner inner_dispatch [OF wf ln(1)] st by simp
  qed
qed

section \<open>Results\<close>

lemma stop_ok_kept: "pool_kept p q \<Longrightarrow> stop_ok q out r \<Longrightarrow> stop_ok p out r"
  by (auto simp: stop_ok_def one_more_def pool_kept_def split: outcome.splits if_splits)

lemma machine_loop_stop_ok:
  assumes "machine_loop ck mem len n p = Some (out, q)" "context_wf (ps_ctx p)" "pool_inv (ps_pool p)" "n \<le> len" "len \<le> length mem" "len < 2 ^ 64"
  shows "stop_ok p out q"
proof -
  have "context_wf (ps_ctx p) \<longrightarrow> pool_inv (ps_pool p) \<longrightarrow> n \<le> len \<longrightarrow> len \<le> length mem \<longrightarrow> len < 2 ^ 64 \<longrightarrow> stop_ok p (fst y) (snd y)"
    if "machine_loop ck mem len n p = Some y" for y
    using that
  proof (induction rule: machine_loop.raw_induct [rotated 1, consumes 1])
    case (1 machine_loop ck mem len n p y)
    show ?case
    proof (intro impI)
      assume a: "context_wf (ps_ctx p)" "pool_inv (ps_pool p)" "n \<le> len" "len \<le> length mem" "len < 2 ^ 64"
      note ok = machine_round_ok [OF a, of ck]
      show "stop_ok p (fst y) (snd y)"
      proof (cases "machine_round ck mem len n p")
        case (Stop out q)
        with 1(2) ok a(3) show ?thesis by (auto simp: round_ok_def)
      next
        case (Go_On n' q)
        with ok have g: "go_on_ok mem len n p n' q" by (simp add: round_ok_def)
        have "machine_loop ck mem len n' q = Some y" using 1(2) Go_On a(3) by simp
        from 1(1) [OF this] g a(4,5) have "stop_ok q (fst y) (snd y)" by (simp add: go_on_ok_def pool_kept_def)
        moreover have "pool_kept p q" using g by (simp add: go_on_ok_def)
        ultimately show ?thesis by (rule stop_ok_kept [rotated])
      qed
    qed
  qed
  from this [OF assms(1)] assms(2-) show ?thesis by simp
qed

lemma machine_loop_returns:
  assumes "context_wf (ps_ctx p)" "has_room 1 p" "n \<le> len" "len \<le> length mem" "len < 2 ^ 64" "\<forall>k. \<not> stuck_start (drop k mem) (len - k)"
  shows "\<exists>y. machine_loop ck mem len n p = Some y"
  using assms
proof (induction "2 * (len - n) + state_rank (cx_state (ps_ctx p))" arbitrary: n p rule: less_induct)
  case less
  have inv: "pool_inv (ps_pool p)" using less.prems(2) by (simp add: has_room_def)
  note ok = machine_round_ok [OF less.prems(1) inv less.prems(3-5), of ck]
  show ?case
  proof (cases "machine_round ck mem len n p")
    case (Stop out q)
    then show ?thesis using loop_stop [OF _ less.prems(3)] by blast
  next
    case (Go_On n' q)
    with ok have g: "go_on_ok mem len n p n' q" by (simp add: round_ok_def)
    have room: "has_room 1 q" using g pool_kept_room [OF _ inv] less.prems(2) by (simp add: go_on_ok_def)
    have "state_rank st \<le> 1" for st by (cases st) simp_all
    then have "2 * (len - n') + state_rank (cx_state (ps_ctx q)) < 2 * (len - n) + state_rank (cx_state (ps_ctx p))"
      using g less.prems(2,3) less.prems(6) [rule_format, of n] le_less_trans [of "state_rank (cx_state (ps_ctx q))" 1 2]
      by (auto simp: go_on_ok_def intro: less_le_trans)
    from less.hyps [OF this _ room _ less.prems(4-6)] g loop_go_on [OF Go_On less.prems(3)] show ?thesis by (simp add: go_on_ok_def)
  qed
qed

text \<open>C12: Every result of the state machine is well formed. Started with a well-formed context on any bytes, it leaves a well-formed context: the body bytes
  counted are those of the fields stored, tags and values are legal and the state agrees with the count. A success comes with exactly one fresh message in
  the pool; every other result comes with no message and with the pool as it was; only an exception from converting the checksum leaves a message behind.\<close>

theorem machine_results_typed:
  assumes "processStateMachine ck mem len p = Some (out, q)" "context_wf (ps_ctx p)" "pool_inv (ps_pool p)" "len \<le> length mem" "len < 2 ^ 64"
  shows "pool_inv (ps_pool q) \<and>
    (case out of
       Returns r \<Rightarrow> context_wf (ps_ctx q) \<and>
         (if pr_status r = Success
          then pr_message r \<noteq> 0 \<and> pr_message r \<notin> dom (parser_heap p) \<and> (\<exists>m. parser_heap q = (parser_heap p)(pr_message r \<mapsto> m))
          else pr_message r = 0 \<and> parser_heap q = parser_heap p \<and> pr_status r \<in> {NeedMoreData, InvalidFormat, FieldParseError, ChecksumError})
     | Throws e \<Rightarrow> \<exists>a m. a \<notin> dom (parser_heap p) \<and> parser_heap q = (parser_heap p)(a \<mapsto> m)
     | Undefined \<Rightarrow> parser_heap q = parser_heap p)"
  using machine_loop_stop_ok [OF assms(1) [unfolded processStateMachine_def] assms(2,3) _ assms(4,5)]
  by (auto simp: stop_ok_def one_more_def pool_kept_def split: outcome.splits if_splits)

text \<open>C13: The loop of the state machine ends. On every buffer, from every well-formed context and with a free slot in the pool, it returns a result, unless some
  rest of more than 512 bytes starts with the text of another FIX version and holds no start of a FIX 4.4 message. Both conditions are needed: without a
  free slot, and on such a rest, it can go on forever.\<close>

theorem state_machine_returns:
  assumes "context_wf (ps_ctx p)" "has_room 1 p" "len \<le> length mem" "len < 2 ^ 64" "\<forall>k. \<not> stuck_start (drop k mem) (len - k)"
  shows "\<exists>out q. processStateMachine ck mem len p = Some (out, q)"
  using machine_loop_returns [OF assms(1,2) _ assms(3-5), of 0] by (auto simp: processStateMachine_def)

text \<open>In the situations left out the loop does not return.\<close>

lemma stuck_round:
  assumes "stuck_start mem len" "len \<le> length mem" "len < 2 ^ 64" "cx_state (ps_ctx p) = IDLE"
  shows "\<exists>q. machine_round ck mem len 0 p = Go_On 0 q \<and> cx_state (ps_ctx q) = IDLE"
proof -
  have t: "take 5 mem = ''8=FIX''" "512 < len" "search FIX_BEGIN_STRING (take len mem) = None" using assms(1) by (simp_all add: stuck_start_def)
  have "mem = ''8=FIX'' @ drop 5 mem" using append_take_drop_id [of 5 mem] by (simp only: t(1))
  then have "match_at ''8=FIX'' mem = Some True" using match_at_append [of "''8=FIX''" "drop 5 mem"] by (simp only: )
  moreover have "0 < unat (of_nat len - 5 :: size_t)"
  proof -
    have "unat (of_nat len :: size_t) = len" using assms(3) by (simp add: unat_of_nat)
    then show ?thesis using t(2) by (simp add: unat_sub word_le_nat_alt)
  qed
  ultimately have "skipToNextPotentialMessage mem len 0 = Some 0"
    by (simp add: skipToNextPotentialMessage_def skip_loop.simps [of mem _ 0])
  then show ?thesis
    using t assms(4)
    by (simp add: machine_round_def dispatch_state_def handleIdleState_def attemptErrorRecovery_def handleErrorRecovery_def transitionToState_def
        updateStateStatistics_def recordStateTransition_def reset_context_def Let_def)
qed

lemma machine_loop_stuck:
  assumes "\<And>n p. S n p \<Longrightarrow> n \<le> len \<and> (\<exists>n' q. machine_round ck mem len n p = Go_On n' q \<and> S n' q)" "S n p"
  shows "machine_loop ck mem len n p = None"
proof (rule ccontr)
  assume "machine_loop ck mem len n p \<noteq> None"
  then obtain y where y: "machine_loop ck mem len n p = Some y" by blast
  have "\<forall>n p. ck' = ck \<longrightarrow> mem' = mem \<longrightarrow> len' = len \<longrightarrow> n' = n \<longrightarrow> p' = p \<longrightarrow> \<not> S n p" if "machine_loop ck' mem' len' n' p' = Some z" for ck' mem' len' n' p' z
    using that
  proof (induction rule: machine_loop.raw_induct [rotated 1, consumes 1])
    case (1 machine_loop ck1 mem1 len1 n1 p1 y)
    show ?case
    proof (intro allI impI notI)
      fix n p assume e: "ck1 = ck" "mem1 = mem" "len1 = len" "n1 = n" "p1 = p" and s: "S n p"
      from assms(1) [OF s] obtain n' q where r: "n \<le> len" "machine_round ck mem len n p = Go_On n' q" "S n' q" by blast
      from 1(2) r(1,2) have "machine_loop ck mem len n' q = Some y" by (simp add: e)
      from 1(1) [OF this] r(3) show False by simp
    qed
  qed
  from this [OF y] assms(2) show False by simp
qed

lemma state_machine_hangs_on_version:
  assumes "stuck_start mem len" "len \<le> length mem" "len < 2 ^ 64" "cx_state (ps_ctx p) = IDLE"
  shows "processStateMachine ck mem len p = None"
  unfolding processStateMachine_def
proof (rule machine_loop_stuck [where S = "\<lambda>n p. n = 0 \<and> cx_state (ps_ctx p) = IDLE"])
  fix n :: nat and q :: parser assume "n = 0 \<and> cx_state (ps_ctx q) = IDLE"
  then show "n \<le> len \<and> (\<exists>n' r. machine_round ck mem len n q = Go_On n' r \<and> n' = 0 \<and> cx_state (ps_ctx r) = IDLE)"
    using stuck_round [OF assms(1-3), of q ck] by auto
qed (use assms(4) in simp)

lemma full_pool_round:
  assumes "cx_state (ps_ctx p) = MESSAGE_COMPLETE" "pool_inv (ps_pool p)" "\<not> has_room 1 p"
  shows "\<exists>q. machine_round ck mem len n p = Go_On n q \<and> cx_state (ps_ctx q) = MESSAGE_COMPLETE \<and> pool_inv (ps_pool q) \<and> \<not> has_room 1 q"
proof -
  let ?p = "upd_ctx (\<lambda>c. c\<lparr>cx_buffer_position := n\<rparr>) p"
  have i: "pool_inv (ps_pool ?p)" "\<not> has_room 1 ?p" using assms(2,3) by (simp_all add: has_room_def)
  obtain q where q: "handleMessageComplete ck ?p = (Returns (result AllocationFailed 0 0 ERROR_RECOVERY 0), q)" "pool_kept ?p q" "ps_ctx q = ps_ctx ?p"
    using complete_cases [OF i(1), of ck] i(2) by blast
  have "\<not> has_room 1 q" using pool_kept_room [OF q(2) i(1)] i(2) by simp
  then have "machine_round ck mem len n p = Go_On n (recordStateTransition q) \<and> cx_state (ps_ctx (recordStateTransition q)) = MESSAGE_COMPLETE
      \<and> pool_inv (ps_pool (recordStateTransition q)) \<and> \<not> has_room 1 (recordStateTransition q)"
    using assms(1) q by (simp add: machine_round_def dispatch_state_def recordStateTransition_def pool_kept_def has_room_def)
  then show ?thesis by blast
qed

lemma state_machine_hangs_on_full_pool:
  assumes "context_wf (ps_ctx p)" "cx_state (ps_ctx p) = IDLE" "pool_inv (ps_pool p)" "\<not> has_room 1 p"
    and "wire_ok (ps_max_message_size p) ty fs" "plain_fields fs" "take len mem = wire_message ty fs @ rest"
  shows "processStateMachine ck mem len p = None"
proof -
  let ?n = "length (wire_message ty fs)"
  have at0: "machine_at p IDLE (cx_expected_body_length (ps_ctx p)) 0 [] p" using assms(1,2) by (simp add: machine_at_def context_wf_def)
  have v: "view mem len 0 = wire_message ty fs @ rest" by (simp add: view_def assms(7))
  have le: "?n \<le> len" using view_bound [OF v] by simp
  obtain q where q: "machine_loop ck mem len 0 p = machine_loop ck mem len ?n q"
      "machine_at p MESSAGE_COMPLETE (length (wire_body ty fs)) (length (wire_body ty fs)) (wire_parsed ty fs) q"
    using wire_rounds [OF at0 v _ assms(5,6)] by auto
  have "machine_loop ck mem len ?n q = None"
  proof (rule machine_loop_stuck [where S = "\<lambda>n p. n = ?n \<and> cx_state (ps_ctx p) = MESSAGE_COMPLETE \<and> pool_inv (ps_pool p) \<and> \<not> has_room 1 p"])
    fix n and r :: parser assume "n = ?n \<and> cx_state (ps_ctx r) = MESSAGE_COMPLETE \<and> pool_inv (ps_pool r) \<and> \<not> has_room 1 r"
    then show "n \<le> len \<and> (\<exists>n' q. machine_round ck mem len n r = Go_On n' q
        \<and> n' = ?n \<and> cx_state (ps_ctx q) = MESSAGE_COMPLETE \<and> pool_inv (ps_pool q) \<and> \<not> has_room 1 q)"
      using full_pool_round [of r ck mem len n] le by blast
  qed (use q(2) assms(3,4) in \<open>simp add: machine_at_def has_room_def\<close>)
  then show ?thesis by (simp add: processStateMachine_def q(1))
qed

section \<open>Concrete runs\<close>

abbreviation demo_fields :: fields where
  "demo_fields \<equiv> [(49, ''S''), (56, ''T'')]"

lemma demo_wire: "wire_ok 8192 ''0'' demo_fields" "plain_fields demo_fields" "length (wire_message ''0'' demo_fields) = 37"
proof -
  show "wire_ok 8192 ''0'' demo_fields" using demo_messages(1) by (simp add: message_ok_def)
  show "plain_fields demo_fields"
    by (simp add: plain_fields_def isValidFieldTag_def isRequiredField_def Tag_BeginString_def Tag_BodyLength_def Tag_MsgType_def Tag_CheckSum_def FIX_SOH_def)
  show "length (wire_message ''0'' demo_fields) = 37" by code_simp
qed

lemma demo_machine:
  "\<exists>p. has_room 1 p \<and> context_wf (ps_ctx p) \<and> ps_max_message_size p = 8192 \<and> pending [] p \<and> machine_at p IDLE 0 0 [] p"
proof -
  obtain p where p: "has_room 3 p" "ps_partial_size p = 0" "length (ps_partial p) = PARTIAL_BUFFER_SIZE" "ps_max_message_size p = 8192"
    using demo_parser by blast
  then show ?thesis
    by (intro exI [of _ "upd_ctx reset_context p"])
      (simp add: has_room_def context_wf_def reset_context_def pending_def machine_at_def)
qed

lemma partial_message_decodes_witness:
  "\<exists>p a q. handlePartialMessage demo_clock (wire_message ''0'' demo_fields) p = Some (Returns (result Success 74 a IDLE 0), q) \<and> ps_partial_size q = 0"
proof -
  obtain p where p: "has_room 1 p" "ps_max_message_size p = 8192" "pending [] p" using demo_machine by blast
  have l: "length ([] @ wire_message ''0'' demo_fields) \<le> PARTIAL_BUFFER_SIZE" by (simp add: demo_wire(3) PARTIAL_BUFFER_SIZE_def)
  obtain a m q where "handlePartialMessage demo_clock (wire_message ''0'' demo_fields) p
      = Some (Returns (result Success (2 * length (wire_message ''0'' demo_fields)) a IDLE 0), q)" "ps_partial_size q = 0"
    using partial_message_decodes [OF p(3) _ l, of "''0''" demo_fields "[]" demo_clock] demo_wire(1,2) p(1,2) by auto
  then show ?thesis unfolding demo_wire(3) by auto
qed

lemma machine_results_typed_witness:
  "\<exists>p a q. processStateMachine demo_clock (wire_message ''0'' demo_fields) 37 p = Some (Returns (result Success 74 a IDLE 0), q)
     \<and> a \<noteq> 0 \<and> context_wf (ps_ctx q) \<and> pool_inv (ps_pool q)"
proof -
  obtain p where p: "has_room 1 p" "context_wf (ps_ctx p)" "ps_max_message_size p = 8192" "machine_at p IDLE 0 0 [] p" using demo_machine by blast
  have t: "take 37 (wire_message ''0'' demo_fields) = wire_message ''0'' demo_fields @ []" by (simp add: demo_wire(3))
  obtain a q where q: "processStateMachine demo_clock (wire_message ''0'' demo_fields) 37 p = Some (Returns (result Success 74 a IDLE 0), q)"
    using state_machine_wire [OF p(4,1) _ demo_wire(2) t, of demo_clock] demo_wire(1) p(3) unfolding demo_wire(3) by auto
  have "pool_inv (ps_pool p)" using p(1) by (simp add: has_room_def)
  from machine_results_typed [OF q p(2) this] q show ?thesis by (auto simp: demo_wire(3))
qed

lemma state_machine_returns_witness:
  "\<exists>p out q. processStateMachine demo_clock ''8=FIX.4.2'' 9 p = Some (out, q)"
proof -
  obtain p where p: "has_room 1 p" "context_wf (ps_ctx p)" using demo_machine by blast
  have "\<not> (512::nat) < 9 - k" for k :: nat by linarith
  then have "\<forall>k. \<not> stuck_start (drop k ''8=FIX.4.2'') (9 - k)" by (simp add: stuck_start_def)
  from state_machine_returns [OF p(2,1) _ _ this, of demo_clock] show ?thesis by auto
qed

end
