(* ===== verification/Fix_Gateway.thy ===== *)
theory Fix_Gateway
  imports Stream_Safety Message_Router Tcp_Connection Parser_State_Machine
begin

text \<open>
  \<open>FixGateway\<close> (include/application/fix_gateway.h, src/application/fix_gateway.cpp): the layer that joins the connection, the parser, the
  message pool and the router. The pool is the one the parser refers to, and the priority queues are those of the router. The callbacks that the client may
  register are recorded as events in the order of their calls; they are taken not to throw. An event of the connection is delivered to the
  gateway's handlers after the operation of the connection that caused it, which makes no difference because the handlers do not use the connection. \<open>None\<close> is
  undefined behaviour or the end of the process. Logging is left out.
\<close>

section \<open>State\<close>

datatype gateway_error = Parse_Error | Checksum_Error | Pool_Exhausted | Parse_Exception std_exception | Tcp_Error string | Connection_Lost

datatype gateway_event = Message_Event addr | Error_Event gateway_error

record gateway =
  gw_tcp :: tcp
  gw_parser :: parser
  gw_router :: router
  gw_message_callback :: bool
  gw_error_callback :: bool
  gw_connected :: bool
  gw_events :: "gateway_event list"

abbreviation gw_pool :: "gateway \<Rightarrow> fix_message pool" where
  "gw_pool g \<equiv> ps_pool (gw_parser g)"

text \<open>The memory that the system provides, the uninitialised partial buffer of the parser and the clock are arguments.\<close>

definition new_gateway :: "addr \<Rightarrow> nat \<Rightarrow> string \<Rightarrow> clock \<Rightarrow> size_t \<Rightarrow> queue_container option \<Rightarrow> pool_error + gateway" where
  "new_gateway base slot_bytes garbage ck message_pool_size queues =
    (case newPool base slot_bytes message_pool_size ''message_pool'' of
       Inl e \<Rightarrow> Inl e
     | Inr pool \<Rightarrow>
       let parser = new_parser garbage ck pool;
           priority_queues = (case queues of Some qs \<Rightarrow> qs | None \<Rightarrow> new_container);
           router = router_start (new_router priority_queues);
           tcp = setDisconnectCallback True (tcp_setErrorCallback True (setDataCallback True new_tcp))
       in Inr \<lparr> gw_tcp = tcp, gw_parser = parser, gw_router = router, gw_message_callback = False, gw_error_callback = False,
                gw_connected = False, gw_events = [] \<rparr>)"

definition call_back :: "bool \<Rightarrow> gateway_event \<Rightarrow> gateway \<Rightarrow> gateway" where
  "call_back registered ev g = (if registered then g\<lparr>gw_events := gw_events g @ [ev]\<rparr> else g)"

definition report_error :: "gateway_error \<Rightarrow> gateway \<Rightarrow> gateway" where
  "report_error e g = call_back (gw_error_callback g) (Error_Event e) g"

section \<open>Incoming data\<close>

definition processParsedMessage :: "uint64 \<Rightarrow> addr \<Rightarrow> gateway \<Rightarrow> gateway option" where
  "processParsedMessage elapsed message g =
    (if message = 0 then Some g
     else map_option
       (\<lambda>(router, pool). let g = g\<lparr>gw_router := router, gw_parser := (gw_parser g)\<lparr>ps_pool := pool\<rparr>\<rparr>
                         in call_back (gw_message_callback g) (Message_Event message) g)
       (routeMessage elapsed message (gw_router g, gw_pool g)))"

text \<open>The bytes that may be read from the buffer on are \<open>mem\<close>; \<open>len\<close> of them were received.\<close>

definition onTcpDataReceived :: "clock \<Rightarrow> uint64 \<Rightarrow> string \<Rightarrow> nat \<Rightarrow> gateway \<Rightarrow> gateway option" where
  "onTcpDataReceived ck elapsed mem len g =
    (case parse ck mem len (gw_parser g) of
       (Undefined, p) \<Rightarrow> None
     | (Throws e, p) \<Rightarrow> Some (report_error (Parse_Exception e) (g\<lparr>gw_parser := p\<rparr>))
     | (Returns r, p) \<Rightarrow>
       let g = g\<lparr>gw_parser := p\<rparr>
       in case pr_status r of
            Success \<Rightarrow> processParsedMessage elapsed (pr_message r) g
          | NeedMoreData \<Rightarrow> Some g
          | InvalidFormat \<Rightarrow> Some (report_error Parse_Error g)
          | ChecksumError \<Rightarrow> Some (report_error Checksum_Error g)
          | AllocationFailed \<Rightarrow> Some (report_error Pool_Exhausted g)
          | _ \<Rightarrow> Some g)"

definition onTcpError :: "string \<Rightarrow> gateway \<Rightarrow> gateway" where
  "onTcpError error g = report_error (Tcp_Error error) g"

definition onTcpDisconnect :: "gateway \<Rightarrow> gateway" where
  "onTcpDisconnect g = report_error Connection_Lost (g\<lparr>gw_connected := False\<rparr>)"

text \<open>What is not determined by the event: the clock, the measured time and the bytes of earlier data behind the received ones.\<close>

record arrival =
  ar_clock :: clock
  ar_elapsed :: uint64
  ar_stale :: string

fun deliver_event :: "arrival \<Rightarrow> tcp_event \<Rightarrow> gateway \<Rightarrow> gateway option" where
  "deliver_event ar (Data_Callback data) g = onTcpDataReceived (ar_clock ar) (ar_elapsed ar) (data @ ar_stale ar) (length data) g"
| "deliver_event ar (Error_Callback error) g = Some (onTcpError error g)"
| "deliver_event ar Disconnect_Callback g = Some (onTcpDisconnect g)"

fun deliver :: "(nat \<Rightarrow> arrival) \<Rightarrow> tcp_event list \<Rightarrow> gateway \<Rightarrow> gateway option" where
  "deliver ar [] g = Some g"
| "deliver ar (ev # evs) g = Option.bind (deliver_event (ar 0) ev g) (deliver (\<lambda>k. ar (Suc k)) evs)"

text \<open>The gateway after an operation of its connection.\<close>

definition with_tcp :: "(nat \<Rightarrow> arrival) \<Rightarrow> tcp \<Rightarrow> gateway \<Rightarrow> gateway option" where
  "with_tcp ar t g = deliver ar (drop (length (tc_events (gw_tcp g))) (tc_events t)) (g\<lparr>gw_tcp := t\<rparr>)"

text \<open>The receive thread.\<close>

definition gateway_receive :: "(nat \<Rightarrow> arrival) \<Rightarrow> recv_result list \<Rightarrow> gateway \<Rightarrow> gateway option" where
  "gateway_receive ar results g = with_tcp ar (receiveLoop results (gw_tcp g)) g"

section \<open>Connection\<close>

definition gateway_connect :: "setup_answers \<Rightarrow> string \<Rightarrow> int \<Rightarrow> gateway \<Rightarrow> ((string + bool) \<times> gateway) option" where
  "gateway_connect sa host port g =
    (if gw_connected g then Some (Inr True, g)
     else case tcp_connect sa host port (gw_tcp g) of
            (Inl e, t) \<Rightarrow> Some (Inl e, g\<lparr>gw_tcp := t\<rparr>)
          | (Inr ok, t) \<Rightarrow>
            if ok then map_option (\<lambda>t. (Inr True, g\<lparr>gw_connected := True, gw_tcp := t\<rparr>)) (startReceiveLoop t)
            else Some (Inr False, g\<lparr>gw_tcp := t\<rparr>))"

definition gateway_disconnect :: "gateway \<Rightarrow> gateway" where
  "gateway_disconnect g = (if gw_connected g then g\<lparr>gw_tcp := disconnect (gw_tcp g), gw_connected := False\<rparr> else g)"

definition gateway_isConnected :: "gateway \<Rightarrow> bool" where
  "gateway_isConnected g \<longleftrightarrow> gw_connected g \<and> tc_connected (gw_tcp g)"

definition gateway_destroy :: "gateway \<Rightarrow> gateway" where
  "gateway_destroy g = gateway_disconnect (g\<lparr>gw_router := router_stop (gw_router g)\<rparr>)"

section \<open>Sending\<close>

definition sendRawMessage :: "(nat \<Rightarrow> arrival) \<Rightarrow> send_result list \<Rightarrow> string \<Rightarrow> gateway \<Rightarrow> (bool \<times> gateway) option" where
  "sendRawMessage ar answers fix_message g =
    (if \<not> gw_connected g then Some (False, g)
     else Option.bind (tcp_send fix_message answers (gw_tcp g)) (\<lambda>(ok, t). map_option (\<lambda>g. (ok, g)) (with_tcp ar t g)))"

definition gateway_sendMessage :: "(fields \<Rightarrow> fields) \<Rightarrow> (nat \<Rightarrow> arrival) \<Rightarrow> send_result list \<Rightarrow> addr \<Rightarrow> gateway \<Rightarrow> (bool \<times> gateway) option" where
  "gateway_sendMessage ord ar answers message g =
    (if \<not> gw_connected g \<or> message = 0 then Some (False, g)
     else case pool_heap (gw_pool g) message of
            None \<Rightarrow> None
          | Some m \<Rightarrow>
            let (serialized, m) = toString ord m;
                g = g\<lparr>gw_parser := store_message message m (gw_parser g)\<rparr>
            in Option.bind (tcp_send serialized answers (gw_tcp g)) (\<lambda>(ok, t). map_option (\<lambda>g. (ok, g)) (with_tcp ar t g)))"

section \<open>Configuration and monitoring\<close>

definition setMessageCallback :: "bool \<Rightarrow> gateway \<Rightarrow> gateway" where
  "setMessageCallback b g = g\<lparr>gw_message_callback := b\<rparr>"

definition gateway_setErrorCallback :: "bool \<Rightarrow> gateway \<Rightarrow> gateway" where
  "gateway_setErrorCallback b g = g\<lparr>gw_error_callback := b\<rparr>"

definition getParserStats :: "gateway \<Rightarrow> parser_stats" where
  "getParserStats g = ps_stats (gw_parser g)"

definition resetParserStats :: "gateway \<Rightarrow> gateway" where
  "resetParserStats g = g\<lparr>gw_parser := resetStats (gw_parser g)\<rparr>"

definition gateway_setMaxMessageSize :: "nat \<Rightarrow> gateway \<Rightarrow> gateway" where
  "gateway_setMaxMessageSize max_size g = g\<lparr>gw_parser := setMaxMessageSize max_size (gw_parser g)\<rparr>"

definition gateway_setValidateChecksum :: "bool \<Rightarrow> gateway \<Rightarrow> gateway" where
  "gateway_setValidateChecksum enabled g = g\<lparr>gw_parser := setValidateChecksum enabled (gw_parser g)\<rparr>"

definition gateway_setStrictValidation :: "bool \<Rightarrow> gateway \<Rightarrow> gateway" where
  "gateway_setStrictValidation strict g = g\<lparr>gw_parser := setStrictValidation strict (gw_parser g)\<rparr>"

end
