(* ===== verification/Gateway_Properties.thy ===== *)
theory Gateway_Properties
  imports Fix_Gateway
begin

text \<open>
  The gateway as a whole: received bytes end up as messages in the priority queues, every queued message is live and queued once whatever bytes arrive, and
  with the connection as it is written the gateway is never connected.
\<close>

section \<open>Ownership of the queued messages\<close>

definition queued :: "gateway \<Rightarrow> priority \<Rightarrow> addr list" where
  "queued g pr = contents (getQueue pr (rt_queues (gw_router g)))"

definition gateway_inv :: "gateway \<Rightarrow> bool" where
  "gateway_inv g \<longleftrightarrow> pool_inv (gw_pool g) \<and> container_inv (rt_queues (gw_router g))
     \<and> (\<forall>pr. distinct (queued g pr) \<and> set (queued g pr) \<subseteq> dom (pool_heap (gw_pool g)))
     \<and> (\<forall>pr pr'. pr \<noteq> pr' \<longrightarrow> set (queued g pr) \<inter> set (queued g pr') = {})"

lemma gateway_inv_frame:
  "gw_pool g' = gw_pool g \<Longrightarrow> gw_router g' = gw_router g \<Longrightarrow> gateway_inv g' = gateway_inv g"
  by (simp add: gateway_inv_def queued_def)

lemma call_back_frame [simp]:
  "gw_parser (call_back b ev g) = gw_parser g" "gw_router (call_back b ev g) = gw_router g" "gw_tcp (call_back b ev g) = gw_tcp g"
  "gw_parser (report_error e g) = gw_parser g" "gw_router (report_error e g) = gw_router g" "gw_tcp (report_error e g) = gw_tcp g"
  by (simp_all add: call_back_def report_error_def)

lemma gateway_inv_upd [simp]:
  "gateway_inv (call_back b ev g) = gateway_inv g" "gateway_inv (report_error e g) = gateway_inv g"
  "gateway_inv (g\<lparr>gw_tcp := t\<rparr>) = gateway_inv g" "gateway_inv (g\<lparr>gw_connected := c\<rparr>) = gateway_inv g"
  "gateway_inv (g\<lparr>gw_message_callback := c\<rparr>) = gateway_inv g" "gateway_inv (g\<lparr>gw_error_callback := c\<rparr>) = gateway_inv g"
  by (rule gateway_inv_frame; simp)+

text \<open>A live message that no queue holds is routed to one queue, or dropped when that queue is full.\<close>

lemma processParsedMessage_live:
  assumes "gateway_inv g" "message \<in> dom (pool_heap (gw_pool g))"
  shows "\<exists>g'. processParsedMessage elapsed message g = Some g' \<and> same_messages (gw_pool g) (gw_pool g')
    \<and> container_inv (rt_queues (gw_router g')) \<and> gw_tcp g' = gw_tcp g
    \<and> (\<forall>pr. queued g' pr = (if pr = message_priority (gw_pool g) message
         \<and> fst (push message (getQueue (message_priority (gw_pool g) message) (rt_queues (gw_router g)))) then queued g pr @ [message] else queued g pr))
    \<and> gw_events g' = gw_events g @ (if gw_message_callback g then [Message_Event message] else [])"
proof -
  have inv: "pool_inv (gw_pool g)" "container_inv (rt_queues (gw_router g))" using assms(1) by (simp_all add: gateway_inv_def)
  have nz: "message \<noteq> 0" using mp.null_not_live [OF inv(1)] assms(2) by auto
  obtain r pool where r: "routeMessage elapsed message (gw_router g, gw_pool g) = Some (r, pool)" "same_messages (gw_pool g) pool"
      "container_inv (rt_queues r)"
      "\<And>pr. getQueue pr (rt_queues r) = (if pr = message_priority (gw_pool g) message then snd (push message (getQueue pr (rt_queues (gw_router g))))
         else getQueue pr (rt_queues (gw_router g)))"
    using routeMessage_live [OF inv(1) assms(2) inv(2)] by metis
  let ?g = "g\<lparr>gw_router := r, gw_parser := (gw_parser g)\<lparr>ps_pool := pool\<rparr>\<rparr>"
  let ?g' = "call_back (gw_message_callback g) (Message_Event message) ?g"
  have "processParsedMessage elapsed message g = Some ?g'" by (simp add: processParsedMessage_def nz r(1))
  moreover have "queued ?g' pr = (if pr = message_priority (gw_pool g) message
        \<and> fst (push message (getQueue (message_priority (gw_pool g) message) (rt_queues (gw_router g)))) then queued g pr @ [message] else queued g pr)" for pr
    using lq.put_cont [OF container_inv_queue [OF inv(2), of "message_priority (gw_pool g) message"], of message]
    by (cases "pr = message_priority (gw_pool g) message") (simp_all add: queued_def r(4))
  ultimately show ?thesis using r(2,3) by (intro exI [of _ ?g']) (simp add: call_back_def)
qed

lemma routed_inv:
  assumes "gateway_inv g" "message \<in> dom (pool_heap (gw_pool g))" "\<forall>pr. message \<notin> set (queued g pr)"
    and "same_messages (gw_pool g) (gw_pool g')" "container_inv (rt_queues (gw_router g'))"
    and "\<forall>pr. queued g' pr = (if pr = pr0 \<and> ok then queued g pr @ [message] else queued g pr)"
  shows "gateway_inv g'"
proof -
  have "pool_inv (gw_pool g')" "dom (pool_heap (gw_pool g')) = dom (pool_heap (gw_pool g))" using assms(4) by (simp_all add: same_messages_def)
  then show ?thesis using assms(1,2,3,5) unfolding gateway_inv_def assms(6) [rule_format] by auto
qed

lemma data_inv:
  assumes "gateway_inv g" "onTcpDataReceived ck elapsed mem len g = Some g'"
  shows "gateway_inv g' \<and> gw_tcp g' = gw_tcp g"
proof -
  have inv: "pool_inv (gw_pool g)" using assms(1) by (simp add: gateway_inv_def)
  obtain out p where parse: "parse ck mem len (gw_parser g) = (out, p)" by (cases "parse ck mem len (gw_parser g)")
  have def: "out \<noteq> Undefined" using assms(2) parse by (auto simp: onTcpDataReceived_def)
  have g: "grows (gw_parser g) p" and nt: "\<forall>e. out \<noteq> Throws e" using parse_safe [OF parse inv] def by auto
  then obtain r where r: "out = Returns r" using def by (cases out) auto
  let ?g = "g\<lparr>gw_parser := p\<rparr>"
  have "pool_inv (gw_pool ?g)" "dom (pool_heap (gw_pool g)) \<subseteq> dom (pool_heap (gw_pool ?g))"
    using g by (simp_all add: grows_def map_le_implies_dom_le)
  then have i: "gateway_inv ?g" using assms(1) by (simp add: gateway_inv_def queued_def) blast
  have fresh: "fresh_result (gw_parser g) p r" using parse_fresh [OF parse [unfolded r] inv] .
  show ?thesis
  proof (cases "pr_status r = Success")
    case True
    then have m: "pr_message r \<in> dom (pool_heap (gw_pool ?g))" "pr_message r \<notin> dom (pool_heap (gw_pool g))" using fresh by (auto simp: fresh_result_def)
    have e: "processParsedMessage elapsed (pr_message r) ?g = Some g'" using assms(2) parse r True by (simp add: onTcpDataReceived_def)
    have nq: "\<forall>pr. pr_message r \<notin> set (queued ?g pr)" using m(2) assms(1) by (auto simp: gateway_inv_def queued_def)
    obtain g2 where g2: "processParsedMessage elapsed (pr_message r) ?g = Some g2" "same_messages (gw_pool ?g) (gw_pool g2)"
        "container_inv (rt_queues (gw_router g2))" "gw_tcp g2 = gw_tcp ?g"
        "\<forall>pr. queued g2 pr = (if pr = message_priority (gw_pool ?g) (pr_message r)
           \<and> fst (push (pr_message r) (getQueue (message_priority (gw_pool ?g) (pr_message r)) (rt_queues (gw_router ?g)))) then queued ?g pr @ [pr_message r] else queued ?g pr)"
      using processParsedMessage_live [OF i m(1), of elapsed] by (elim exE conjE)
    have "gateway_inv g2" by (rule routed_inv [OF i m(1) nq g2(2,3,5)])
    with e g2 show ?thesis by simp
  next
    case False
    with assms(2) parse r have "g' = ?g \<or> (\<exists>e. g' = report_error e ?g)" by (cases "pr_status r") (auto simp: onTcpDataReceived_def Let_def)
    then show ?thesis using i by auto
  qed
qed

section \<open>Runs\<close>

lemma deliver_inv: "gateway_inv g \<Longrightarrow> deliver ar evs g = Some g' \<Longrightarrow> gateway_inv g' \<and> gw_tcp g' = gw_tcp g"
proof (induction ar evs g rule: deliver.induct)
  case (2 ar ev evs g)
  obtain g1 where g1: "deliver_event (ar 0) ev g = Some g1" "deliver (\<lambda>k. ar (Suc k)) evs g1 = Some g'"
    using 2(3) by (auto split: bind_splits)
  have "gateway_inv g1 \<and> gw_tcp g1 = gw_tcp g"
    using g1(1) data_inv [OF 2(2)] 2(2) by (cases ev) (auto simp: onTcpError_def onTcpDisconnect_def)
  with 2(1) [OF g1(1) _ g1(2)] show ?case by simp
qed simp

lemma with_tcp_inv:
  assumes "gateway_inv g" "with_tcp ar t g = Some g'"
  shows "gateway_inv g' \<and> gw_tcp g' = t"
proof -
  have "gateway_inv (g\<lparr>gw_tcp := t\<rparr>)" using assms(1) by simp
  from deliver_inv [OF this assms(2) [unfolded with_tcp_def]] show ?thesis by simp
qed

text \<open>The operations of the gateway, with bytes of any kind arriving, and a component that takes a message from a queue and gives it back to the pool when it
  is done with it.\<close>

inductive gateway_step :: "gateway \<Rightarrow> gateway \<Rightarrow> bool" where
  data: "onTcpDataReceived ck elapsed mem len g = Some g' \<Longrightarrow> gateway_step g g'"
| receive: "gateway_receive ar results g = Some g' \<Longrightarrow> gateway_step g g'"
| connect: "gateway_connect sa host port g = Some (r, g') \<Longrightarrow> gateway_step g g'"
| disconnect: "gateway_step g (gateway_disconnect g)"
| raw: "sendRawMessage ar answers msg g = Some (ok, g') \<Longrightarrow> gateway_step g g'"
| send: "gateway_sendMessage ord ar answers message g = Some (ok, g') \<Longrightarrow> gateway_step g g'"
| message_callback: "gateway_step g (setMessageCallback b g)"
| error_callback: "gateway_step g (gateway_setErrorCallback b g)"
| reset_stats: "gateway_step g (resetParserStats g)"
| max_size: "gateway_step g (gateway_setMaxMessageSize n g)"
| checksum: "gateway_step g (gateway_setValidateChecksum b g)"
| strict: "gateway_step g (gateway_setStrictValidation b g)"
| consume: "tryPop 0 (getQueue pr (rt_queues (gw_router g))) = (True, a, q) \<Longrightarrow>
    gateway_step g (g\<lparr>gw_router := (gw_router g)\<lparr>rt_queues := (rt_queues (gw_router g))[getPriorityIndex pr := q]\<rparr>,
                      gw_parser := (gw_parser g)\<lparr>ps_pool := deallocate a (gw_pool g)\<rparr>\<rparr>)"

inductive_cases gateway_stepE: "gateway_step g g'"

lemma consume_inv:
  assumes "gateway_inv g" "tryPop 0 (getQueue pr (rt_queues (gw_router g))) = (True, a, q)"
  shows "gateway_inv (g\<lparr>gw_router := (gw_router g)\<lparr>rt_queues := (rt_queues (gw_router g))[getPriorityIndex pr := q]\<rparr>,
      gw_parser := (gw_parser g)\<lparr>ps_pool := deallocate a (gw_pool g)\<rparr>\<rparr>)" (is "gateway_inv ?g")
proof -
  let ?qs = "rt_queues (gw_router g)"
  have c: "container_inv ?qs" "pool_inv (gw_pool g)" using assms(1) by (simp_all add: gateway_inv_def)
  note qi = container_inv_queue [OF c(1), of pr]
  have q: "queue_inv q" "contents (getQueue pr ?qs) = a # contents q"
    using lq.get_inv [OF qi, of 0] lq.get_cont [OF qi, of 0] assms(2) by simp_all
  have gq: "getQueue pr' (?qs[getPriorityIndex pr := q]) = (if pr' = pr then q else getQueue pr' ?qs)" for pr' by (rule getQueue_upd [OF c(1)])
  have "container_inv (?qs[getPriorityIndex pr := q])"
    using c(1) q(1) set_update_subset_insert [of ?qs "getPriorityIndex pr" q] by (auto simp: container_inv_def)
  moreover have o: "queued g pr = a # contents q" by (simp add: queued_def q(2))
  moreover have own: "distinct (queued g pr')" "set (queued g pr') \<subseteq> dom (pool_heap (gw_pool g))" for pr'
    using assms(1) unfolding gateway_inv_def by blast+
  moreover have live: "a \<in> dom (pool_heap (gw_pool g))" using own(2) [of pr] unfolding o by simp
  moreover have "pool_inv (deallocate a (gw_pool g))" "dom (pool_heap (deallocate a (gw_pool g))) = dom (pool_heap (gw_pool g)) - {a}"
    using deallocate_laws(1,4) [OF c(2) live] by simp_all
  moreover have n: "queued ?g pr' = (if pr' = pr then contents q else queued g pr')" for pr' by (simp add: queued_def gq)
  moreover have apart: "set (queued g pr1) \<inter> set (queued g pr2) = {}" if "pr1 \<noteq> pr2" for pr1 pr2
    using assms(1) that unfolding gateway_inv_def by blast
  moreover have "distinct (queued ?g pr') \<and> set (queued ?g pr') \<subseteq> dom (pool_heap (gw_pool g)) - {a}" for pr'
  proof (cases "pr' = pr")
    case True
    then show ?thesis unfolding n using own [of pr] unfolding o by auto
  next
    case False
    then show ?thesis unfolding n using own [of pr'] apart [OF False] unfolding o by auto
  qed
  moreover have "set (queued ?g pr1) \<inter> set (queued ?g pr2) = {}" if "pr1 \<noteq> pr2" for pr1 pr2
  proof -
    have "set (queued ?g x) \<subseteq> set (queued g x)" for x unfolding n by (cases "x = pr") (auto simp: o)
    with apart [OF that] show ?thesis by blast
  qed
  ultimately show ?thesis unfolding gateway_inv_def by (intro conjI allI impI) simp_all
qed

lemma gateway_inv_parser: "ps_pool p = gw_pool g \<Longrightarrow> gateway_inv (g\<lparr>gw_parser := p\<rparr>) = gateway_inv g"
  by (rule gateway_inv_frame) simp_all

lemma store_message_inv:
  assumes "gateway_inv g"
  shows "gateway_inv (g\<lparr>gw_parser := store_message a m (gw_parser g)\<rparr>)"
proof -
  have "pool_inv (gw_pool g)" using assms by (simp add: gateway_inv_def)
  from modify_at_laws(1,2) [OF this, of a "\<lambda>_. m"]
  have "pool_inv (ps_pool (store_message a m (gw_parser g)))" "dom (parser_heap (store_message a m (gw_parser g))) = dom (parser_heap (gw_parser g))"
    by (auto simp: store_message_def)
  then show ?thesis using assms unfolding gateway_inv_def queued_def by simp
qed

lemma gateway_step_frame:
  assumes "gateway_step g g'" "gateway_inv g"
  shows "gateway_inv g' \<and> tcp_step\<^sup>*\<^sup>* (gw_tcp g) (gw_tcp g')"
  using assms
proof (cases rule: gateway_step.cases)
  case (data ck elapsed mem len)
  then show ?thesis using data_inv [OF assms(2)] by simp
next
  case (receive ar results)
  then show ?thesis
    using with_tcp_inv [OF assms(2)] tcp_step.receive [of "gw_tcp g" results] by (auto simp: gateway_receive_def)
next
  case (connect sa host port r)
  obtain o1 t1 where c: "tcp_connect sa host port (gw_tcp g) = (o1, t1)" by (cases "tcp_connect sa host port (gw_tcp g)")
  have s: "tcp_step (gw_tcp g) t1" using tcp_step.connect [of "gw_tcp g" sa host port] by (simp add: c)
  from connect c have "g' = g \<or> g' = g\<lparr>gw_tcp := t1\<rparr> \<or> (\<exists>t2. startReceiveLoop t1 = Some t2 \<and> g' = g\<lparr>gw_connected := True, gw_tcp := t2\<rparr>)"
    by (auto simp: gateway_connect_def split: if_splits sum.splits)
  then show ?thesis using assms(2) s tcp_step.start [of t1] by (auto intro: rtranclp.rtrancl_into_rtrancl [of tcp_step])
next
  case disconnect
  then show ?thesis using assms(2) tcp_step.disconnect [of "gw_tcp g"] by (simp add: gateway_disconnect_def r_into_rtranclp)
next
  case (raw ar answers msg ok)
  then have "g' = g \<or> (\<exists>t. tcp_send msg answers (gw_tcp g) = Some (ok, t) \<and> with_tcp ar t g = Some g')"
    by (auto simp: sendRawMessage_def split: if_splits bind_splits)
  then show ?thesis using assms(2) with_tcp_inv [OF assms(2)] tcp_step.send [of _ answers "gw_tcp g"] by blast
next
  case (send ord ar answers message ok)
  then have "g' = g \<or> (\<exists>m s t. tcp_send s answers (gw_tcp g) = Some (ok, t) \<and> with_tcp ar t (g\<lparr>gw_parser := store_message message m (gw_parser g)\<rparr>) = Some g')"
    by (auto simp: gateway_sendMessage_def Let_def split: if_splits option.splits prod.splits bind_splits)
  then show ?thesis using assms(2) with_tcp_inv [OF store_message_inv [OF assms(2)]] tcp_step.send [of _ answers "gw_tcp g"] by blast
next
  case (consume pr a q)
  then show ?thesis using consume_inv [OF assms(2) consume(2)] by simp
qed (simp_all add: setMessageCallback_def gateway_setErrorCallback_def resetParserStats_def resetStats_def gateway_setMaxMessageSize_def setMaxMessageSize_def
    gateway_setValidateChecksum_def setValidateChecksum_def gateway_setStrictValidation_def setStrictValidation_def gateway_inv_parser)

lemma gateway_run_frame:
  assumes "gateway_step\<^sup>*\<^sup>* g g'" "gateway_inv g"
  shows "gateway_inv g' \<and> tcp_step\<^sup>*\<^sup>* (gw_tcp g) (gw_tcp g')"
  using assms(1) by (induction rule: rtranclp_induct) (use assms(2) gateway_step_frame in \<open>auto intro: rtranclp_trans\<close>)

lemma new_gateway_inv:
  assumes "new_gateway base slot_bytes garbage ck n None = Inr g" "0 < base" "0 < slot_bytes" "unat n < 2 ^ 31"
  shows "gateway_inv g \<and> silent (gw_tcp g)"
proof -
  obtain pool where pool: "newPool base slot_bytes n ''message_pool'' = Inr pool" "gw_pool g = pool" "rt_queues (gw_router g) = new_container"
      "gw_tcp g = setDisconnectCallback True (tcp_setErrorCallback True (setDataCallback True new_tcp))"
    using assms(1) by (auto simp: new_gateway_def new_parser_def router_start_def new_router_def Let_def split: sum.splits)
  have e: "queued g pr = []" for pr
    by (cases pr) (simp_all add: queued_def pool(3) new_container_def getQueue_def contents_newQueue)
  have "silent (gw_tcp g)" by (simp add: pool(4) silent_def setDisconnectCallback_def tcp_setErrorCallback_def setDataCallback_def new_tcp_def)
  with newPool_inv [OF pool(1) assms(2-4)] new_container_inv(1) show ?thesis unfolding gateway_inv_def e by (simp add: pool(2,3))
qed

text \<open>C6: Ownership of received messages. Whatever bytes arrive, in whatever pieces, and whatever operations the clients call, every message in a priority queue is
  live in the pool and is queued once, in one queue only; taking a message from a queue and giving it back to the pool keeps it so. The pool and
  the queues stay consistent.\<close>

theorem gateway_reachable:
  assumes "new_gateway base slot_bytes garbage ck n None = Inr g0" "0 < base" "0 < slot_bytes" "unat n < 2 ^ 31" "gateway_step\<^sup>*\<^sup>* g0 g"
  shows "pool_inv (gw_pool g) \<and> container_inv (rt_queues (gw_router g))
    \<and> (\<forall>pr. distinct (queued g pr) \<and> set (queued g pr) \<subseteq> dom (pool_heap (gw_pool g)))
    \<and> (\<forall>pr pr'. pr \<noteq> pr' \<longrightarrow> set (queued g pr) \<inter> set (queued g pr') = {})"
  using gateway_run_frame [OF assms(5)] new_gateway_inv [OF assms(1-4)] unfolding gateway_inv_def by blast

text \<open>C39: The gateway is never connected. Even after \<open>connect\<close> has returned true, \<open>isConnected\<close> is false, \<open>sendMessage\<close> and \<open>sendRawMessage\<close> return false
  for every message, the system has been given no byte, and the receive thread delivers nothing.\<close>

theorem gateway_never_connected:
  assumes "new_gateway base slot_bytes garbage ck n None = Inr g0" "0 < base" "0 < slot_bytes" "unat n < 2 ^ 31" "gateway_step\<^sup>*\<^sup>* g0 g"
  shows "\<not> gateway_isConnected g \<and> tc_sent (gw_tcp g) = [] \<and> sendRawMessage ar answers msg g = Some (False, g)
    \<and> (\<forall>message \<in> dom (pool_heap (gw_pool g)). \<exists>g'. gateway_sendMessage ord ar answers message g = Some (False, g') \<and> gw_tcp g' = gw_tcp g)
    \<and> gateway_receive ar results g = Some (g\<lparr>gw_tcp := (gw_tcp g)\<lparr>tc_receiving := False\<rparr>\<rparr>)"
proof -
  have s: "silent (gw_tcp g)"
    using gateway_run_frame [OF assms(5)] new_gateway_inv [OF assms(1-4)] tcp_run_silent by blast
  then have n: "\<not> tc_connected (gw_tcp g)" "tc_sent (gw_tcp g) = []" by (simp_all add: silent_def)
  have send: "tcp_send m answers (gw_tcp g) = Some (False, gw_tcp g)" for m using n(1) by (simp add: tcp_send_def)
  have idle: "with_tcp ar (gw_tcp h) h = Some h" for h by (simp add: with_tcp_def)
  have "sendRawMessage ar answers msg g = Some (False, g)" by (simp add: sendRawMessage_def send idle)
  moreover have "\<exists>g'. gateway_sendMessage ord ar answers message g = Some (False, g') \<and> gw_tcp g' = gw_tcp g"
    if live: "message \<in> dom (pool_heap (gw_pool g))" for message
  proof -
    obtain m where m: "pool_heap (gw_pool g) message = Some m" using live by auto
    obtain t m' where t: "toString ord m = (t, m')" by (cases "toString ord m")
    show ?thesis
      using idle [of "g\<lparr>gw_parser := store_message message m' (gw_parser g)\<rparr>"] by (simp add: gateway_sendMessage_def m t send Let_def)
  qed
  moreover have "receiveLoop results (gw_tcp g) = (gw_tcp g)\<lparr>tc_receiving := False\<rparr>" using n(1) by (cases results) simp_all
  then have "gateway_receive ar results g = Some (g\<lparr>gw_tcp := (gw_tcp g)\<lparr>tc_receiving := False\<rparr>\<rparr>)" by (simp add: gateway_receive_def with_tcp_def)
  ultimately show ?thesis using n by (simp add: gateway_isConnected_def)
qed

section \<open>From received bytes to the queues\<close>

definition stream_priority :: "clock \<Rightarrow> (string \<times> fields) list \<Rightarrow> priority" where
  "stream_priority ck ws = router_priority (fst (getMsgTypeEnum (decoded ck (fst (last ws)) (snd (last ws)))))"

text \<open>C2: From the wire to the queues. A buffer of well-formed messages of the types with a specialised decoder is decoded completely, each message with its own fields
  into a fresh message of the pool, and the last of them is appended to the queue of its priority and passed to the client's callback. The messages
  before it reach no queue and no callback, and no error is reported.\<close>

theorem gateway_delivers:
  assumes "\<forall>w \<in> set ws. message_ok (ps_max_message_size (gw_parser g)) w" "ws \<noteq> []" "has_room (length ws) (gw_parser g)"
    and "breaker_closed (gw_parser g)" "ps_partial_size (gw_parser g) = 0" "gateway_inv g"
    and "\<not> isShutdown (getQueue (stream_priority ck ws) (rt_queues (gw_router g)))"
    and "length (queued g (stream_priority ck ws)) < usable (getQueue (stream_priority ck ws) (rt_queues (gw_router g)))"
  shows "\<exists>as g'. onTcpDataReceived ck elapsed (wire_stream ws) (length (wire_stream ws)) g = Some g'
    \<and> distinct as \<and> length as = length ws \<and> set as \<inter> dom (pool_heap (gw_pool g)) = {}
    \<and> dom (pool_heap (gw_pool g')) = dom (pool_heap (gw_pool g)) \<union> set as
    \<and> (\<forall>i < length ws. fm_fields (the (pool_heap (gw_pool g') (as ! i))) = fm_fields (decoded ck (fst (ws ! i)) (snd (ws ! i))))
    \<and> (\<forall>pr. queued g' pr = (if pr = stream_priority ck ws then queued g pr @ [last as] else queued g pr))
    \<and> gw_events g' = gw_events g @ (if gw_message_callback g then [Message_Event (last as)] else [])"
proof -
  let ?d = "map (\<lambda>(ty, fs). decoded ck ty fs) ws"
  obtain as q where q: "parse ck (wire_stream ws) (length (wire_stream ws)) (gw_parser g) = (Returns (result Success (length (wire_stream ws)) (last as) IDLE 0), q)"
      "distinct as" "length as = length ws" "0 \<notin> set as" "set as \<inter> dom (parser_heap (gw_parser g)) = {}"
      "parser_heap q = parser_heap (gw_parser g) ++ map_of (zip as ?d)"
    using parse_stream [OF assms(1-5), of ck] by (elim exE conjE)
  have inv: "pool_inv (gw_pool g)" using assms(6) by (simp add: gateway_inv_def)
  have as: "as \<noteq> []" using q(3) assms(2) by auto
  let ?g = "g\<lparr>gw_parser := q\<rparr>" and ?m = "last as"
  have gr: "grows (gw_parser g) q" using parse_safe [OF q(1) inv] by simp
  have heap: "parser_heap q (as ! i) = Some (decoded ck (fst (ws ! i)) (snd (ws ! i)))" if "i < length ws" for i
    using that q(2,3,6) map_of_zip_nth [of as ?d i] by (simp add: map_add_def split_def)
  have "pool_inv (ps_pool q)" "dom (parser_heap (gw_parser g)) \<subseteq> dom (parser_heap q)"
    using gr by (simp_all add: grows_def map_le_implies_dom_le)
  then have i: "gateway_inv ?g" using assms(6) by (simp add: gateway_inv_def queued_def) blast
  have dom: "dom (pool_heap (gw_pool ?g)) = dom (pool_heap (gw_pool g)) \<union> set as" using q(3,6) by auto
  have live: "?m \<in> dom (pool_heap (gw_pool ?g))" using as dom by simp
  have pr: "message_priority (gw_pool ?g) ?m = stream_priority ck ws"
    using heap [of "length ws - 1"] q(3) assms(2) as by (simp add: message_priority_def stream_priority_def last_conv_nth)
  have ok: "fst (push ?m (getQueue (stream_priority ck ws) (rt_queues (gw_router ?g))))"
  proof -
    have "queue_inv (getQueue (stream_priority ck ws) (rt_queues (gw_router g)))" using assms(6) by (intro container_inv_queue) (simp add: gateway_inv_def)
    from lq.put_ok [OF this, of ?m] assms(7,8) show ?thesis by (simp add: queued_def)
  qed
  obtain g' where g': "processParsedMessage elapsed ?m ?g = Some g'" "same_messages (gw_pool ?g) (gw_pool g')"
      "\<forall>pr. queued g' pr = (if pr = stream_priority ck ws then queued ?g pr @ [?m] else queued ?g pr)"
      "gw_events g' = gw_events ?g @ (if gw_message_callback ?g then [Message_Event ?m] else [])"
    using processParsedMessage_live [OF i live, of elapsed, unfolded pr] ok by auto
  have run: "onTcpDataReceived ck elapsed (wire_stream ws) (length (wire_stream ws)) g = Some g'"
    using q(1) g'(1) by (simp add: onTcpDataReceived_def)
  have "fm_fields (the (pool_heap (gw_pool g') (as ! i))) = fm_fields (decoded ck (fst (ws ! i)) (snd (ws ! i)))" if "i < length ws" for i
    using g'(2) heap [OF that] by (force simp: same_messages_def)
  moreover have "dom (pool_heap (gw_pool g')) = dom (pool_heap (gw_pool g)) \<union> set as" using g'(2) dom by (simp add: same_messages_def)
  ultimately show ?thesis
    using run q(2,3,5) g'(3,4) by (intro exI [of _ as] exI [of _ g']) (simp add: queued_def)
qed

text \<open>C7: Messages that are complete are lost when the data end inside a further message. The call decodes them into fresh messages of the pool and keeps the
  rest of the bytes, but none of the messages reaches a queue or the client's callback, no error is reported, and they stay in the pool.\<close>

theorem gateway_loses_messages:
  assumes "pending pre (gw_parser g)" "breaker_closed (gw_parser g)" "chunk \<noteq> []" "pre @ chunk = wire_stream ws @ tail" "chunk_fits pre chunk ws tail"
    and "starts_frame tail us" "tail \<noteq> []" "\<forall>w \<in> set (ws @ us). message_ok (ps_max_message_size (gw_parser g)) w" "has_room (length ws) (gw_parser g)"
  shows "\<exists>as g'. onTcpDataReceived ck elapsed chunk (length chunk) g = Some g'
    \<and> distinct as \<and> length as = length ws \<and> set as \<inter> dom (pool_heap (gw_pool g)) = {}
    \<and> pool_heap (gw_pool g') = pool_heap (gw_pool g) ++ map_of (zip as (map (\<lambda>(ty, fs). decoded ck ty fs) ws))
    \<and> (\<forall>pr. queued g' pr = queued g pr) \<and> gw_events g' = gw_events g \<and> pending tail (gw_parser g')"
proof -
  have "has_room (length ws + 0) (gw_parser g)" using assms(9) by simp
  from parse_chunk [OF assms(1-6,8) this, of ck] obtain out as q where
    q: "parse ck chunk (length chunk) (gw_parser g) = (out, q)" "chunk_answer (length (pre @ chunk)) tail as out"
      "stored (decode_all ck ws) as (gw_parser g) q" "pending tail q"
    by (elim exE conjE)
  obtain r where r: "out = Returns r" "pr_status r = NeedMoreData"
    using q(2) assms(7) by (cases out) (auto simp: chunk_answer_def needs_more_def)
  have "onTcpDataReceived ck elapsed chunk (length chunk) g = Some (g\<lparr>gw_parser := q\<rparr>)"
    using q(1) r by (simp add: onTcpDataReceived_def)
  with q(3,4) show ?thesis
    by (intro exI [of _ as] exI [of _ "g\<lparr>gw_parser := q\<rparr>"]) (simp add: stored_def queued_def)
qed

text \<open>The priority is that of the type of the last message.\<close>

lemma stream_priority_type:
  assumes "ws \<noteq> []" "last ws = (ty, fs)" "Tag_MsgType \<notin> fst ` set fs"
  shows "stream_priority ck ws = router_priority (FixMsgType_fromString (Some ty))"
proof -
  have "map_of (rev fs) Tag_MsgType = None" using assms(3) by (simp add: map_of_eq_None_iff)
  then have "getField Tag_MsgType (decoded ck ty fs) = Some ty"
    by (simp add: decoded_def getField_set_fields getField_setField Tag_MsgType_def Tag_CheckSum_def Tag_BodyLength_def Tag_BeginString_def split: option.split)
  moreover have "\<not> fm_msgTypeCached (decoded ck ty fs)"
    by (simp add: decoded_decoded_body setField_def setFieldInternal_def invalidateCache_def)
  ultimately show ?thesis by (simp add: stream_priority_def assms(2) getMsgTypeEnum_def Let_def)
qed

section \<open>Concrete runs\<close>

lemma demo_gateway:
  "\<exists>g. new_gateway 4096 64 (replicate PARTIAL_BUFFER_SIZE (CHR 0x00)) demo_clock 3 None = Inr g \<and> has_room 3 (gw_parser g)
     \<and> breaker_closed (gw_parser g) \<and> ps_partial_size (gw_parser g) = 0 \<and> ps_max_message_size (gw_parser g) = 8192
     \<and> rt_queues (gw_router g) = new_container \<and> gateway_inv g \<and> length (ps_partial (gw_parser g)) = PARTIAL_BUFFER_SIZE"
proof -
  obtain g where g: "new_gateway 4096 64 (replicate PARTIAL_BUFFER_SIZE (CHR 0x00)) demo_clock 3 None = Inr g" by (simp add: new_gateway_def newPool_def Let_def)
  then obtain pool where pool: "newPool 4096 64 3 ''message_pool'' = Inr pool"
      "gw_parser g = new_parser (replicate PARTIAL_BUFFER_SIZE (CHR 0x00)) demo_clock pool" "rt_queues (gw_router g) = new_container"
    by (auto simp: new_gateway_def router_start_def new_router_def Let_def split: sum.splits)
  have inv: "pool_inv pool" "pool_heap pool = Map.empty" "p_size pool = 3" "\<not> p_shutdown pool" using newPool_inv [OF pool(1)] by auto
  have "has_room 3 (gw_parser g)" "ps_partial_size (gw_parser g) = 0" "ps_max_message_size (gw_parser g) = 8192"
    "length (ps_partial (gw_parser g)) = PARTIAL_BUFFER_SIZE"
    using inv by (simp_all add: pool(2) has_room_def new_parser_def)
  moreover have "breaker_closed (gw_parser g)"
    by (simp add: pool(2) breaker_closed_def new_parser_def shouldActivateCircuitBreaker_def reset_context_def initial_context_def)
  ultimately show ?thesis using g pool(3) new_gateway_inv [OF g] by auto
qed

lemma gateway_delivers_witness:
  "\<exists>g as g'. (let ws = [(''0'', [(49, ''S''), (56, ''T'')]), (''1'', [(112, ''ID'')])]
     in onTcpDataReceived demo_clock 5 (wire_stream ws) (length (wire_stream ws)) g = Some g'
        \<and> length as = 2 \<and> set as \<subseteq> dom (pool_heap (gw_pool g')) \<and> queued g' MEDIUM = [last as] \<and> queued g' LOW = [])"
proof -
  let ?ws = "[(''0'', [(49, ''S''), (56, ''T'')]), (''1'', [(112, ''ID'')])]"
  obtain g where g: "has_room 3 (gw_parser g)" "breaker_closed (gw_parser g)" "ps_partial_size (gw_parser g) = 0"
      "ps_max_message_size (gw_parser g) = 8192" "rt_queues (gw_router g) = new_container" "gateway_inv g"
    using demo_gateway by blast
  have ok: "\<forall>w \<in> set ?ws. message_ok (ps_max_message_size (gw_parser g)) w" using demo_messages g(4) by simp
  have room: "has_room (length ?ws) (gw_parser g)" using g(1) by (simp add: has_room_def)
  have "router_priority (FixMsgType_fromString (Some ''1'')) = MEDIUM" by code_simp
  then have pr: "stream_priority demo_clock ?ws = MEDIUM" using stream_priority_type [of ?ws "''1''" "[(112, ''ID'')]" demo_clock] by (simp add: Tag_MsgType_def)
  have e: "queued g x = []" for x by (cases x) (simp_all add: queued_def g(5) new_container_def getQueue_def)
  have "nextPowerOfTwo 1024 = 1024" by code_simp
  then have q: "\<not> isShutdown (getQueue MEDIUM new_container)" "0 < usable (getQueue MEDIUM new_container)"
    by (simp_all add: usable_def getQueue_def new_container_def newQueue_def isShutdown_def)
  have pre: "\<not> isShutdown (getQueue (stream_priority demo_clock ?ws) (rt_queues (gw_router g)))"
    "length (queued g (stream_priority demo_clock ?ws)) < usable (getQueue (stream_priority demo_clock ?ws) (rt_queues (gw_router g)))"
    unfolding pr g(5) e using q by simp_all
  obtain as g' where r: "onTcpDataReceived demo_clock 5 (wire_stream ?ws) (length (wire_stream ?ws)) g = Some g'" "length as = length (?ws :: (string \<times> fields) list)"
      "dom (pool_heap (gw_pool g')) = dom (pool_heap (gw_pool g)) \<union> set as"
      "\<forall>x. queued g' x = (if x = MEDIUM then queued g x @ [last as] else queued g x)"
    using gateway_delivers [OF ok list.distinct(2) room g(2,3,6) pre, of 5, unfolded pr] by (elim exE conjE)
  then show ?thesis unfolding Let_def by (intro exI [of _ g] exI [of _ as] exI [of _ g']) (simp add: e)
qed

lemma gateway_loses_messages_witness:
  "\<exists>g a g'. (let v = wire_message ''0'' [(49, ''S''), (56, ''T'')]; w = wire_message ''1'' [(112, ''ID'')]; chunk = v @ take 12 w
     in onTcpDataReceived demo_clock 5 chunk (length chunk) g = Some g' \<and> a \<in> dom (pool_heap (gw_pool g')) \<and> (\<forall>pr. queued g' pr = []) \<and> gw_events g' = gw_events g)"
proof -
  let ?x = "(''0'', [(49, ''S''), (56, ''T'')])" and ?y = "(''1'', [(112, ''ID'')])" and ?w = "wire_message ''1'' [(112, ''ID'')]"
  let ?tail = "take 12 ?w" and ?ws = "[(''0'', [(49, ''S''), (56, ''T'')])]"
  let ?chunk = "wire_message ''0'' [(49, ''S''), (56, ''T'')] @ ?tail"
  obtain g :: gateway where g: "has_room 3 (gw_parser g)" "breaker_closed (gw_parser g)" "ps_partial_size (gw_parser g) = 0"
      "ps_max_message_size (gw_parser g) = 8192" "rt_queues (gw_router g) = new_container" "length (ps_partial (gw_parser g)) = PARTIAL_BUFFER_SIZE"
    using demo_gateway by blast
  have e: "queued g x = []" for x by (cases x) (simp_all add: queued_def g(5) new_container_def getQueue_def)
  have l: "length (wire_frame ''1'' [(112, ''ID'')]) = 27" by code_simp
  then have lw: "length ?w = 34" using length_wire_message [of "''1''" "[(112, ''ID'')]"] by simp
  then have nt: "?tail \<noteq> []" "?chunk \<noteq> []" by auto
  have t: "?tail = take 12 (wire_frame ''1'' [(112, ''ID'')])" using l by (simp add: wire_message_def)
  have h: "pending [] (gw_parser g)" "[] @ ?chunk = wire_stream ?ws @ ?tail" "chunk_fits [] ?chunk ?ws ?tail" "starts_frame ?tail [?y]"
      "\<forall>w \<in> set (?ws @ [?y]). message_ok (ps_max_message_size (gw_parser g)) w" "has_room (length ?ws) (gw_parser g)"
    using g lw l demo_messages by (simp_all add: pending_def chunk_fits_def starts_frame_def PARTIAL_BUFFER_SIZE_def has_room_def t [symmetric])
  obtain as g' where r: "onTcpDataReceived demo_clock 5 ?chunk (length ?chunk) g = Some g'" "length as = length (?ws :: (string \<times> fields) list)"
      "pool_heap (gw_pool g') = pool_heap (gw_pool g) ++ map_of (zip as (map (\<lambda>(ty, fs). decoded demo_clock ty fs) ?ws))"
      "\<forall>pr. queued g' pr = queued g pr" "gw_events g' = gw_events g"
    using gateway_loses_messages [OF h(1) g(2) nt(2) h(2-4) nt(1) h(5,6), of demo_clock 5] by (elim exE conjE)
  have "hd as \<in> dom (pool_heap (gw_pool g'))" using r(2,3) by (cases as) auto
  with r(1,4,5) e show ?thesis unfolding Let_def by (intro exI [of _ g] exI [of _ "hd as"] exI [of _ g']) simp
qed

lemma gateway_reachable_witness:
  "\<exists>g g'. new_gateway 4096 64 (replicate PARTIAL_BUFFER_SIZE (CHR 0x00)) demo_clock 3 None = Inr g \<and> setMessageCallback True g = g' \<and> pool_inv (gw_pool g')"
proof -
  obtain g where g: "new_gateway 4096 64 (replicate PARTIAL_BUFFER_SIZE (CHR 0x00)) demo_clock 3 None = Inr g" using demo_gateway by blast
  have "gateway_step\<^sup>*\<^sup>* g (setMessageCallback True g)" by (rule r_into_rtranclp) (rule gateway_step.message_callback)
  then have "pool_inv (gw_pool (setMessageCallback True g))" using gateway_reachable [OF g] by simp
  with g show ?thesis by blast
qed

lemma gateway_never_connected_witness:
  "\<exists>g g'. gateway_connect \<lparr> sa_resolves = True, sa_socket = True, sa_reuseaddr = True, sa_nodelay = True, sa_keepalive = True, sa_getfl = True,
       sa_nonblock = True, sa_linger = True, sa_connect = 0 \<rparr> ''127.0.0.1'' 9000 g = Some (Inr True, g') \<and> \<not> gateway_isConnected g'"
proof -
  let ?sa = "\<lparr> sa_resolves = True, sa_socket = True, sa_reuseaddr = True, sa_nodelay = True, sa_keepalive = True, sa_getfl = True,
    sa_nonblock = True, sa_linger = True, sa_connect = 0 \<rparr>"
  obtain g where g: "new_gateway 4096 64 (replicate PARTIAL_BUFFER_SIZE (CHR 0x00)) demo_clock 3 None = Inr g" using demo_gateway by blast
  then have t: "\<not> gw_connected g" "\<not> tc_receiving (gw_tcp g)" "\<not> tc_connected (gw_tcp g)"
    by (auto simp: new_gateway_def Let_def setDisconnectCallback_def tcp_setErrorCallback_def setDataCallback_def new_tcp_def split: sum.splits)
  obtain g' where c: "gateway_connect ?sa ''127.0.0.1'' 9000 g = Some (Inr True, g')"
    using t by (simp add: gateway_connect_def tcp_connect_def setupSocketAddress_def createSocket_def configureSocket_def handleConnectionResult_def
        startReceiveLoop_def Let_def)
  have "gateway_step\<^sup>*\<^sup>* g g'" by (rule r_into_rtranclp) (rule gateway_step.connect [OF c])
  then have "\<not> gateway_isConnected g'" using gateway_never_connected [OF g] by simp
  with c show ?thesis by blast
qed

end
