(* ===== verification/Fix_Builder.thy ===== *)
theory Fix_Builder
  imports Fix_Serialisation
begin

text \<open>
  \<open>FixBuilder\<close> of include/protocol/fix_builder.h and src/protocol/fix_builder.cpp: configuration, the
  standard header and trailer, the session and trading messages, the message builder for custom fields,
  statistics and validation.

  The clock is an argument: the two readings of the system clock that stamp a message, in milliseconds, and
  the time the build took, in nanoseconds. Building is \<open>None\<close> where the sequence number would overflow
  an \<open>int\<close>; an exception is a value \<open>Inl\<close>. The overloads that format a \<open>double\<close> are not modelled.
\<close>

section \<open>Configuration and statistics\<close>

record builder_config =
  bc_senderCompID :: string
  bc_targetCompID :: string
  bc_beginString :: string
  bc_autoSequenceNumber :: bool
  bc_autoTimestamp :: bool
  bc_autoBodyLength :: bool
  bc_autoChecksum :: bool
  bc_enforceFieldOrder :: bool

definition BuilderConfig :: builder_config where
  "BuilderConfig =
    \<lparr> bc_senderCompID = [], bc_targetCompID = [], bc_beginString = FIX_VERSION_44, bc_autoSequenceNumber = True,
      bc_autoTimestamp = True, bc_autoBodyLength = True, bc_autoChecksum = True, bc_enforceFieldOrder = True \<rparr>"

record builder_stats =
  bs_attempts :: uint64
  bs_success :: uint64
  bs_failure :: uint64
  bs_totalBuildTimeNanos :: uint64
  bs_averageBuildTimeNanos :: uint64
  bs_lastBuildTimeNanos :: uint64

definition BuilderStats_reset :: builder_stats where
  "BuilderStats_reset =
    \<lparr> bs_attempts = 0, bs_success = 0, bs_failure = 0, bs_totalBuildTimeNanos = 0, bs_averageBuildTimeNanos = 0,
      bs_lastBuildTimeNanos = 0 \<rparr>"

definition updateTiming :: "uint64 \<Rightarrow> builder_stats \<Rightarrow> builder_stats" where
  "updateTiming buildTimeNanos s =
    (let s = s\<lparr>bs_totalBuildTimeNanos := bs_totalBuildTimeNanos s + buildTimeNanos, bs_lastBuildTimeNanos := buildTimeNanos\<rparr>
     in if bs_success s > 0 then s\<lparr>bs_averageBuildTimeNanos := bs_totalBuildTimeNanos s div bs_success s\<rparr> else s)"

record builder =
  fb_config :: builder_config
  fb_nextSeqNum :: int
  fb_stats :: builder_stats

datatype build_error = Invalid_Argument string

definition FixBuilder_of_config :: "builder_config \<Rightarrow> build_error + builder" where
  "FixBuilder_of_config config =
    (if bc_senderCompID config = [] \<or> bc_targetCompID config = []
     then Inl (Invalid_Argument ''SenderCompID and TargetCompID must be provided'')
     else Inr \<lparr> fb_config = config, fb_nextSeqNum = 1, fb_stats = BuilderStats_reset \<rparr>)"

definition FixBuilder :: "string \<Rightarrow> string \<Rightarrow> builder" where
  "FixBuilder senderCompID targetCompID =
    \<lparr> fb_config = BuilderConfig\<lparr>bc_senderCompID := senderCompID, bc_targetCompID := targetCompID\<rparr>, fb_nextSeqNum = 1,
      fb_stats = BuilderStats_reset \<rparr>"

definition updateConfig :: "builder_config \<Rightarrow> builder \<Rightarrow> builder" where
  "updateConfig config b = b\<lparr>fb_config := config\<rparr>"

definition builder_setSenderCompID :: "string \<Rightarrow> builder \<Rightarrow> builder" where
  "builder_setSenderCompID senderID b = b\<lparr>fb_config := (fb_config b)\<lparr>bc_senderCompID := senderID\<rparr>\<rparr>"

definition builder_setTargetCompID :: "string \<Rightarrow> builder \<Rightarrow> builder" where
  "builder_setTargetCompID targetID b = b\<lparr>fb_config := (fb_config b)\<lparr>bc_targetCompID := targetID\<rparr>\<rparr>"

definition setNextSeqNum :: "int \<Rightarrow> builder \<Rightarrow> builder" where
  "setNextSeqNum seqNum b = b\<lparr>fb_nextSeqNum := seqNum\<rparr>"

definition getCurrentSeqNum :: "builder \<Rightarrow> int option" where
  "getCurrentSeqNum b = (if fb_nextSeqNum b = INT_MIN then None else Some (fb_nextSeqNum b - 1))"

definition builder_resetStats :: "builder \<Rightarrow> builder" where
  "builder_resetStats b = b\<lparr>fb_stats := BuilderStats_reset\<rparr>"

section \<open>Building\<close>

record build_clock =
  bk_created :: nat
  bk_stamped :: nat
  bk_elapsed :: uint64

definition addStandardHeader :: "nat \<Rightarrow> string \<Rightarrow> fix_message \<times> builder \<Rightarrow> (fix_message \<times> builder) option" where
  "addStandardHeader now msgType st =
    (let (message, b) = st;
         cfg = fb_config b;
         message = setField Tag_BeginString (bc_beginString cfg) message;
         message = (if \<not> bc_autoBodyLength cfg \<and> \<not> hasField Tag_BodyLength message then setField Tag_BodyLength ''0'' message else message);
         message = (if msgType \<noteq> [] then setField Tag_MsgType msgType message else message);
         message = (if bc_senderCompID cfg \<noteq> [] then setField Tag_SenderCompID (bc_senderCompID cfg) message else message);
         message = (if bc_targetCompID cfg \<noteq> [] then setField Tag_TargetCompID (bc_targetCompID cfg) message else message)
     in Option.bind
          (if bc_autoSequenceNumber cfg
           then if fb_nextSeqNum b = INT_MAX then None
                else Some (setField_int Tag_MsgSeqNum (fb_nextSeqNum b) message, b\<lparr>fb_nextSeqNum := fb_nextSeqNum b + 1\<rparr>)
           else Some (message, b))
          (\<lambda>(message, b). Some (if bc_autoTimestamp cfg then setSendingTime now message else message, b)))"

definition addStandardTrailer :: "builder_config \<Rightarrow> fix_message \<Rightarrow> fix_message" where
  "addStandardTrailer cfg message =
    (if \<not> bc_autoChecksum cfg \<and> \<not> hasField Tag_CheckSum message then setField Tag_CheckSum ''000'' message else message)"

text \<open>The field order is left as it is.\<close>

definition orderFields :: "fix_message \<Rightarrow> fix_message" where
  "orderFields message = message"

definition getHeaderFieldOrder :: "int list" where
  "getHeaderFieldOrder =
    [Tag_BeginString, Tag_BodyLength, Tag_MsgType, Tag_SenderCompID, Tag_TargetCompID, Tag_MsgSeqNum, Tag_SendingTime]"

definition getTrailerFieldOrder :: "int list" where
  "getTrailerFieldOrder = [Tag_CheckSum]"

definition getBodyFieldOrder :: "string \<Rightarrow> int list" where
  "getBodyFieldOrder msgType =
    (if msgType = MsgTypes_NewOrderSingle
     then [Tag_ClOrdID, Tag_Symbol, Tag_Side, Tag_OrderQty, Tag_OrdType, Tag_Price, Tag_TimeInForce] else [])"

definition buildImpl :: "(fields \<Rightarrow> fields) \<Rightarrow> nat \<Rightarrow> fix_message \<Rightarrow> builder \<Rightarrow> ((build_error + string) \<times> builder) option" where
  "buildImpl ord now message b =
    (let workingMessage = FixMessage_copy message
     in Option.bind (addStandardHeader now (getMsgType workingMessage) (workingMessage, b))
          (\<lambda>(workingMessage, b).
             let workingMessage = addStandardTrailer (fb_config b) workingMessage;
                 workingMessage = (if bc_enforceFieldOrder (fb_config b) then orderFields workingMessage else workingMessage);
                 workingMessage = (if bc_autoBodyLength (fb_config b) \<or> bc_autoChecksum (fb_config b)
                                   then updateLengthAndChecksum workingMessage else workingMessage)
             in Some (Inr (fst (toString ord workingMessage)), b)))"

definition endTiming :: "uint64 \<Rightarrow> builder \<Rightarrow> builder" where
  "endTiming elapsed b = b\<lparr>fb_stats := updateTiming elapsed (fb_stats b)\<rparr>"

definition buildMessage :: "(fields \<Rightarrow> fields) \<Rightarrow> build_clock \<Rightarrow> fix_message \<Rightarrow> builder \<Rightarrow> ((build_error + string) \<times> builder) option" where
  "buildMessage ord ck message b =
    (let b = b\<lparr>fb_stats := (fb_stats b)\<lparr>bs_attempts := bs_attempts (fb_stats b) + 1\<rparr>\<rparr>
     in map_option
          (\<lambda>(result, b). case result of
             Inr text \<Rightarrow> (Inr text, endTiming (bk_elapsed ck) (b\<lparr>fb_stats := (fb_stats b)\<lparr>bs_success := bs_success (fb_stats b) + 1\<rparr>\<rparr>))
           | Inl e \<Rightarrow> (Inl e, endTiming (bk_elapsed ck) (b\<lparr>fb_stats := (fb_stats b)\<lparr>bs_failure := bs_failure (fb_stats b) + 1\<rparr>\<rparr>)))
          (buildImpl ord (bk_stamped ck) message b))"

text \<open>The overload on a shared pointer, with \<open>None\<close> for a null pointer.\<close>

definition buildMessage_ptr :: "(fields \<Rightarrow> fields) \<Rightarrow> build_clock \<Rightarrow> fix_message option \<Rightarrow> builder \<Rightarrow> ((build_error + string) \<times> builder) option" where
  "buildMessage_ptr ord ck message b =
    (case message of
       None \<Rightarrow> Some (Inl (Invalid_Argument ''FixMessage pointer cannot be null''), b)
     | Some m \<Rightarrow> buildMessage ord ck m b)"

text \<open>The overload that reports success as a boolean and leaves the output as it was on failure.\<close>

definition buildMessage_to :: "(fields \<Rightarrow> fields) \<Rightarrow> build_clock \<Rightarrow> fix_message \<Rightarrow> string \<Rightarrow> builder \<Rightarrow> (bool \<times> string \<times> builder) option" where
  "buildMessage_to ord ck message output b =
    map_option (\<lambda>(result, b). case result of Inr text \<Rightarrow> (True, text, b) | Inl _ \<Rightarrow> (False, output, b)) (buildMessage ord ck message b)"

section \<open>Session messages\<close>

text \<open>Every one of these builds a fresh message, stamped with the time of its construction.\<close>

definition buildLogon :: "(fields \<Rightarrow> fields) \<Rightarrow> build_clock \<Rightarrow> int \<Rightarrow> int \<Rightarrow> builder \<Rightarrow> ((build_error + string) \<times> builder) option" where
  "buildLogon ord ck heartBeatInterval encryptMethod b =
    (let message = setField Tag_MsgType MsgTypes_Logon (new_FixMessage (bk_created ck));
         message = setField_int Tag_EncryptMethod encryptMethod message;
         message = setField_int Tag_HeartBtInt heartBeatInterval message
     in buildMessage ord ck message b)"

definition buildLogout :: "(fields \<Rightarrow> fields) \<Rightarrow> build_clock \<Rightarrow> string \<Rightarrow> builder \<Rightarrow> ((build_error + string) \<times> builder) option" where
  "buildLogout ord ck reason b =
    (let message = setField Tag_MsgType MsgTypes_Logout (new_FixMessage (bk_created ck));
         message = (if reason \<noteq> [] then setField Tag_Text reason message else message)
     in buildMessage ord ck message b)"

definition buildHeartbeat :: "(fields \<Rightarrow> fields) \<Rightarrow> build_clock \<Rightarrow> string \<Rightarrow> builder \<Rightarrow> ((build_error + string) \<times> builder) option" where
  "buildHeartbeat ord ck testReqID b =
    (let message = setField Tag_MsgType MsgTypes_Heartbeat (new_FixMessage (bk_created ck));
         message = (if testReqID \<noteq> [] then setField Tag_TestReqID testReqID message else message)
     in buildMessage ord ck message b)"

definition buildTestRequest :: "(fields \<Rightarrow> fields) \<Rightarrow> build_clock \<Rightarrow> string \<Rightarrow> builder \<Rightarrow> ((build_error + string) \<times> builder) option" where
  "buildTestRequest ord ck testReqID b =
    (let message = setField Tag_MsgType MsgTypes_TestRequest (new_FixMessage (bk_created ck));
         message = setField Tag_TestReqID testReqID message
     in buildMessage ord ck message b)"

definition buildResendRequest :: "(fields \<Rightarrow> fields) \<Rightarrow> build_clock \<Rightarrow> int \<Rightarrow> int \<Rightarrow> builder \<Rightarrow> ((build_error + string) \<times> builder) option" where
  "buildResendRequest ord ck beginSeqNo endSeqNo b =
    (let message = setField Tag_MsgType MsgTypes_ResendRequest (new_FixMessage (bk_created ck));
         message = setField_int Tag_BeginSeqNo beginSeqNo message;
         message = (if endSeqNo > 0 then setField_int Tag_EndSeqNo endSeqNo message else setField_int Tag_EndSeqNo 0 message)
     in buildMessage ord ck message b)"

definition buildSequenceReset :: "(fields \<Rightarrow> fields) \<Rightarrow> build_clock \<Rightarrow> int \<Rightarrow> bool \<Rightarrow> builder \<Rightarrow> ((build_error + string) \<times> builder) option" where
  "buildSequenceReset ord ck newSeqNo gapFillFlag b =
    (let message = setField Tag_MsgType MsgTypes_SequenceReset (new_FixMessage (bk_created ck));
         message = setField_int Tag_NewSeqNo newSeqNo message;
         message = (if gapFillFlag then setField Tag_GapFillFlag ''Y'' message else message)
     in buildMessage ord ck message b)"

definition buildReject :: "(fields \<Rightarrow> fields) \<Rightarrow> build_clock \<Rightarrow> int \<Rightarrow> string \<Rightarrow> string \<Rightarrow> builder \<Rightarrow> ((build_error + string) \<times> builder) option" where
  "buildReject ord ck refSeqNum refMsgType reason b =
    (let message = setField Tag_MsgType MsgTypes_Reject (new_FixMessage (bk_created ck));
         message = setField_int Tag_RefSeqNum refSeqNum message;
         message = (if refMsgType \<noteq> [] then setField Tag_RefMsgType refMsgType message else message);
         message = (if reason \<noteq> [] then setField Tag_Text reason message else message)
     in buildMessage ord ck message b)"

section \<open>Trading messages\<close>

text \<open>Quantities and prices are passed as text.\<close>

type_synonym quantity = string
type_synonym price = string

definition OrderType_Limit :: string where "OrderType_Limit = ''2''"
definition OrderType_StopLimit :: string where "OrderType_StopLimit = ''4''"

definition buildNewOrderSingle ::
  "(fields \<Rightarrow> fields) \<Rightarrow> build_clock \<Rightarrow> string \<Rightarrow> string \<Rightarrow> string \<Rightarrow> quantity \<Rightarrow> price \<Rightarrow> string \<Rightarrow> string \<Rightarrow> string \<Rightarrow> builder
   \<Rightarrow> ((build_error + string) \<times> builder) option" where
  "buildNewOrderSingle ord ck clOrdID symbol side orderQty price orderType timeInForce account b =
    (let message = setField Tag_MsgType MsgTypes_NewOrderSingle (new_FixMessage (bk_created ck));
         message = setField Tag_ClOrdID clOrdID message;
         message = setField Tag_Symbol symbol message;
         message = setField Tag_Side side message;
         message = setField Tag_OrderQty orderQty message;
         message = setField Tag_OrdType orderType message;
         message = (if orderType = OrderType_Limit \<or> orderType = OrderType_StopLimit then setField Tag_Price price message else message);
         message = setField Tag_TimeInForce timeInForce message;
         message = (if account \<noteq> [] then setField Tag_Account account message else message)
     in buildMessage ord ck message b)"

definition buildExecutionReport ::
  "(fields \<Rightarrow> fields) \<Rightarrow> build_clock \<Rightarrow> string \<Rightarrow> string \<Rightarrow> string \<Rightarrow> string \<Rightarrow> string \<Rightarrow> string \<Rightarrow> quantity \<Rightarrow> quantity \<Rightarrow> price
   \<Rightarrow> quantity \<Rightarrow> quantity \<Rightarrow> price \<Rightarrow> builder \<Rightarrow> ((build_error + string) \<times> builder) option" where
  "buildExecutionReport ord ck orderID execID execType ordStatus symbol side orderQty lastQty lastPx leavesQty cumQty avgPx b =
    (let message = setField Tag_MsgType MsgTypes_ExecutionReport (new_FixMessage (bk_created ck));
         message = setField Tag_OrderID orderID message;
         message = setField Tag_ExecID execID message;
         message = setField Tag_ExecType execType message;
         message = setField Tag_OrdStatus ordStatus message;
         message = setField Tag_Symbol symbol message;
         message = setField Tag_Side side message;
         message = setField Tag_OrderQty orderQty message;
         message = setField Tag_LastQty lastQty message;
         message = setField Tag_LastPx lastPx message;
         message = setField Tag_LeavesQty leavesQty message;
         message = setField Tag_CumQty cumQty message;
         message = setField Tag_AvgPx avgPx message
     in buildMessage ord ck message b)"

section \<open>Messages with custom fields\<close>

text \<open>A \<open>MessageBuilder\<close> holds its message and a reference to the builder it was created by, which is passed to \<open>mb_build\<close>.\<close>

record message_builder =
  mb_message :: fix_message

definition MessageBuilder :: "nat \<Rightarrow> string \<Rightarrow> message_builder" where
  "MessageBuilder now msgType = \<lparr> mb_message = setField Tag_MsgType msgType (new_FixMessage now) \<rparr>"

definition mb_setField :: "int \<Rightarrow> string \<Rightarrow> message_builder \<Rightarrow> message_builder" where
  "mb_setField tag value mb = mb\<lparr>mb_message := setField tag value (mb_message mb)\<rparr>"

definition mb_setField_int :: "int \<Rightarrow> int \<Rightarrow> message_builder \<Rightarrow> message_builder" where
  "mb_setField_int tag value mb = mb\<lparr>mb_message := setField_int tag value (mb_message mb)\<rparr>"

definition mb_setField_char :: "int \<Rightarrow> char \<Rightarrow> message_builder \<Rightarrow> message_builder" where
  "mb_setField_char tag value mb = mb\<lparr>mb_message := setField_char tag value (mb_message mb)\<rparr>"

definition setClOrdID :: "string \<Rightarrow> message_builder \<Rightarrow> message_builder" where
  "setClOrdID clOrdID = mb_setField Tag_ClOrdID clOrdID"

definition setSymbol :: "string \<Rightarrow> message_builder \<Rightarrow> message_builder" where
  "setSymbol symbol = mb_setField Tag_Symbol symbol"

definition setSide :: "string \<Rightarrow> message_builder \<Rightarrow> message_builder" where
  "setSide side = mb_setField Tag_Side side"

definition setOrderQty :: "string \<Rightarrow> message_builder \<Rightarrow> message_builder" where
  "setOrderQty qty = mb_setField Tag_OrderQty qty"

definition setPrice :: "string \<Rightarrow> message_builder \<Rightarrow> message_builder" where
  "setPrice price = mb_setField Tag_Price price"

definition setAccount :: "string \<Rightarrow> message_builder \<Rightarrow> message_builder" where
  "setAccount account = mb_setField Tag_Account account"

definition setText :: "string \<Rightarrow> message_builder \<Rightarrow> message_builder" where
  "setText value = mb_setField Tag_Text value"

definition mb_build :: "(fields \<Rightarrow> fields) \<Rightarrow> build_clock \<Rightarrow> message_builder \<Rightarrow> builder \<Rightarrow> ((build_error + string) \<times> builder) option" where
  "mb_build ord ck mb b = buildMessage ord ck (mb_message mb) b"

definition mb_buildMessage :: "message_builder \<Rightarrow> fix_message" where
  "mb_buildMessage mb = FixMessage_copy (mb_message mb)"

section \<open>Validation\<close>

definition builder_validateMessage :: "fix_message \<Rightarrow> bool" where
  "builder_validateMessage message \<longleftrightarrow>
    hasField Tag_MsgType message
    \<and> list_all (\<lambda>field. hasField field message)
        [Tag_BeginString, Tag_BodyLength, Tag_MsgType, Tag_SenderCompID, Tag_TargetCompID, Tag_MsgSeqNum, Tag_SendingTime]"

definition getValidationErrors :: "fix_message \<Rightarrow> string list" where
  "getValidationErrors message =
    (if \<not> hasField Tag_MsgType message then [''Missing MsgType field (35)''] else [])
    @ (if \<not> hasField Tag_BeginString message then [''Missing BeginString field (8)''] else [])
    @ (if \<not> hasField Tag_SenderCompID message then [''Missing SenderCompID field (49)''] else [])
    @ (if \<not> hasField Tag_TargetCompID message then [''Missing TargetCompID field (56)''] else [])"

end
