(* ===== verification/Builder_Properties.thy ===== *)
theory Builder_Properties
  imports Fix_Builder
begin

text \<open>
  What \<open>FixBuilder\<close> produces: reading a built text back gives the fields of the message and of the standard
  header, consecutive messages carry consecutive sequence numbers, orders arrive complete, and no text built with
  the default configuration passes the checksum verification.
\<close>

section \<open>The fields of the working copy\<close>

definition clean_config :: "builder_config \<Rightarrow> bool" where
  "clean_config cfg \<longleftrightarrow> list_all (\<lambda>v. FIX_SOH \<notin> set v) [bc_beginString cfg, bc_senderCompID cfg, bc_targetCompID cfg]"

definition distinct_tags :: "fix_message \<Rightarrow> bool" where
  "distinct_tags m \<longleftrightarrow> distinct (map fst (fm_fields m))"

text \<open>The fields a message has after the header and the trailer were added, BodyLength and CheckSum apart.\<close>

definition standard_field :: "nat \<Rightarrow> fix_message \<Rightarrow> builder \<Rightarrow> int \<Rightarrow> string option" where
  "standard_field now m b t =
    (if t = Tag_BeginString then Some (bc_beginString (fb_config b))
     else if t = Tag_MsgSeqNum \<and> bc_autoSequenceNumber (fb_config b) then Some (to_string_int (fb_nextSeqNum b))
     else if t = Tag_SendingTime \<and> bc_autoTimestamp (fb_config b) then Some (formatSendingTime now)
     else if t = Tag_SenderCompID \<and> bc_senderCompID (fb_config b) \<noteq> [] then Some (bc_senderCompID (fb_config b))
     else if t = Tag_TargetCompID \<and> bc_targetCompID (fb_config b) \<noteq> [] then Some (bc_targetCompID (fb_config b))
     else getField t m)"

lemma distinct_tags_set [simp]:
  "distinct_tags m \<Longrightarrow> distinct_tags (setField t v m)" "distinct_tags m \<Longrightarrow> distinct_tags (setField_int t i m)"
  "distinct_tags m \<Longrightarrow> distinct_tags (setSendingTime now m)" "distinct_tags m \<Longrightarrow> distinct_tags (FixMessage_copy m)"
  "distinct_tags (invalidateCache m) = distinct_tags m" "distinct_tags (new_FixMessage now)"
  by (simp_all add: distinct_tags_def setField_def setField_int_def setFieldInternal_def setSendingTime_def FixMessage_copy_def
      empty_message_def new_FixMessage_def distinct_update)

lemma distinct_tags_coherent: "distinct_tags m \<Longrightarrow> coherent ord (invalidateCache m)"
  by (simp add: distinct_tags_def coherent_invalidate)

lemma getField_copy [simp]: "getField t (FixMessage_copy m) = getField t m"
  by (simp add: FixMessage_copy_def getField_def)

lemma getField_setSendingTime: "getField t (setSendingTime now m) = (if t = Tag_SendingTime then Some (formatSendingTime now) else getField t m)"
  by (simp add: setSendingTime_def getField_setField)

lemma getField_new: "getField t (new_FixMessage now) = (if t = Tag_SendingTime then Some (formatSendingTime now) else None)"
  by (simp add: new_FixMessage_def getField_setSendingTime) (simp add: getField_def empty_message_def)

lemma getFieldValue_getField: "getFieldValue t m = (case getField t m of Some v \<Rightarrow> v | None \<Rightarrow> [])"
  by (simp add: getFieldValue_def getField_def)

lemma getField_if: "getField t (if P then setField t' v m else m) = (if P \<and> t = t' then Some v else getField t m)"
  by (simp add: getField_setField)

lemmas field_lookups = getField_setField getField_setField_int getField_setSendingTime getField_new int_to_string_eq

lemma clean_fields_iff:
  "distinct_tags m \<Longrightarrow> clean_fields (fm_fields m) \<longleftrightarrow> (\<forall>t v. getField t m = Some v \<longrightarrow> in_int t \<and> FIX_SOH \<notin> set v)"
  by (auto simp: clean_fields_def distinct_tags_def getField_def dest: map_of_SomeD)

lemma to_string_int_clean [simp]: "FIX_SOH \<notin> set (to_string_int i)"
  using to_string_int_avoid(2) by (simp add: FIX_SOH_def)

lemma formatSendingTime_clean [simp]: "FIX_SOH \<notin> set (formatSendingTime now)"
proof -
  have "FIX_SOH \<notin> set (padded w n)" for w n using padded_digits [of w n] by (auto simp: FIX_SOH_def dest: digits_avoid)
  then show ?thesis by (simp add: formatSendingTime_def Let_def case_prod_beta) (simp add: FIX_SOH_def)
qed

lemma in_int_standard_tags [simp]:
  "in_int Tag_BeginString" "in_int Tag_BodyLength" "in_int Tag_CheckSum" "in_int Tag_MsgType" "in_int Tag_MsgSeqNum" "in_int Tag_SendingTime"
  "in_int Tag_SenderCompID" "in_int Tag_TargetCompID"
  by (simp_all add: in_int_def INT_MIN_def INT_MAX_def tag_defs)

definition can_number :: "nat \<Rightarrow> builder \<Rightarrow> bool" where
  "can_number n b \<longleftrightarrow> bc_autoSequenceNumber (fb_config b) \<longrightarrow> fb_nextSeqNum b + int n \<le> INT_MAX"

definition numbered :: "nat \<Rightarrow> builder \<Rightarrow> builder" where
  "numbered n b = (if bc_autoSequenceNumber (fb_config b) then b\<lparr>fb_nextSeqNum := fb_nextSeqNum b + int n\<rparr> else b)"

lemma numbered_simps [simp]:
  "fb_config (numbered n b) = fb_config b" "fb_stats (numbered n b) = fb_stats b"
  by (simp_all add: numbered_def)

lemma setField_uncached [simp]: "\<not> fm_stringCacheValid (setField t v m)" "\<not> fm_stringCacheValid (setField_int t i m)" "\<not> fm_stringCacheValid (invalidateCache m)"
  "\<not> fm_stringCacheValid (setSendingTime now m)"
  by (simp_all add: setField_def setField_int_def setFieldInternal_def invalidateCache_def setSendingTime_def)

lemma addStandardHeader_spec:
  assumes "can_number 1 b" "distinct_tags m"
  shows "\<exists>w. addStandardHeader now (getMsgType m) (m, b) = Some (w, numbered 1 b) \<and> distinct_tags w \<and> \<not> fm_stringCacheValid w
    \<and> (\<forall>t. getField t w = (if t = Tag_BodyLength
         then if bc_autoBodyLength (fb_config b) \<or> hasField t m then getField t m else Some ''0'' else standard_field now m b t))"
proof -
  have t: "getMsgType m = (case getField Tag_MsgType m of Some v \<Rightarrow> v | None \<Rightarrow> [])" by (simp add: getMsgType_def getFieldValue_getField)
  have ty: "getField Tag_MsgType m = Some (getMsgType m)" if "getMsgType m \<noteq> []" using that by (simp add: t split: option.splits)
  show ?thesis
    using assms
    by (cases "bc_autoSequenceNumber (fb_config b)"; cases "bc_autoTimestamp (fb_config b)")
      (simp_all add: addStandardHeader_def Let_def can_number_def numbered_def,
       simp_all add: standard_field_def getField_if field_lookups hasField_getField tag_defs ty [unfolded tag_defs])
qed

section \<open>Building one message\<close>

definition built :: "uint64 \<Rightarrow> builder \<Rightarrow> builder" where
  "built elapsed b =
    endTiming elapsed ((numbered 1 b)\<lparr>fb_stats := (fb_stats b)\<lparr>bs_attempts := bs_attempts (fb_stats b) + 1, bs_success := bs_success (fb_stats b) + 1\<rparr>\<rparr>)"

lemma built_simps [simp]:
  "fb_config (built e b) = fb_config b" "fb_nextSeqNum (built e b) = fb_nextSeqNum (numbered 1 b)"
  "bs_attempts (fb_stats (built e b)) = bs_attempts (fb_stats b) + 1" "bs_success (fb_stats (built e b)) = bs_success (fb_stats b) + 1"
  "bs_failure (fb_stats (built e b)) = bs_failure (fb_stats b)"
  by (simp_all add: built_def endTiming_def updateTiming_def numbered_def Let_def)

lemma standard_field_copy [simp]: "standard_field now (FixMessage_copy m) (b\<lparr>fb_stats := s\<rparr>) = standard_field now m b"
  by (rule ext, cases b) (simp only: standard_field_def getField_copy builder.select_convs builder.update_convs)

lemma standard_field_simps [simp]:
  "standard_field now m b Tag_BeginString = Some (bc_beginString (fb_config b))" "standard_field now m b Tag_MsgType = getField Tag_MsgType m"
  "standard_field now m b Tag_CheckSum = getField Tag_CheckSum m"
  by (simp_all add: standard_field_def tag_defs)

lemma hasField_copy [simp]: "hasField t (FixMessage_copy m) = hasField t m"
  by (simp add: hasField_getField)

lemma getField_trailer:
  "getField t (addStandardTrailer cfg w) = (if t = Tag_CheckSum \<and> \<not> bc_autoChecksum cfg \<and> \<not> hasField t w then Some ''000'' else getField t w)"
  by (auto simp: addStandardTrailer_def field_lookups)

lemma distinct_tags_trailer: "distinct_tags w \<Longrightarrow> distinct_tags (addStandardTrailer cfg w)"
  by (simp add: addStandardTrailer_def)

text \<open>What the text of a build is the serialisation of.\<close>

definition build_of :: "nat \<Rightarrow> fix_message \<Rightarrow> builder \<Rightarrow> fix_message \<Rightarrow> bool" where
  "build_of now m b w \<longleftrightarrow> distinct_tags w
    \<and> (\<forall>t. t \<noteq> Tag_BodyLength \<and> t \<noteq> Tag_CheckSum \<longrightarrow> getField t w = standard_field now m b t)
    \<and> (bc_autoBodyLength (fb_config b) \<longrightarrow> getField Tag_BodyLength w = getField Tag_BodyLength m)
    \<and> getField Tag_BodyLength w \<in> {getField Tag_BodyLength m, Some ''0''} \<and> getField Tag_CheckSum w \<in> {getField Tag_CheckSum m, Some ''000''}"

lemma tag_distinct [simp]:
  "Tag_BeginString \<noteq> Tag_BodyLength" "Tag_BeginString \<noteq> Tag_CheckSum" "Tag_MsgType \<noteq> Tag_BodyLength" "Tag_MsgType \<noteq> Tag_CheckSum"
  "Tag_BodyLength \<noteq> Tag_MsgType" "Tag_MsgSeqNum \<noteq> Tag_BodyLength" "Tag_MsgSeqNum \<noteq> Tag_CheckSum" "Tag_SenderCompID \<noteq> Tag_BodyLength"
  "Tag_SenderCompID \<noteq> Tag_CheckSum" "Tag_BodyLength \<noteq> Tag_CheckSum" "Tag_CheckSum \<noteq> Tag_BodyLength"
  by (simp_all add: tag_defs)

lemma build_of_field: "build_of now m b w \<Longrightarrow> t \<noteq> Tag_BodyLength \<Longrightarrow> t \<noteq> Tag_CheckSum \<Longrightarrow> getField t w = standard_field now m b t"
  by (simp add: build_of_def)

lemma calculateBodyLength_invalidate [simp]: "calculateBodyLength ord (invalidateCache w) = calculateBodyLength ord w"
  by (simp add: calculateBodyLength_def)

lemma toString_fresh: "\<not> fm_stringCacheValid w \<Longrightarrow> fst (toString ord w) = serialise ord w"
  by (simp add: toString_def serialise_def Let_def)

lemma serialise_invalidate [simp]: "serialise ord (invalidateCache w) = serialise ord w"
  by (rule serialise_cong) simp

lemma trailer_uncached: "\<not> fm_stringCacheValid w \<Longrightarrow> \<not> fm_stringCacheValid (addStandardTrailer cfg w)"
  by (simp add: addStandardTrailer_def)

lemma buildMessage_spec:
  assumes "can_number 1 b" "distinct_tags m"
  shows "\<exists>w. buildMessage ord ck m b = Some (Inr (serialise ord w), built (bk_elapsed ck) b) \<and> build_of (bk_stamped ck) m b w"
proof -
  let ?b = "b\<lparr>fb_stats := (fb_stats b)\<lparr>bs_attempts := bs_attempts (fb_stats b) + 1\<rparr>\<rparr>" and ?m = "FixMessage_copy m" and ?now = "bk_stamped ck"
  have "can_number 1 ?b" "distinct_tags ?m" using assms by (simp_all add: can_number_def)
  from addStandardHeader_spec [OF this, of ?now] obtain w where
    w: "addStandardHeader ?now (getMsgType ?m) (?m, ?b) = Some (w, numbered 1 ?b)" "distinct_tags w" "\<not> fm_stringCacheValid w"
    and f: "\<And>t. getField t w = (if t = Tag_BodyLength
         then if bc_autoBodyLength (fb_config b) \<or> hasField t m then getField t m else Some ''0'' else standard_field ?now m b t)"
    by auto
  let ?w = "addStandardTrailer (fb_config b) w"
  have u: "\<not> fm_stringCacheValid ?w" by (rule trailer_uncached [OF w(3)])
  have "buildImpl ord ?now m ?b = Some (Inr (serialise ord ?w), numbered 1 ?b)"
    using u by (simp add: buildImpl_def w(1) orderFields_def updateLengthAndChecksum_def toString_fresh Let_def)
  then have "buildMessage ord ck m b = Some (Inr (serialise ord ?w), built (bk_elapsed ck) b)"
    by (simp add: buildMessage_def built_def numbered_def Let_def)
  moreover have "build_of ?now m b ?w"
    using w(2) by (simp add: build_of_def getField_trailer distinct_tags_trailer f)
  ultimately show ?thesis by blast
qed

lemma build_of_clean:
  assumes "build_of now m b w" "distinct_tags m" "clean_fields (fm_fields m)" "clean_config (fb_config b)"
  shows "clean_fields (fm_fields w)"
proof -
  have d: "distinct_tags w" using assms(1) by (simp add: build_of_def)
  have m: "in_int t \<and> FIX_SOH \<notin> set v" if "getField t m = Some v" for t v
    using that assms(3) clean_fields_iff [OF assms(2)] by blast
  have "in_int t \<and> FIX_SOH \<notin> set v" if g: "getField t w = Some v" for t v
  proof (cases "t = Tag_BodyLength \<or> t = Tag_CheckSum")
    case True
    then have "getField t m = Some v \<or> v = ''0'' \<or> v = ''000''" using assms(1) g by (auto simp: build_of_def)
    then show ?thesis using m True by (auto simp: FIX_SOH_def)
  next
    case False
    then have "standard_field now m b t = Some v" using assms(1) g by (simp add: build_of_def)
    then show ?thesis using m assms(4) by (auto simp: standard_field_def clean_config_def split: if_splits)
  qed
  then show ?thesis using clean_fields_iff [OF d] by blast
qed

lemma read_built:
  assumes "iteration_order ord" "build_of now m b w" "distinct_tags m" "clean_fields (fm_fields m)" "clean_config (fb_config b)"
    and "t \<noteq> Tag_BodyLength" "t \<noteq> Tag_CheckSum"
  shows "getField t (FixMessage_of_string now' (serialise ord w)) =
    (case standard_field now m b t of
       Some v \<Rightarrow> Some v
     | None \<Rightarrow> if t = Tag_MsgType then Some [] else if t = Tag_SendingTime then Some (formatSendingTime now') else None)"
proof -
  have c: "coherent ord (invalidateCache w)" "clean_fields (fm_fields (invalidateCache w))"
    using assms(2) build_of_clean [OF assms(2-5)] by (auto simp: build_of_def intro: distinct_tags_coherent)
  have f: "getField s w = standard_field now m b s" if "s \<noteq> Tag_BodyLength" "s \<noteq> Tag_CheckSum" for s
    using assms(2) that by (simp add: build_of_def)
  have "serialise ord w = fst (toString ord (invalidateCache w))" by (simp add: toString_fresh)
  moreover have "getField Tag_BeginString w = Some (bc_beginString (fb_config b))" "getField Tag_MsgType w = getField Tag_MsgType m"
    using f [of Tag_BeginString] f [of Tag_MsgType] by simp_all
  ultimately show ?thesis
    using parse_toString [OF assms(1) c, of t now'] assms(6,7) f [OF assms(6,7)]
    by (simp add: hasField_getField getFieldValue_getField getMsgType_def split: option.split)
qed

lemma body_length_built:
  "iteration_order ord \<Longrightarrow> build_of now m b w \<Longrightarrow> distinct_tags m \<Longrightarrow> clean_fields (fm_fields m) \<Longrightarrow> clean_config (fb_config b) \<Longrightarrow>
    hasField Tag_BodyLength (FixMessage_of_string now' (serialise ord w))"
proof -
  assume a: "iteration_order ord" "build_of now m b w" "distinct_tags m" "clean_fields (fm_fields m)" "clean_config (fb_config b)"
  have c: "coherent ord (invalidateCache w)" "clean_fields (fm_fields (invalidateCache w))"
    using a(2) build_of_clean [OF a(2-5)] by (auto simp: build_of_def intro: distinct_tags_coherent)
  have "serialise ord w = fst (toString ord (invalidateCache w))" by (simp add: toString_fresh)
  then show ?thesis
    using parse_toString [OF a(1) c, of Tag_BodyLength now'] by (simp add: hasField_getField tag_defs)
qed

text \<open>C18: Reading a built text back gives the message that was built: every field of it, and on top of them the header that the configuration asks for,
  with the builder's next sequence number. The build succeeds unless the sequence number would overflow, advances the sequence number
  by one when numbering is on, counts one attempt and one success, and leaves the configuration alone. Values must not contain
  the field delimiter.\<close>

theorem build_roundtrip:
  assumes "iteration_order ord" "distinct (map fst (fm_fields m))" "clean_fields (fm_fields m)" "clean_config (fb_config b)" "can_number 1 b"
  shows "\<exists>s b'. buildMessage ord ck m b = Some (Inr s, b')
    \<and> (\<forall>t. t \<noteq> Tag_BodyLength \<and> t \<noteq> Tag_CheckSum \<longrightarrow>
          getField t (FixMessage_of_string now s) =
            (case standard_field (bk_stamped ck) m b t of
               Some v \<Rightarrow> Some v
             | None \<Rightarrow> if t = Tag_MsgType then Some [] else if t = Tag_SendingTime then Some (formatSendingTime now) else None))
    \<and> fb_config b' = fb_config b \<and> fb_nextSeqNum b' = fb_nextSeqNum b + (if bc_autoSequenceNumber (fb_config b) then 1 else 0)
    \<and> bs_attempts (fb_stats b') = bs_attempts (fb_stats b) + 1 \<and> bs_success (fb_stats b') = bs_success (fb_stats b) + 1
    \<and> bs_failure (fb_stats b') = bs_failure (fb_stats b)"
proof -
  have d: "distinct_tags m" using assms(2) by (simp add: distinct_tags_def)
  obtain w where w: "buildMessage ord ck m b = Some (Inr (serialise ord w), built (bk_elapsed ck) b)" "build_of (bk_stamped ck) m b w"
    using buildMessage_spec [OF assms(5) d] by blast
  have "fb_nextSeqNum (built (bk_elapsed ck) b) = fb_nextSeqNum b + (if bc_autoSequenceNumber (fb_config b) then 1 else 0)"
    by (simp add: numbered_def)
  with w(1) read_built [OF assms(1) w(2) d assms(3,4)] show ?thesis
    by (intro exI [of _ "serialise ord w"] exI [of _ "built (bk_elapsed ck) b"]) simp
qed

lemma demo_message: "distinct (map fst (fm_fields (setField Tag_MsgType ''0'' empty_message)))" "clean_fields (fm_fields (setField Tag_MsgType ''0'' empty_message))"
  by (simp_all add: setField_def setFieldInternal_def empty_message_def clean_fields_def FIX_SOH_def)

lemma demo_builder:
  "clean_config (fb_config (FixBuilder ''GW'' ''EX''))" "fb_nextSeqNum (FixBuilder ''GW'' ''EX'') = 1" "bc_autoSequenceNumber (fb_config (FixBuilder ''GW'' ''EX''))"
  by (simp_all add: clean_config_def FixBuilder_def BuilderConfig_def FIX_VERSION_44_def FIX_SOH_def)

lemma build_roundtrip_witness:
  "\<exists>s b'. buildMessage rev \<lparr> bk_created = 0, bk_stamped = 0, bk_elapsed = 5 \<rparr> (setField Tag_MsgType ''0'' empty_message) (FixBuilder ''GW'' ''EX'') = Some (Inr s, b')
    \<and> getField Tag_MsgSeqNum (FixMessage_of_string 0 s) = Some ''1'' \<and> getField Tag_SenderCompID (FixMessage_of_string 0 s) = Some ''GW''"
proof -
  let ?m = "setField Tag_MsgType ''0'' empty_message" and ?b = "FixBuilder ''GW'' ''EX''" and ?ck = "\<lparr> bk_created = 0, bk_stamped = 0, bk_elapsed = 5 \<rparr> :: build_clock"
  have one: "to_string_int 1 = ''1''" by code_simp
  have "iteration_order rev" "can_number 1 ?b" by (simp_all add: iteration_order_def can_number_def demo_builder INT_MAX_def)
  from build_roundtrip [OF this(1) demo_message demo_builder(1) this(2), of ?ck 0] obtain s b' where
    s: "buildMessage rev ?ck ?m ?b = Some (Inr s, b')"
    and f: "\<forall>t. t \<noteq> Tag_BodyLength \<and> t \<noteq> Tag_CheckSum \<longrightarrow> getField t (FixMessage_of_string 0 s) =
        (case standard_field (bk_stamped ?ck) ?m ?b t of
           Some v \<Rightarrow> Some v
         | None \<Rightarrow> if t = Tag_MsgType then Some [] else if t = Tag_SendingTime then Some (formatSendingTime 0) else None)"
    by (elim exE conjE)
  have "standard_field n ?m ?b Tag_MsgSeqNum = Some ''1''" "standard_field n ?m ?b Tag_SenderCompID = Some ''GW''" for n
    using one by (simp_all add: standard_field_def FixBuilder_def BuilderConfig_def tag_defs)
  then show ?thesis using s spec [OF f, of Tag_MsgSeqNum] spec [OF f, of Tag_SenderCompID] by auto
qed

section \<open>Building many messages\<close>

primrec build_all :: "(fields \<Rightarrow> fields) \<Rightarrow> (build_clock \<times> fix_message) list \<Rightarrow> builder \<Rightarrow> (string list \<times> builder) option" where
  "build_all ord [] b = Some ([], b)"
| "build_all ord (x # xs) b =
    (case buildMessage ord (fst x) (snd x) b of
       Some (Inr s, b') \<Rightarrow> map_option (\<lambda>(ss, b''). (s # ss, b'')) (build_all ord xs b')
     | _ \<Rightarrow> None)"

definition clean_message :: "fix_message \<Rightarrow> bool" where
  "clean_message m \<longleftrightarrow> distinct_tags m \<and> clean_fields (fm_fields m)"

lemma read_sequence_number:
  assumes "iteration_order ord" "build_of now m b w" "clean_message m" "clean_config (fb_config b)"
    and "bc_autoSequenceNumber (fb_config b)" "in_int (fb_nextSeqNum b)"
  shows "getMsgSeqNum (FixMessage_of_string now' (serialise ord w)) = fb_nextSeqNum b"
proof -
  have "standard_field now m b Tag_MsgSeqNum = Some (to_string_int (fb_nextSeqNum b))"
    using assms(5) by (simp add: standard_field_def tag_defs)
  then have "getField Tag_MsgSeqNum (FixMessage_of_string now' (serialise ord w)) = Some (to_string_int (fb_nextSeqNum b))"
    using read_built [OF assms(1,2) _ _ assms(4), of Tag_MsgSeqNum now'] assms(3) by (simp add: clean_message_def)
  with assms(6) show ?thesis by (simp add: getMsgSeqNum_def getField_int_def stoi_to_string_int)
qed

text \<open>C20: A builder numbers its messages without a gap: as long as the numbers fit an \<open>int\<close>, building a list of messages gives one text for each, read back the
  \<open>i\<close>-th text carries the number at which the builder stood plus \<open>i\<close>, and attempts, successes and the next number all advance by the length of the list.\<close>

theorem build_all_numbers:
  assumes "iteration_order ord" "list_all (\<lambda>x. clean_message (snd x)) xs" "clean_config (fb_config b)"
    and "bc_autoSequenceNumber (fb_config b)" "INT_MIN \<le> fb_nextSeqNum b" "fb_nextSeqNum b + int (length xs) \<le> INT_MAX"
  shows "\<exists>ss b'. build_all ord xs b = Some (ss, b') \<and> length ss = length xs
    \<and> (\<forall>i < length xs. getMsgSeqNum (FixMessage_of_string now (ss ! i)) = fb_nextSeqNum b + int i)
    \<and> fb_nextSeqNum b' = fb_nextSeqNum b + int (length xs)
    \<and> bs_attempts (fb_stats b') = bs_attempts (fb_stats b) + of_nat (length xs) \<and> bs_success (fb_stats b') = bs_success (fb_stats b) + of_nat (length xs)"
  using assms
proof (induction xs arbitrary: b)
  case (Cons x xs)
  let ?b = "built (bk_elapsed (fst x)) b"
  have m: "clean_message (snd x)" "distinct_tags (snd x)" "can_number 1 b" "in_int (fb_nextSeqNum b)"
    using Cons.prems by (simp_all add: clean_message_def can_number_def in_int_def)
  obtain w where w: "buildMessage ord (fst x) (snd x) b = Some (Inr (serialise ord w), ?b)" "build_of (bk_stamped (fst x)) (snd x) b w"
    using buildMessage_spec [OF m(3,2)] by blast
  have n: "fb_nextSeqNum ?b = fb_nextSeqNum b + 1" using Cons.prems(4) by (simp add: numbered_def)
  obtain ss b' where r: "build_all ord xs ?b = Some (ss, b')" "length ss = length xs"
      "\<forall>i < length xs. getMsgSeqNum (FixMessage_of_string now (ss ! i)) = fb_nextSeqNum ?b + int i" "fb_nextSeqNum b' = fb_nextSeqNum ?b + int (length xs)"
      "bs_attempts (fb_stats b') = bs_attempts (fb_stats ?b) + of_nat (length xs)" "bs_success (fb_stats b') = bs_success (fb_stats ?b) + of_nat (length xs)"
    using Cons.IH [of ?b] Cons.prems n by (auto simp del: built_simps(2))
  have "getMsgSeqNum (FixMessage_of_string now (serialise ord w)) = fb_nextSeqNum b"
    by (rule read_sequence_number [OF Cons.prems(1) w(2) m(1) Cons.prems(3,4) m(4)])
  then have "\<forall>i < length (x # xs). getMsgSeqNum (FixMessage_of_string now ((serialise ord w # ss) ! i)) = fb_nextSeqNum b + int i"
    using r(3) n by (auto simp: less_Suc_eq_0_disj)
  with w(1) r n show ?case
    by (intro exI [of _ "serialise ord w # ss"] exI [of _ b']) (simp del: built_simps(2))
qed simp

lemma build_all_numbers_witness:
  "\<exists>s t b'. build_all rev (replicate 2 (\<lparr> bk_created = 0, bk_stamped = 0, bk_elapsed = 5 \<rparr>, setField Tag_MsgType ''0'' empty_message)) (FixBuilder ''GW'' ''EX'')
      = Some ([s, t], b')
    \<and> getMsgSeqNum (FixMessage_of_string 0 s) = 1 \<and> getMsgSeqNum (FixMessage_of_string 0 t) = 2 \<and> fb_nextSeqNum b' = 3"
proof -
  let ?xs = "replicate 2 (\<lparr> bk_created = 0, bk_stamped = 0, bk_elapsed = 5 \<rparr> :: build_clock, setField Tag_MsgType ''0'' empty_message)"
    and ?b = "FixBuilder ''GW'' ''EX''"
  have h: "iteration_order rev" "list_all (\<lambda>x. clean_message (snd x)) ?xs"
    by (simp_all add: iteration_order_def clean_message_def distinct_tags_def demo_message numeral_2_eq_2)
  have n: "clean_config (fb_config ?b)" "bc_autoSequenceNumber (fb_config ?b)" "INT_MIN \<le> fb_nextSeqNum ?b" "fb_nextSeqNum ?b + int (length ?xs) \<le> INT_MAX"
    by (simp_all add: demo_builder INT_MAX_def INT_MIN_def)
  from build_all_numbers [OF h n, of 0] obtain ss b' where r: "build_all rev ?xs ?b = Some (ss, b')" "length ss = length ?xs"
      "\<forall>i < length ?xs. getMsgSeqNum (FixMessage_of_string 0 (ss ! i)) = fb_nextSeqNum ?b + int i" "fb_nextSeqNum b' = fb_nextSeqNum ?b + int (length ?xs)"
    by (elim exE conjE)
  obtain s t where "ss = [s, t]" using r(2) by (auto simp: length_Suc_conv numeral_2_eq_2)
  then show ?thesis
    using r(1,4) spec [OF r(3), of 0] spec [OF r(3), of 1] demo_builder(2) by (intro exI [of _ s] exI [of _ t] exI [of _ b']) simp
qed

section \<open>Checksum\<close>

text \<open>C40: With automatic body length, the text built for a message that has a type and no BodyLength of its own does not pass the checksum verification, as
  long as it is shorter than a million bytes: whatever the other fields are, the checksum that the builder appends does not belong to the text in
  front of it. The build succeeds when the next sequence number can be advanced.\<close>

theorem build_fails_verification:
  assumes "iteration_order ord" "distinct (map fst (fm_fields m))" "hasField Tag_MsgType m" "\<not> hasField Tag_BodyLength m"
    and "bc_autoBodyLength (fb_config b)" "can_number 1 b"
  shows "\<exists>s b'. buildMessage ord ck m b = Some (Inr s, b') \<and> (length s < 1000000 \<longrightarrow> \<not> verifyChecksum s)"
proof -
  have d: "distinct_tags m" using assms(2) by (simp add: distinct_tags_def)
  obtain w where w: "buildMessage ord ck m b = Some (Inr (serialise ord w), built (bk_elapsed ck) b)" "build_of (bk_stamped ck) m b w"
    using buildMessage_spec [OF assms(6) d] by blast
  have dw: "distinct (map fst (fm_fields w))" using w(2) by (simp add: build_of_def distinct_tags_def)
  have "getField Tag_MsgType w = getField Tag_MsgType m" "getField Tag_BeginString w = Some (bc_beginString (fb_config b))"
    using build_of_field [OF w(2)] by simp_all
  moreover have "getField Tag_BodyLength w = getField Tag_BodyLength m" using w(2) assms(5) by (simp add: build_of_def)
  ultimately have h: "hasField Tag_MsgType w" "\<not> hasField Tag_BodyLength w" "hasField Tag_BeginString w"
    using assms(3,4) by (simp_all add: hasField_getField)
  have "calculateBodyLength ord w \<le> length (serialise ord w)"
    using length_body_part [OF assms(1) dw] h(1) by (simp add: serialise_def toString_body_parts)
  moreover have "coherent ord (invalidateCache w)" using dw by (intro coherent_invalidate)
  moreover have "fst (toString ord (invalidateCache w)) = serialise ord w" by (simp add: toString_fresh)
  ultimately have "length (serialise ord w) < 1000000 \<longrightarrow> \<not> verifyChecksum (serialise ord w)"
    using toString_unverifiable [OF assms(1), of "invalidateCache w"] h by (simp add: hasField_getField)
  with w(1) show ?thesis by blast
qed

lemma build_fails_verification_witness:
  "\<exists>s b'. buildMessage rev \<lparr> bk_created = 0, bk_stamped = 0, bk_elapsed = 5 \<rparr> (setField Tag_MsgType ''0'' empty_message)
       (updateConfig ((fb_config (FixBuilder ''GW'' ''EX''))\<lparr>bc_autoTimestamp := False\<rparr>) (FixBuilder ''GW'' ''EX'')) = Some (Inr s, b')
    \<and> length s < 1000000 \<and> \<not> verifyChecksum s"
proof -
  let ?b = "updateConfig ((fb_config (FixBuilder ''GW'' ''EX''))\<lparr>bc_autoTimestamp := False\<rparr>) (FixBuilder ''GW'' ''EX'')"
  let ?m = "setField Tag_MsgType ''0'' empty_message" and ?ck = "\<lparr> bk_created = 0, bk_stamped = 0, bk_elapsed = 5 \<rparr> :: build_clock"
  have "iteration_order rev" by (simp add: iteration_order_def)
  moreover have "can_number 1 ?b" using demo_builder(2) by (simp add: can_number_def updateConfig_def INT_MAX_def)
  moreover have "hasField Tag_MsgType ?m" "\<not> hasField Tag_BodyLength ?m"
    by (simp_all add: hasField_getField field_lookups) (simp add: getField_def empty_message_def)
  moreover have "bc_autoBodyLength (fb_config ?b)" by (simp add: updateConfig_def FixBuilder_def BuilderConfig_def)
  ultimately obtain s b' where s: "buildMessage rev ?ck ?m ?b = Some (Inr s, b')" "length s < 1000000 \<longrightarrow> \<not> verifyChecksum s"
    using build_fails_verification [of rev ?m ?b ?ck, OF _ demo_message(1)] by blast
  have "case buildMessage rev ?ck ?m ?b of Some (Inr s, b') \<Rightarrow> length s < 200 | _ \<Rightarrow> False" by code_simp
  with s show ?thesis by auto
qed

section \<open>Orders\<close>

definition order_message :: "nat \<Rightarrow> string \<Rightarrow> string \<Rightarrow> string \<Rightarrow> quantity \<Rightarrow> price \<Rightarrow> string \<Rightarrow> string \<Rightarrow> string \<Rightarrow> fix_message" where
  "order_message now clOrdID symbol side orderQty price orderType timeInForce account =
    (let message = setField Tag_OrdType orderType (setField Tag_OrderQty orderQty (setField Tag_Side side (setField Tag_Symbol symbol
           (setField Tag_ClOrdID clOrdID (setField Tag_MsgType MsgTypes_NewOrderSingle (new_FixMessage now))))));
         message = (if orderType = OrderType_Limit \<or> orderType = OrderType_StopLimit then setField Tag_Price price message else message);
         message = setField Tag_TimeInForce timeInForce message
     in if account \<noteq> [] then setField Tag_Account account message else message)"

lemma buildNewOrderSingle_order_message:
  "buildNewOrderSingle ord ck clOrdID symbol side orderQty price orderType timeInForce account b =
     buildMessage ord ck (order_message (bk_created ck) clOrdID symbol side orderQty price orderType timeInForce account) b"
  by (simp only: buildNewOrderSingle_def order_message_def Let_def)

definition order_fields :: "string \<Rightarrow> string \<Rightarrow> string \<Rightarrow> quantity \<Rightarrow> price \<Rightarrow> string \<Rightarrow> string \<Rightarrow> string \<Rightarrow> (int \<times> string option) list" where
  "order_fields clOrdID symbol side orderQty price orderType timeInForce account =
    [(Tag_MsgType, Some ''D''), (Tag_ClOrdID, Some clOrdID), (Tag_Symbol, Some symbol), (Tag_Side, Some side), (Tag_OrderQty, Some orderQty),
     (Tag_OrdType, Some orderType), (Tag_Price, if orderType \<in> {''2'', ''4''} then Some price else None), (Tag_TimeInForce, Some timeInForce),
     (Tag_Account, if account = [] then None else Some account)]"

lemma hasValidFormat_fields: "getField t m = Some v \<Longrightarrow> hasValidFormat m"
  by (auto simp: hasValidFormat_def getField_def)

lemma order_message_fields:
  "list_all (\<lambda>(t, v). getField t (order_message now clOrdID symbol side orderQty price orderType timeInForce account) = v)
     (order_fields clOrdID symbol side orderQty price orderType timeInForce account)"
  by (simp only: order_message_def order_fields_def Let_def list.pred_inject prod.case getField_if field_lookups) (simp add: tag_defs OrderType_Limit_def OrderType_StopLimit_def MsgTypes_NewOrderSingle_def)

lemma clean_message_setField:
  "clean_message m \<Longrightarrow> in_int t \<Longrightarrow> FIX_SOH \<notin> set v \<Longrightarrow> clean_message (setField t v m)"
  using clean_fields_iff [of m] clean_fields_iff [of "setField t v m"] by (auto simp: clean_message_def getField_setField split: if_splits)

lemma clean_message_new: "clean_message (new_FixMessage now)"
  using clean_fields_iff [of "new_FixMessage now"] by (simp add: clean_message_def getField_new)

lemma in_int_order_tags [simp]:
  "in_int Tag_ClOrdID" "in_int Tag_Symbol" "in_int Tag_Side" "in_int Tag_OrderQty" "in_int Tag_OrdType" "in_int Tag_Price" "in_int Tag_TimeInForce"
  "in_int Tag_Account"
  by (simp_all add: in_int_def INT_MIN_def INT_MAX_def tag_defs)

lemma new_order_clean: "FIX_SOH \<notin> set MsgTypes_NewOrderSingle"
  by (simp add: MsgTypes_NewOrderSingle_def FIX_SOH_def)

lemma clean_order_message:
  "list_all (\<lambda>v. FIX_SOH \<notin> set v) [clOrdID, symbol, side, orderQty, price, orderType, timeInForce, account] \<Longrightarrow>
    clean_message (order_message now clOrdID symbol side orderQty price orderType timeInForce account)"
  using new_order_clean by (simp add: order_message_def Let_def clean_message_setField clean_message_new)

lemma standard_field_other:
  "t \<notin> {Tag_BeginString, Tag_MsgSeqNum, Tag_SendingTime, Tag_SenderCompID, Tag_TargetCompID} \<Longrightarrow> standard_field now m b t = getField t m"
  by (simp add: standard_field_def)

text \<open>C19: An order built by a builder with both party identifiers and automatic numbering arrives complete: read back, its text gives every field of the order, the price
  for limit and stop limit orders only and the account only when there is one, and the message passes the validation of the message class and of the builder.\<close>

theorem new_order_complete:
  assumes "iteration_order ord" "list_all (\<lambda>v. FIX_SOH \<notin> set v) [clOrdID, symbol, side, orderQty, price, orderType, timeInForce, account]"
    and "clean_config (fb_config b)" "can_number 1 b" "bc_autoSequenceNumber (fb_config b)"
    and "list_all (\<lambda>v. v \<noteq> []) [bc_senderCompID (fb_config b), bc_targetCompID (fb_config b), clOrdID, symbol, side, orderQty]"
  shows "\<exists>s b'. buildNewOrderSingle ord ck clOrdID symbol side orderQty price orderType timeInForce account b = Some (Inr s, b')
    \<and> list_all (\<lambda>(t, v). getField t (FixMessage_of_string now s) = v) (order_fields clOrdID symbol side orderQty price orderType timeInForce account)
    \<and> isValid (FixMessage_of_string now s) \<and> builder_validateMessage (FixMessage_of_string now s) \<and> getValidationErrors (FixMessage_of_string now s) = []"
proof -
  let ?o = "order_message (bk_created ck) clOrdID symbol side orderQty price orderType timeInForce account"
  have c: "distinct_tags ?o" "clean_fields (fm_fields ?o)" using clean_order_message [OF assms(2)] by (simp_all add: clean_message_def)
  obtain w where w: "buildMessage ord ck ?o b = Some (Inr (serialise ord w), built (bk_elapsed ck) b)" "build_of (bk_stamped ck) ?o b w"
    using buildMessage_spec [OF assms(4) c(1)] by blast
  let ?r = "FixMessage_of_string now (serialise ord w)"
  note read = read_built [OF assms(1) w(2) c assms(3), of _ now]
  have body: "list_all (\<lambda>(t, v). getField t ?r = v) (order_fields clOrdID symbol side orderQty price orderType timeInForce account)"
  proof -
    have keep: "getField t ?r = v" if "(t, v) \<in> set (order_fields clOrdID symbol side orderQty price orderType timeInForce account)" "getField t ?o = v" for t v
    proof -
      have "t \<notin> {Tag_BeginString, Tag_MsgSeqNum, Tag_SendingTime, Tag_SenderCompID, Tag_TargetCompID}" "t \<noteq> Tag_BodyLength" "t \<noteq> Tag_CheckSum" "t = Tag_MsgType \<longrightarrow> v \<noteq> None"
        using that(1) by (auto simp: order_fields_def tag_defs)
      then show ?thesis using read [of t] that(2) by (auto simp: standard_field_other split: option.split)
    qed
    show ?thesis by (rule list.pred_mono_strong [OF order_message_fields]) (auto intro: keep)
  qed
  have head: "getField Tag_BeginString ?r \<noteq> None" "getField Tag_MsgSeqNum ?r \<noteq> None" "getField Tag_SendingTime ?r \<noteq> None"
      "getField Tag_SenderCompID ?r \<noteq> None" "getField Tag_TargetCompID ?r \<noteq> None" "getField Tag_BodyLength ?r \<noteq> None"
    using read [of Tag_BeginString] read [of Tag_MsgSeqNum] read [of Tag_SendingTime] read [of Tag_SenderCompID] read [of Tag_TargetCompID] assms(5,6)
      body_length_built [OF assms(1) w(2) c assms(3), of now]
    by (simp_all add: standard_field_def hasField_getField tag_defs split: option.split)
  have "hasValidFormat ?r" using body by (auto simp: order_fields_def intro: hasValidFormat_fields [of Tag_MsgType])
  then have "isValid ?r" "builder_validateMessage ?r" "getValidationErrors ?r = []"
    using body head assms(6)
    by (simp_all add: order_fields_def isValid_def validate_def builder_validateMessage_def getValidationErrors_def hasField_getField getMsgType_def
        getFieldValue_getField hasRequiredSessionFields_def)
  with w(1) body show ?thesis unfolding buildNewOrderSingle_order_message by blast
qed

lemma new_order_complete_witness:
  "\<exists>s b'. buildNewOrderSingle rev \<lparr> bk_created = 0, bk_stamped = 0, bk_elapsed = 5 \<rparr> ''1'' ''IBM'' ''1'' ''10'' ''9.5'' ''2'' ''0'' [] (FixBuilder ''GW'' ''EX'') = Some (Inr s, b')
    \<and> getField Tag_Price (FixMessage_of_string 0 s) = Some ''9.5'' \<and> getField Tag_Account (FixMessage_of_string 0 s) = None \<and> isValid (FixMessage_of_string 0 s)"
proof -
  let ?b = "FixBuilder ''GW'' ''EX''"
  have h: "iteration_order rev" "list_all (\<lambda>v. FIX_SOH \<notin> set v) [''1'', ''IBM'', ''1'', ''10'', ''9.5'', ''2'', ''0'', []]"
    by (simp_all add: iteration_order_def FIX_SOH_def)
  have b: "can_number 1 ?b" "list_all (\<lambda>v. v \<noteq> []) [bc_senderCompID (fb_config ?b), bc_targetCompID (fb_config ?b), ''1'', ''IBM'', ''1'', ''10'']"
    by (simp_all add: can_number_def demo_builder INT_MAX_def) (simp_all add: FixBuilder_def)
  from new_order_complete [OF h demo_builder(1) b(1) demo_builder(3) b(2), of "\<lparr> bk_created = 0, bk_stamped = 0, bk_elapsed = 5 \<rparr>" 0]
  show ?thesis by (elim exE conjE) (simp add: order_fields_def)
qed

end
