(* ===== verification/Spec2Isabelle.thy ===== *)
theory Spec2Isabelle
  imports Spsc_Interleaving Stream_Safety Session_Messages Sender_Manager_Properties State_Machine_Properties Gateway_Properties Builder_Properties
begin

text \<open>
  Verification development for a FIX gateway in C++. Paths are relative to the source tree src/, so that src/protocol/x.cpp is
  the file src/src/protocol/x.cpp of the repository.

  \<^bold>\<open>The program.\<close> Bytes arrive on a TCP connection. A stream parser cuts them into FIX messages and decodes each into an object of a
  preallocated pool. A router puts a pointer to the message into one of four lock-free queues, one per priority. Message
  managers poll the queues; the session manager runs the FIX session on them (logon, heartbeats, sequence numbers, resend
  requests) and hands missing sequence numbers to a gap manager. In the other direction a builder makes the texts of outgoing messages, and
  a sender manager owns four queues and four sender threads that take messages out and write them to the connection.

  \<^bold>\<open>Inbound half.\<close>
  \<^item> Lockfree\_Queue: \<open>LockFreeQueue\<close> (include/utils/lockfree\_queue.h), a ring buffer on 64-bit indices. The record \<open>lfq\<close> has the members of
    the class. Shown: a refinement of a bounded first-in-first-out list over every schedule of calls, and that the capacity is
    the least power of two.
  \<^item> Spsc\_Interleaving: the same operations split into their atomic loads and stores. The step functions interleave in any order, and
    reachability is an inductive relation. Shown: with one producer and one consumer no element is lost, repeated or reordered; with two
    producers an accepted element can be lost.
  \<^item> Message\_Pool: \<open>MessagePool\<close> and \<open>GlobalMessagePool\<close> (include/common/message\_pool.h), with slot addresses, the free list of
    32-bit indices and the counters. Shown: the invariant, and that allocation hands out every slot once before it fails.
  \<^item> Fix\_Fields, Std\_Text: the protocol constants (fix\_fields) and the integer text conversions (fast\_string\_conversion), the latter
    equal to the conversions of the standard library on every 32-bit integer.
  \<^item> Fix\_Message, Fix\_Serialisation: \<open>FixMessage\<close> (fix\_message). Shown: the caches agree with the fields after any sequence of
    operations, with the exception of the cached type after a move assignment; serialising and parsing is a round trip; the body length is right; checksum verification detects a changed byte.
  \<^item> Parser\_Types, Parser\_Framing, Parser\_Decode, Parser\_Recovery, Stream\_Parser: \<open>StreamFixParser::parse\<close> (stream\_fix\_parser) with
    its two stages, leftover bytes, statistics, error recovery and circuit breaker. Parser\_Wire describes well-formed messages.
    Stream\_Correctness shows that a stream of messages with a specialised decoder is decoded as if every message had arrived alone,
    for all cuts but those in a checksum field and those that overrun the partial buffer or make it overlap itself; Stream\_Safety shows that arbitrary bytes never harm a live message.
  \<^item> Parser\_State\_Machine, State\_Machine\_Properties: the byte-level state machine of the same class. Shown: it decodes to the same fields as
    the two stages, its results are typed, and when its loop returns.
  \<^item> Message\_Router: \<open>PriorityQueueContainer\<close> and \<open>MessageRouter\<close>. Shown: a batch is partitioned over the queues and every message is
    counted once.
  \<^item> Inbound\_Manager, Session\_Manager, Session\_Properties, Session\_Messages: \<open>InboundMessageManager\<close> and \<open>FixSessionManager\<close>. Shown: an
    invariant over every operation, which sequence numbers are accepted, what is sent in reply, and that the polling loop accounts for every message.
  \<^item> Gap\_Manager: \<open>SequenceNumGapManager\<close>. Shown: it behaves like a set of missing numbers, and the schedule of its resend requests.
  \<^item> Fix\_Gateway, Gateway\_Properties: \<open>FixGateway\<close>, which joins connection, parser, pool and router. Shown: what a buffer of
    messages leads to in the queues, that every queued message is live and queued once whatever arrives, which messages are lost, and
    that the connection flag is never set.

  \<^bold>\<open>Outbound half.\<close>
  \<^item> Fix\_Builder, Builder\_Properties: \<open>FixBuilder\<close>. Shown: a built text gives back the fields, sequence numbers are consecutive, and the
    checksum of a built text does not verify.
  \<^item> Pipeline\_Message: \<open>common::Message\<close>, the message of the sending pipeline.
  \<^item> Std\_Heap, Priority\_Queue: \<open>PriorityQueue\<close> (utils/priority\_queue) on the binary heap of the standard library. Shown: the order of
    delivery and the effect of each overflow policy on queue, pool and counters.
  \<^item> Tcp\_Connection: \<open>TcpConnection\<close>. Shown: what is transmitted by partial sends, and that it is never connected.
  \<^item> Async\_Sender, Sender\_Queues, Sender\_Manager, Sender\_Manager\_Properties: \<open>AsyncSender\<close> and \<open>AsyncSenderManager\<close>. Shown: every queued
    message is live and has one owner in every reachable state, sending either queues or destroys a message, and shutting down
    destroys exactly the queued ones.

  \<^bold>\<open>Interfaces.\<close> Four locales state what one part relies on. \<open>bounded_fifo\<close> (Fifo\_Interface) is interpreted by the lock-free queue and used
  by the gap manager and the message managers. \<open>object_pool\<close> (Pool\_Interface) is interpreted by the message pool and used by the parser, the
  session manager and the senders. \<open>owning_queue\<close> (Sender\_Queues) is interpreted by the mutex based queue, the lock-free queue and the choice
  between them. \<open>message_handler\<close> (Inbound\_Manager), the virtual functions of the base class, is interpreted by the session manager.

  \<^bold>\<open>Representation.\<close> A class is a record and an operation is a function from the state to the result and the new state. A pointer is an
  address in the heap of a pool, and following one that is not live gives \<open>None\<close>. Unsigned 64-bit
  integers are words; an \<open>int\<close> is an integer with its range checked, and signed overflow in the parser is the outcome that stands
  for undefined behaviour, as is a read outside the readable bytes. An exception is a value. Times, the answers of system calls, the
  contents of uninitialised memory and the effect of other threads during a wait are arguments.

  \<^bold>\<open>Loops.\<close> No definition has fuel. Loops with a decreasing measure are total functions. Emptying a queue, the rounds of the gap manager,
  the retries of a sender and the loop of the state machine are partial functions whose value \<open>None\<close> means that they do not return; that they return is proved where it is
  claimed, and for the state machine and the retries the situations in which they do not return are given. Threads that run until they are stopped are modelled
  pass by pass.

  \<^bold>\<open>Concurrency.\<close> Only the lock-free queue is modelled at the level of atomic steps, under sequential consistency. Operations under a mutex
  are atomic. Operations of other classes are sequences of calls in any order, and their invariants are proved for every such sequence.

  \<^bold>\<open>Not modelled.\<close>
  \<^item> Floating point: average latencies, utilisation, double fields and their formatting. The theory of double rounding is outside the scope.
  \<^item> The logger (output only), the performance counters and timers (figures for reports) and the platform detector (diagnostics that no
    other part calls).
  \<^item> The creation of threads, their affinity and scheduling, beyond the answers the system gives; the macOS branches of the conditional compilation.
  \<^item> The move operations of \<open>StreamFixParser\<close>, which leave most members uninitialised; texts of errors and statistics.
  \<^item> main.cpp (a benchmark with random data), examples and tests; business\_logic\_manager.h, order\_book\_interface.h
    and operations of other headers that are declared and defined nowhere.
  \<^item> Weak memory orders, and the compare-and-swap loops of the pool under interference.
\<close>

end
